(* ===== verification/Eve_Prelude.thy ===== *)
theory Eve_Prelude
  imports Complex_Main "HOL-Library.AList" "HOL-Library.Sublist" "HOL-Library.Monad_Syntax"
begin

text \<open>
  Shared vocabulary of the development.

  \<^item> A JavaScript plain object, \<open>Record\<close> or \<open>Map\<close> with string keys is an association list in
    insertion order: assignment is \<open>AList.update\<close> (an existing key keeps its place),
    \<open>delete\<close> is \<open>AList.delete\<close>, \<open>Object.entries\<close> is the list itself. Keys that
    look like array indices are enumerated by the engine in numeric order; no definition here
    depends on that order.
  \<^item> A throw is \<open>Inl\<close> of an error value, a normal return is \<open>Inr\<close>; \<open>bindR\<close> sequences two
    fallible computations.
  \<^item> \<open>find\<close> followed by \<open>map\<close> or \<open>filter\<close> on the identity of the found element is
    \<open>update_first\<close> and \<open>remove_first\<close>: the elements of an array are distinct objects, so the
    element that \<open>find\<close> returned is the first that satisfies the predicate.
  \<^item> The locales \<open>transition_system\<close> and \<open>state_slot\<close> are the two interfaces every component
    with a state is proved against.
\<close>

named_theorems slot_simps \<open>what a state slot reads after a write\<close>
named_theorems effect_simps \<open>equations of fallible computations\<close>

section \<open>Fallible computations\<close>

definition bindR :: "'e + 'a \<Rightarrow> ('a \<Rightarrow> 'e + 'b) \<Rightarrow> 'e + 'b" where
  "bindR r f = (case r of Inl e \<Rightarrow> Inl e | Inr x \<Rightarrow> f x)"

lemma bindR_Inl [simp, effect_simps]: "bindR (Inl e) f = Inl e"
  by (simp add: bindR_def)

lemma bindR_Inr [simp, effect_simps]: "bindR (Inr x) f = f x"
  by (simp add: bindR_def)

lemma bindR_eq_Inr [simp]: "bindR r f = Inr y \<longleftrightarrow> (\<exists>x. r = Inr x \<and> f x = Inr y)"
  by (cases r) (auto simp: bindR_def)

lemma bindR_eq_Inl: "bindR r f = Inl e \<longleftrightarrow> r = Inl e \<or> (\<exists>x. r = Inr x \<and> f x = Inl e)"
  by (cases r) (auto simp: bindR_def)

lemma bindR_cong [fundef_cong]:
  "r = r' \<Longrightarrow> (\<And>x. r' = Inr x \<Longrightarrow> f x = g x) \<Longrightarrow> bindR r f = bindR r' g"
  by (cases r') (auto simp: bindR_def)

section \<open>First match in an array\<close>

fun update_first :: "('a \<Rightarrow> bool) \<Rightarrow> ('a \<Rightarrow> 'a) \<Rightarrow> 'a list \<Rightarrow> 'a list" where
  "update_first P f [] = []"
| "update_first P f (x # xs) = (if P x then f x # xs else x # update_first P f xs)"

fun remove_first :: "('a \<Rightarrow> bool) \<Rightarrow> 'a list \<Rightarrow> 'a list" where
  "remove_first P [] = []"
| "remove_first P (x # xs) = (if P x then xs else x # remove_first P xs)"

lemma find_first_split:
  "find P xs = Some x \<Longrightarrow> \<exists>us vs. xs = us @ x # vs \<and> P x \<and> (\<forall>u \<in> set us. \<not> P u) \<and>
     (\<forall>f. update_first P f xs = us @ f x # vs) \<and> remove_first P xs = us @ vs"
proof (induction xs)
  case Nil
  then show ?case by simp
next
  case (Cons y ys)
  show ?case
  proof (cases "P y")
    case True
    with Cons.prems show ?thesis
      by (intro exI [of _ "[]"] exI [of _ ys]) auto
  next
    case False
    with Cons.prems have "find P ys = Some x" by simp
    from Cons.IH [OF this] obtain us vs where "ys = us @ x # vs" "P x" "\<forall>u \<in> set us. \<not> P u"
        "\<forall>f. update_first P f ys = us @ f x # vs" "remove_first P ys = us @ vs"
      by blast
    with False show ?thesis
      by (intro exI [of _ "y # us"] exI [of _ vs]) auto
  qed
qed

lemma find_SomeD: "find P xs = Some x \<Longrightarrow> P x \<and> x \<in> set xs"
  by (auto simp: find_Some_iff)

lemma find_NoneD: "find P xs = None \<Longrightarrow> x \<in> set xs \<Longrightarrow> \<not> P x"
  by (auto simp: find_None_iff)

lemma update_first_same [simp]: "\<forall>x \<in> set xs. \<not> P x \<Longrightarrow> update_first P f xs = xs"
  by (induction xs) auto

lemma remove_first_same [simp]: "\<forall>x \<in> set xs. \<not> P x \<Longrightarrow> remove_first P xs = xs"
  by (induction xs) auto

lemma map_update_first:
  "(\<And>x. x \<in> set xs \<Longrightarrow> P x \<Longrightarrow> g (f x) = g x) \<Longrightarrow> map g (update_first P f xs) = map g xs"
  by (induction xs) auto

lemma length_update_first [simp]: "length (update_first P f xs) = length xs"
  by (induction xs) auto

lemma set_remove_first: "set (remove_first P xs) \<subseteq> set xs"
  by (induction xs) auto

lemma set_update_first: "set (update_first P f xs) \<subseteq> set xs \<union> f ` {x \<in> set xs. P x}"
  by (induction xs) auto

lemma distinct_map_remove_first:
  "distinct (map g xs) \<Longrightarrow> distinct (map g (remove_first P xs))"
  by (induction xs) (auto dest!: set_remove_first [THEN subsetD])

lemma find_update_first_hit: "find P xs = Some x \<Longrightarrow> P y \<Longrightarrow> find P (update_first P (\<lambda>_. y) xs) = Some y"
  by (induction xs) (auto split: if_splits)

lemma find_update_first_other:
  assumes "\<And>x. x \<in> set xs \<Longrightarrow> P x \<Longrightarrow> \<not> Q x \<and> \<not> Q (f x)"
  shows "find Q (update_first P f xs) = find Q xs"
  using assms by (induction xs) auto

lemma find_remove_first_other:
  assumes "\<And>x. x \<in> set xs \<Longrightarrow> P x \<Longrightarrow> \<not> Q x"
  shows "find Q (remove_first P xs) = find Q xs"
  using assms by (induction xs) auto

lemma takeWhile_stop: "\<forall>x \<in> set xs. P x \<Longrightarrow> \<not> P y \<Longrightarrow> takeWhile P (xs @ y # ys) = xs"
  by (induction xs) auto

section \<open>Sets and maps in insertion order\<close>

definition js_set :: "'a list \<Rightarrow> 'a list" where
  \<comment> \<open>The elements of \<open>new Set(xs)\<close> in iteration order: the first occurrence of each.\<close>
  "js_set xs = rev (remdups (rev xs))"

lemma set_js_set [simp]: "set (js_set xs) = set xs"
  by (simp add: js_set_def)

lemma distinct_js_set [simp]: "distinct (js_set xs)"
  by (simp add: js_set_def)

lemma length_js_set_eq: "length (js_set xs) = length xs \<longleftrightarrow> distinct xs"
  by (auto simp: js_set_def length_remdups_card_conv distinct_card intro: card_distinct)

fun entries_map :: "('k \<times> 'v) list \<Rightarrow> ('k \<times> 'v) list" where
  \<comment> \<open>\<open>new Map(entries)\<close> and \<open>Object.fromEntries(entries)\<close>: later entries overwrite.\<close>
  "entries_map xs = foldl (\<lambda>m (k, v). AList.update k v m) [] xs"

lemma foldl_update_map_of:
  "map_of (foldl (\<lambda>m (k, v). AList.update k v m) m xs) = map_of m ++ map_of (rev xs)"
proof (induction xs arbitrary: m)
  case Nil
  then show ?case by simp
next
  case (Cons x xs)
  obtain k v where x: "x = (k, v)" by force
  show ?case
    by (rule ext) (simp add: x Cons.IH update_conv' map_add_def split: option.split)
qed

lemma map_of_entries_map: "map_of (entries_map xs) = map_of (rev xs)"
  by (simp add: foldl_update_map_of)

lemma map_of_rev_distinct: "distinct (map fst xs) \<Longrightarrow> map_of (rev xs) = map_of xs"
  by (rule map_of_inject_set [THEN iffD2]) (auto simp: rev_map [symmetric])

lemma map_of_entries_map_distinct:
  "distinct (map fst xs) \<Longrightarrow> map_of (entries_map xs) = map_of xs"
  by (simp add: map_of_entries_map map_of_rev_distinct del: entries_map.simps)

lemma update_new_key: "k \<notin> set (map fst xs) \<Longrightarrow> AList.update k v (xs @ ys) = xs @ AList.update k v ys"
  by (induction xs) auto

lemma update_absent: "k \<notin> set (map fst xs) \<Longrightarrow> AList.update k v xs = xs @ [(k, v)]"
  using update_new_key [of k xs v "[]"] by simp

lemma update_same: "map_of xs k = Some v \<Longrightarrow> AList.update k v xs = xs"
  by (induction xs) (auto split: if_splits)

lemma js_set_snoc: "js_set (xs @ [x]) = (if x \<in> set xs then js_set xs else js_set xs @ [x])"
  by (simp add: js_set_def)

lemma update_map_keys:
  "distinct ks \<Longrightarrow> k \<in> set ks \<Longrightarrow> AList.update k v (map (\<lambda>k. (k, f k)) ks) = map (\<lambda>k'. (k', if k' = k then v else f k')) ks"
  by (induction ks) auto

lemma map_of_map_keys: "map_of (map (\<lambda>k. (k, f k)) ks) k = (if k \<in> set ks then Some (f k) else None)"
  by (induction ks) auto

text \<open>
  Values put one after another under a key into a \<open>Map\<close>: what is added depends on the value and on what
  the key holds so far. The result has one entry for each key, in the order of their first values, made
  from the values of that key alone.
\<close>

definition bucketed :: "('x \<Rightarrow> 'k) \<Rightarrow> ('x \<Rightarrow> 'b option \<Rightarrow> 'b) \<Rightarrow> 'x list \<Rightarrow> ('k \<times> 'b) list" where
  "bucketed key add xs = foldl (\<lambda>m x. AList.update (key x) (add x (map_of m (key x))) m) [] xs"

definition collected :: "('x \<Rightarrow> 'b option \<Rightarrow> 'b) \<Rightarrow> 'x list \<Rightarrow> 'b option" where
  "collected add xs = foldl (\<lambda>b x. Some (add x b)) None xs"

lemma collected_snoc: "collected add (xs @ [x]) = Some (add x (collected add xs))"
  by (simp add: collected_def)

lemma collected_Nil [simp]: "collected add [] = None"
  by (simp add: collected_def)

lemma collected_one [simp]: "collected add [x] = Some (add x None)"
  by (simp add: collected_def)

lemma collected_None [simp]: "collected add xs = None \<longleftrightarrow> xs = []"
  by (cases xs rule: rev_cases) (simp_all add: collected_snoc)

lemma bucketed_eq:
  "bucketed key add xs =
     map (\<lambda>k. (k, the (collected add (filter (\<lambda>x. key x = k) xs)))) (js_set (map key xs))"
proof (induction xs rule: rev_induct)
  case Nil
  show ?case by (simp add: bucketed_def js_set_def)
next
  case (snoc x xs)
  let ?f = "\<lambda>k. the (collected add (filter (\<lambda>x. key x = k) xs))"
  have step: "bucketed key add (xs @ [x]) = AList.update (key x) (add x (map_of (bucketed key add xs) (key x))) (bucketed key add xs)"
    by (simp add: bucketed_def)
  have at: "map_of (bucketed key add xs) (key x) = collected add (filter (\<lambda>y. key y = key x) xs)"
  proof (cases "key x \<in> key ` set xs")
    case True
    then have "filter (\<lambda>y. key y = key x) xs \<noteq> []" by (auto simp: filter_empty_conv image_iff)
    then have "collected add (filter (\<lambda>y. key y = key x) xs) \<noteq> None" by simp
    with True show ?thesis by (auto simp: snoc.IH map_of_map_keys simp del: collected_None)
  next
    case False
    then have "\<forall>y \<in> set xs. key y \<noteq> key x" by (metis imageI)
    then have "filter (\<lambda>y. key y = key x) xs = []" by simp
    with False show ?thesis by (simp add: snoc.IH map_of_map_keys)
  qed
  show ?case
  proof (cases "key x \<in> key ` set xs")
    case True
    then show ?thesis
      unfolding step at by (auto simp: snoc.IH update_map_keys js_set_snoc collected_snoc)
  next
    case False
    then have "k \<noteq> key x" if "k \<in> set (js_set (map key xs))" for k using that by (metis set_js_set set_map)
    with False show ?thesis
      unfolding step at by (auto simp: snoc.IH update_absent js_set_snoc collected_snoc comp_def)
  qed
qed

definition nullish :: "'a option \<Rightarrow> 'a option \<Rightarrow> 'a option" where
  \<comment> \<open>\<open>a ?? b\<close>\<close>
  "nullish a b = (case a of None \<Rightarrow> b | Some x \<Rightarrow> Some x)"

definition option_list :: "'a option \<Rightarrow> 'a list" where
  "option_list x = (case x of None \<Rightarrow> [] | Some y \<Rightarrow> [y])"

lemma set_option_list [simp]: "set (option_list x) = set_option x"
  by (cases x) (simp_all add: option_list_def)

section \<open>Interfaces\<close>

text \<open>
  A component that applies commands to a state one at a time. A property that every command keeps
  is kept by every sequence of commands.
\<close>

locale transition_system =
  fixes step :: "'s \<Rightarrow> 'c \<Rightarrow> 's"
    and inv :: "'s \<Rightarrow> bool"
  assumes step_inv: "inv s \<Longrightarrow> inv (step s c)"
begin

lemma run_inv: "inv s \<Longrightarrow> inv (foldl step s cs)"
  by (induction cs arbitrary: s) (auto intro: step_inv)

end

text \<open>
  One slot of the session state: a key, how a value is written there and what a read then returns
  (\<open>view\<close>, which may be a parse result). The write touches no other key and the read looks at no
  other key, so the slots of two components are independent.
\<close>

locale state_slot =
  fixes key :: "string"
    and put :: "'v \<Rightarrow> (string \<times> 'j) list \<Rightarrow> (string \<times> 'j) list"
    and get :: "(string \<times> 'j) list \<Rightarrow> 'r"
    and view :: "'v \<Rightarrow> 'r"
    and ok :: "'v \<Rightarrow> bool"
  assumes get_put: "ok v \<Longrightarrow> get (put v s) = view v"
    and put_other: "k \<noteq> key \<Longrightarrow> map_of (put v s) k = map_of s k"
    and get_local: "map_of s key = map_of t key \<Longrightarrow> get s = get t"
begin

lemma get_put_put: "ok v \<Longrightarrow> get (put v (put w s)) = view v"
  by (rule get_put)

lemma get_update_other: "k \<noteq> key \<Longrightarrow> get (AList.update k j s) = get s"
  by (rule get_local) (simp add: update_conv')

lemma get_delete_other: "k \<noteq> key \<Longrightarrow> get (AList.delete k s) = get s"
  by (rule get_local) (simp add: delete_conv')

lemma get_put_update_other: "k \<noteq> key \<Longrightarrow> ok v \<Longrightarrow> get (AList.update k j (put v s)) = view v"
  by (simp add: get_update_other get_put)

end

end
