(* ===== verification/Json_Values.thy ===== *)
theory Json_Values
  imports Eve_Prelude
begin

text \<open>
  The values that cross workflow and step boundaries (\<open>shared/json.ts\<close>), structural equality
  (\<open>jsonValuesEqual\<close>) and the normaliser that admits a runtime payload to the JSON boundary
  (\<open>parseJsonValue\<close>, \<open>parseJsonObject\<close>).

  \<open>json\<close> is the type of a JavaScript value that has no identity that matters: primitives,
  arrays and plain objects. \<open>undefined\<close> is a value of its own, because an own key may hold it.
  A finite number is a rational, which identifies \<open>-0\<close> with \<open>0\<close> as \<open>===\<close> does. Characters are
  code units. The normaliser has to tell shared and cyclic objects apart, so it is modelled over an
  explicit heap of arrays and objects; its recursion depth is the fuel.
\<close>

section \<open>Values\<close>

datatype nonfinite = NaN | Infinity | NegInfinity

datatype json =
    JUndef
  | JNull
  | JBool bool
  | JNum rat
  | JNonFinite nonfinite
  | JStr string
  | JArr "json list"
  | JObj "(string \<times> json) list"

lemma size_json_member [termination_simp]:
  "(k, v) \<in> set ps \<Longrightarrow> size (v :: json) < Suc (size_list (size_prod (\<lambda>x. 0) size) ps)"
  by (induction ps) auto

lemma size_json_item [termination_simp]:
  "v \<in> set xs \<Longrightarrow> size (v :: json) < Suc (size_list size xs)"
  by (induction xs) auto

definition jget :: "json \<Rightarrow> string \<Rightarrow> json" where
  \<comment> \<open>Property read of an own key; \<open>undefined\<close> when it is absent.\<close>
  "jget j k = (case j of JObj ps \<Rightarrow> (case map_of ps k of Some v \<Rightarrow> v | None \<Rightarrow> JUndef) | _ \<Rightarrow> JUndef)"

definition jstr :: "json \<Rightarrow> string \<Rightarrow> string option" where
  "jstr j k = (case jget j k of JStr s \<Rightarrow> Some s | _ \<Rightarrow> None)"

lemma jget_JObj [simp]: "jget (JObj ps) k = (case map_of ps k of Some v \<Rightarrow> v | None \<Rightarrow> JUndef)"
  by (simp add: jget_def)

section \<open>Structural equality\<close>

text \<open>
  \<open>===\<close> on two occurrences of an array or object compares identity, which a tree of values does not
  have; \<open>json_eq_refl\<close> below shows that the shortcut it gives never changes the result on a value
  that is free of \<open>NaN\<close> and has distinct keys. Members are looked up by own key, so key order
  does not matter.
\<close>

fun strict_eq :: "json \<Rightarrow> json \<Rightarrow> bool" where
  "strict_eq JUndef JUndef = True"
| "strict_eq JNull JNull = True"
| "strict_eq (JBool a) (JBool b) = (a = b)"
| "strict_eq (JNum a) (JNum b) = (a = b)"
| "strict_eq (JNonFinite a) (JNonFinite b) = (a = b \<and> a \<noteq> NaN)"
| "strict_eq (JStr a) (JStr b) = (a = b)"
| "strict_eq _ _ = False"

fun json_values_equal :: "json \<Rightarrow> json \<Rightarrow> bool"
  and items_equal :: "json list \<Rightarrow> json list \<Rightarrow> bool"
  and members_equal :: "(string \<times> json) list \<Rightarrow> (string \<times> json) list \<Rightarrow> bool"
where
  "json_values_equal (JArr xs) (JArr ys) = (length xs = length ys \<and> items_equal xs ys)"
| "json_values_equal (JObj ps) (JObj qs) = (length ps = length qs \<and> members_equal ps qs)"
| "json_values_equal a b = strict_eq a b"
| "items_equal (x # xs) (y # ys) = (json_values_equal x y \<and> items_equal xs ys)"
| "items_equal _ _ = True"
| "members_equal [] qs = True"
| "members_equal ((k, v) # ps) qs =
     ((case map_of qs k of None \<Rightarrow> False | Some w \<Rightarrow> json_values_equal v w) \<and> members_equal ps qs)"

lemma members_equal_iff:
  "members_equal ps qs \<longleftrightarrow>
     (\<forall>(k, v) \<in> set ps. \<exists>w. map_of qs k = Some w \<and> json_values_equal v w)"
  by (induction ps) (auto split: option.splits)

lemma items_equal_iff:
  "length xs = length ys \<Longrightarrow> items_equal xs ys \<longleftrightarrow> list_all2 json_values_equal xs ys"
  by (induction xs ys rule: list_induct2) auto

subsection \<open>Well-formed values and what they denote\<close>

text \<open>A value that was read from JSON: no \<open>NaN\<close>, and every object has distinct keys.\<close>

fun wf_json :: "json \<Rightarrow> bool" where
  "wf_json (JArr xs) = (\<forall>x \<in> set xs. wf_json x)"
| "wf_json (JObj ps) = (distinct (map fst ps) \<and> (\<forall>(k, v) \<in> set ps. wf_json v))"
| "wf_json (JNonFinite n) = (n \<noteq> NaN)"
| "wf_json _ = True"

text \<open>The mathematical value: an object is a partial function from keys, without an order.\<close>

datatype meaning =
    MPrim json
  | MArr "meaning list"
  | MObj "string \<Rightarrow> meaning option"

fun meaning_of :: "json \<Rightarrow> meaning" where
  "meaning_of (JArr xs) = MArr (map meaning_of xs)"
| "meaning_of (JObj ps) = MObj (map_of (map (\<lambda>(k, v). (k, meaning_of v)) ps))"
| "meaning_of j = MPrim j"

lemma map_of_meaning [simp]:
  "map_of (map (\<lambda>(k, v). (k, meaning_of v)) ps) k = map_option meaning_of (map_of ps k)"
  by (simp add: map_of_map)

lemma map_eq_list_all2: "map f xs = map f ys \<longleftrightarrow> list_all2 (\<lambda>x y. f x = f y) xs ys"
  by (simp add: list.rel_eq [symmetric] list.rel_map)

lemma equal_primitive:
  "wf_json a \<Longrightarrow> \<forall>xs. a \<noteq> JArr xs \<Longrightarrow> \<forall>ps. a \<noteq> JObj ps \<Longrightarrow>
     json_values_equal a b \<longleftrightarrow> meaning_of a = meaning_of b"
  by (cases a; cases b) auto

lemma members_agree_iff:
  assumes fin: "finite (dom m)" "finite (dom n)"
  shows "card (dom m) = card (dom n) \<and>
      (\<forall>k v. m k = Some v \<longrightarrow> (\<exists>w. n k = Some w \<and> f v = f w)) \<longleftrightarrow>
    (\<forall>k. map_option f (m k) = map_option f (n k))" (is "?l \<longleftrightarrow> ?r")
proof
  assume l: ?l
  then have "dom m \<subseteq> dom n" by fastforce
  with l fin have dom: "dom m = dom n" by (intro card_subset_eq) auto
  show ?r
  proof
    fix k
    show "map_option f (m k) = map_option f (n k)"
    proof (cases "m k")
      case None
      with dom show ?thesis by (metis domIff)
    next
      case (Some v)
      with l obtain w where "n k = Some w" "f v = f w" by blast
      with Some show ?thesis by simp
    qed
  qed
next
  assume r: ?r
  have "m k = None \<longleftrightarrow> n k = None" for k
    using r [rule_format, of k] by (cases "m k"; cases "n k") auto
  then have "dom m = dom n" by (auto simp: dom_def)
  moreover have "\<exists>w. n k = Some w \<and> f v = f w" if "m k = Some v" for k v
    using r [rule_format, of k] that by (cases "n k") auto
  ultimately show ?l by auto
qed

lemma json_values_equal_meaning:
  "wf_json a \<Longrightarrow> wf_json b \<Longrightarrow> json_values_equal a b \<longleftrightarrow> meaning_of a = meaning_of b"
proof (induction a arbitrary: b)
  case (JArr xs)
  show ?case
  proof (cases b)
    case b: (JArr ys)
    have "list_all2 json_values_equal xs ys \<longleftrightarrow> list_all2 (\<lambda>x y. meaning_of x = meaning_of y) xs ys"
      using JArr.prems by (intro list.rel_cong refl JArr.IH) (auto simp: b)
    then show ?thesis
      by (cases "length xs = length ys")
        (auto simp: b items_equal_iff map_eq_list_all2 dest: list_all2_lengthD)
  qed auto
next
  case (JObj ps)
  show ?case
  proof (cases b)
    case b: (JObj qs)
    have dp: "distinct (map fst ps)" and dq: "distinct (map fst qs)"
      using JObj.prems by (auto simp: b)
    have IH: "json_values_equal v w \<longleftrightarrow> meaning_of v = meaning_of w"
      if "(k, v) \<in> set ps" and "(k', w) \<in> set qs" for k v k' w
      using JObj.IH [OF that(1), of v w] JObj.prems that by (auto simp: b)
    have cards: "length ps = card (dom (map_of ps))" "length qs = card (dom (map_of qs))"
      using distinct_card [OF dp] distinct_card [OF dq] by (simp_all add: dom_map_of_conv_image_fst)
    have "json_values_equal (JObj ps) b \<longleftrightarrow> length ps = length qs \<and>
        (\<forall>k v. map_of ps k = Some v \<longrightarrow> (\<exists>w. map_of qs k = Some w \<and> meaning_of v = meaning_of w))"
      using dp IH by (force simp: b members_equal_iff dest: map_of_SomeD)
    also have "\<dots> \<longleftrightarrow> (\<forall>k. map_option meaning_of (map_of ps k) = map_option meaning_of (map_of qs k))"
      unfolding cards by (rule members_agree_iff) (rule finite_dom_map_of)+
    also have "\<dots> \<longleftrightarrow> meaning_of (JObj ps) = meaning_of b"
      by (auto simp: b fun_eq_iff)
    finally show ?thesis .
  qed auto
qed (rule equal_primitive; simp)+

lemma json_eq_refl: "wf_json a \<Longrightarrow> json_values_equal a a"
  by (simp add: json_values_equal_meaning)

lemma json_eq_sym: "wf_json a \<Longrightarrow> wf_json b \<Longrightarrow> json_values_equal a b \<longleftrightarrow> json_values_equal b a"
  by (auto simp: json_values_equal_meaning)

lemma json_eq_trans:
  "wf_json a \<Longrightarrow> wf_json b \<Longrightarrow> wf_json c \<Longrightarrow>
     json_values_equal a b \<Longrightarrow> json_values_equal b c \<Longrightarrow> json_values_equal a c"
  by (simp add: json_values_equal_meaning)

end
