(* ===== verification/Json_Objects.thy ===== *)
theory Json_Objects
  imports Json_Values
begin

text \<open>
  What the code reads off and builds from an object value: \<open>isObject\<close> of \<open>shared/guards.ts\<close>, the \<open>in\<close>
  operator, object spread and \<open>Number.isInteger\<close>.
\<close>

section \<open>Members\<close>

fun nat_text :: "nat \<Rightarrow> string" where
  "nat_text n = (if n < 10 then [char_of (48 + n)] else nat_text (n div 10) @ [char_of (48 + n mod 10)])"

declare nat_text.simps [simp del]

definition own_members :: "json \<Rightarrow> (string \<times> json) list" where
  \<comment> \<open>What \<open>{ ...value }\<close> copies from an object or an array.\<close>
  "own_members j = (case j of JObj ps \<Rightarrow> ps | JArr xs \<Rightarrow> map (\<lambda>(i, x). (nat_text i, x)) (enumerate 0 xs) | _ \<Rightarrow> [])"

definition spread :: "json \<Rightarrow> (string \<times> json) list \<Rightarrow> json" where
  \<comment> \<open>\<open>{ ...value, k: v, ... }\<close>\<close>
  "spread j kvs = JObj (foldl (\<lambda>ps (k, v). AList.update k v ps) (own_members j) kvs)"

definition is_object :: "json \<Rightarrow> bool" where
  "is_object j = (case j of JObj _ \<Rightarrow> True | _ \<Rightarrow> False)"

definition has_member :: "string \<Rightarrow> json \<Rightarrow> bool" where
  "has_member k j = (case j of JObj ps \<Rightarrow> k \<in> set (map fst ps) | _ \<Rightarrow> False)"

definition whole :: "rat \<Rightarrow> bool" where
  "whole q \<longleftrightarrow> of_int \<lfloor>q\<rfloor> = q"

lemma jget_undef [simp]: "jget JUndef k = JUndef"
  by (simp add: jget_def)

lemma own_members_object [simp]: "own_members (JObj ps) = ps"
  by (simp add: own_members_def)

lemma jget_spread [simp]:
  "jget (spread j (kvs @ [(k, v)])) k' = (if k = k' then v else jget (spread j kvs) k')"
  by (simp add: spread_def update_conv')

lemma jget_spread_one [simp]:
  "jget (spread j [(k, v)]) k' = (if k = k' then v else jget (JObj (own_members j)) k')"
  using jget_spread [of j "[]" k v k'] by (simp add: spread_def)

end
