(* ===== verification/Json_Text.thy ===== *)
theory Json_Text
  imports Json_Values
begin

text \<open>
  \<open>JSON.stringify\<close> without indentation, and the whitespace operations of strings the status line
  of an agent handle is built with. The decimal text of a number is a parameter. A string is a list
  of code units up to 255, so the whitespace characters are the ones of that range.
\<close>

definition hex_digit :: "nat \<Rightarrow> char" where
  "hex_digit n = ''0123456789abcdef'' ! (n mod 16)"

definition quote_char :: "char \<Rightarrow> string" where
  "quote_char c =
     (if c = CHR 0x22 then [CHR 0x5C, CHR 0x22]
      else if c = CHR 0x5C then [CHR 0x5C, CHR 0x5C]
      else if c = CHR 0x08 then [CHR 0x5C, CHR ''b'']
      else if c = CHR 0x0C then [CHR 0x5C, CHR ''f'']
      else if c = CHR 0x0A then [CHR 0x5C, CHR ''n'']
      else if c = CHR 0x0D then [CHR 0x5C, CHR ''r'']
      else if c = CHR 0x09 then [CHR 0x5C, CHR ''t'']
      else if of_char c < (32 :: nat)
        then [CHR 0x5C] @ ''u00'' @ [hex_digit (of_char c div 16), hex_digit (of_char c)]
      else [c])"

definition quote_string :: "string \<Rightarrow> string" where
  "quote_string s = [CHR 0x22] @ concat (map quote_char s) @ [CHR 0x22]"

fun join_with :: "string \<Rightarrow> string list \<Rightarrow> string" where
  "join_with sep [] = []"
| "join_with sep [x] = x"
| "join_with sep (x # y # ys) = x @ sep @ join_with sep (y # ys)"

fun json_text :: "(rat \<Rightarrow> string) \<Rightarrow> json \<Rightarrow> string option" where
  "json_text num JUndef = None"
| "json_text num JNull = Some ''null''"
| "json_text num (JBool b) = Some (if b then ''true'' else ''false'')"
| "json_text num (JNum n) = Some (num n)"
| "json_text num (JNonFinite n) = Some ''null''"
| "json_text num (JStr s) = Some (quote_string s)"
| "json_text num (JArr xs) = Some (''['' @
     join_with '','' (map (\<lambda>x. case json_text num x of None \<Rightarrow> ''null'' | Some t \<Rightarrow> t) xs) @ '']'')"
| "json_text num (JObj ps) = Some (''{'' @
     join_with '','' (concat (map (\<lambda>(k, v). case json_text num v of
       None \<Rightarrow> [] | Some t \<Rightarrow> [quote_string k @ '':'' @ t]) ps)) @ ''}'')"

definition is_space :: "char \<Rightarrow> bool" where
  "is_space c \<longleftrightarrow> (of_char c :: nat) \<in> {9, 10, 11, 12, 13, 32, 160}"

lemma length_dropWhile_less [termination_simp]: "length (dropWhile P xs) < Suc (length xs)"
  by (simp add: length_dropWhile_le le_imp_less_Suc)

fun collapse_spaces :: "string \<Rightarrow> string" where
  \<comment> \<open>\<open>replaceAll(/\s+/g, " ")\<close>: one blank for each maximal run of whitespace.\<close>
  "collapse_spaces [] = []"
| "collapse_spaces (c # cs) =
     (if is_space c then CHR '' '' # collapse_spaces (dropWhile is_space cs)
      else c # collapse_spaces cs)"

definition lower :: "char \<Rightarrow> char" where
  \<comment> \<open>\<open>toLowerCase\<close> on code units below 256.\<close>
  "lower c = (let n = of_char c :: nat in
     if (65 \<le> n \<and> n \<le> 90) \<or> (192 \<le> n \<and> n \<le> 222 \<and> n \<noteq> 215) then char_of (n + 32) else c)"

definition lower_case :: "string \<Rightarrow> string" where
  "lower_case s = map lower s"

definition trim :: "string \<Rightarrow> string" where
  "trim s = rev (dropWhile is_space (rev (dropWhile is_space s)))"

lemma is_space_blank [simp]: "is_space CHR '' ''"
  by (simp add: is_space_def)

lemma set_trim: "set (trim s) \<subseteq> set s"
  by (auto simp: trim_def dest!: set_dropWhileD)

text \<open>No two adjacent blanks and no other whitespace remain.\<close>

fun single_spaced :: "string \<Rightarrow> bool" where
  "single_spaced (a # b # cs) =
     ((is_space a \<longrightarrow> a = CHR '' '' \<and> \<not> is_space b) \<and> single_spaced (b # cs))"
| "single_spaced [a] = (is_space a \<longrightarrow> a = CHR '' '')"
| "single_spaced [] = True"

lemma single_spaced_Cons:
  "single_spaced (a # s) \<longleftrightarrow>
     (is_space a \<longrightarrow> a = CHR '' '' \<and> (s = [] \<or> \<not> is_space (hd s))) \<and> single_spaced s"
  by (cases s) auto

lemma collapse_hd:
  "s \<noteq> [] \<Longrightarrow> \<not> is_space (hd s) \<Longrightarrow> collapse_spaces s \<noteq> [] \<and> \<not> is_space (hd (collapse_spaces s))"
  by (cases s) auto

lemma single_spaced_collapse: "single_spaced (collapse_spaces s)"
proof (induction s rule: collapse_spaces.induct)
  case (2 c cs)
  show ?case
  proof (cases "is_space c")
    case True
    show ?thesis
    proof (cases "dropWhile is_space cs = []")
      case True
      with \<open>is_space c\<close> show ?thesis by (simp del: dropWhile_eq_Nil_conv)
    next
      case False
      with collapse_hd [of "dropWhile is_space cs"] 2 \<open>is_space c\<close> show ?thesis
        by (simp add: single_spaced_Cons hd_dropWhile)
    qed
  next
    case False
    with 2 show ?thesis by (simp add: single_spaced_Cons)
  qed
qed simp

lemma single_spaced_appendD: "single_spaced (s @ t) \<Longrightarrow> single_spaced s \<and> single_spaced t"
proof (induction s)
  case (Cons a s)
  then show ?case by (cases s) (auto simp: single_spaced_Cons)
qed simp

lemma single_spaced_take: "single_spaced s \<Longrightarrow> single_spaced (take n s)"
  by (metis append_take_drop_id single_spaced_appendD)

lemma single_spaced_dropWhile: "single_spaced s \<Longrightarrow> single_spaced (dropWhile P s)"
  by (metis takeWhile_dropWhile_id single_spaced_appendD)

lemma trim_infix: "\<exists>u v. s = u @ trim s @ v"
proof -
  define t where "t = dropWhile is_space s"
  have "rev t = takeWhile is_space (rev t) @ dropWhile is_space (rev t)" by simp
  then have "t = trim s @ rev (takeWhile is_space (rev t))"
    by (metis rev_append rev_rev_ident t_def trim_def)
  moreover have "s = takeWhile is_space s @ t" by (simp add: t_def)
  ultimately show ?thesis by metis
qed

lemma single_spaced_trim: "single_spaced s \<Longrightarrow> single_spaced (trim s)"
  by (metis single_spaced_appendD trim_infix)

end
