(* ===== verification/Session_State.thy ===== *)
theory Session_State
  imports Json_Values
begin

text \<open>
  The session the harness threads through its steps (\<open>harness/types.ts\<close>) and the operations the
  state modules share: reading a key of the optional state map, writing one key with object spread,
  deleting one key and dropping an empty map. A state map holds \<open>unknown\<close> values, so its values
  are \<open>json\<close>; each component encodes and decodes its own slot.
\<close>

type_synonym state_map = "(string \<times> json) list"

record session_limits =
  max_input_tokens :: "rat option"
  max_output_tokens :: "rat option"
  max_token_cost_usd :: "rat option"

record stateful =
  state :: "state_map option"

record harness_session = stateful +
  session_id :: string
  continuation_token :: string
  history :: "json list"
  limits :: "session_limits option"
  session_rest :: json \<comment> \<open>agent, compaction, output schema, sandbox and the other carried fields\<close>

definition own_state :: "state_map option \<Rightarrow> state_map" where
  \<comment> \<open>\<open>{ ...state }\<close>: the own entries, none for \<open>undefined\<close>.\<close>
  "own_state s = (case s of None \<Rightarrow> [] | Some m \<Rightarrow> m)"

definition state_get :: "state_map option \<Rightarrow> string \<Rightarrow> json" where
  \<comment> \<open>\<open>state?.[key]\<close>\<close>
  "state_get s k = (case map_of (own_state s) k of None \<Rightarrow> JUndef | Some v \<Rightarrow> v)"

definition state_put :: "string \<Rightarrow> json \<Rightarrow> state_map option \<Rightarrow> state_map" where
  \<comment> \<open>\<open>{ ...state, [key]: value }\<close>\<close>
  "state_put k v s = AList.update k v (own_state s)"

definition state_or_undefined :: "state_map \<Rightarrow> state_map option" where
  \<comment> \<open>\<open>Object.keys(state).length > 0 ? state : undefined\<close>\<close>
  "state_or_undefined m = (if m = [] then None else Some m)"

lemma own_state_simps [simp]: "own_state None = []" "own_state (Some m) = m"
  by (simp_all add: own_state_def)

lemma own_state_or_undefined [simp]: "own_state (state_or_undefined m) = m"
  by (simp add: state_or_undefined_def)

lemma state_get_put [simp, slot_simps]:
  "state_get (Some (state_put k v s)) k' = (if k = k' then v else state_get s k')"
  by (simp add: state_get_def state_put_def update_conv')

lemma state_get_delete [simp, slot_simps]:
  "state_get (Some (AList.delete k m)) k' = (if k = k' then JUndef else state_get (Some m) k')"
  by (simp add: state_get_def delete_conv')

lemma state_get_or_undefined [simp, slot_simps]:
  "state_get (state_or_undefined m) k = state_get (Some m) k"
  by (simp add: state_get_def)

lemma state_get_own [simp]: "state_get (Some (own_state s)) k = state_get s k"
  by (simp add: state_get_def)

lemma state_get_cong:
  "map_of (own_state s) k = map_of (own_state t) k \<Longrightarrow> state_get s k = state_get t k"
  by (simp add: state_get_def)

section \<open>Schemas\<close>

text \<open>
  What the schema declarations of the source mean. A decoder reads a value and returns the typed
  result, or nothing when the schema rejects it. \<open>strictObject\<close> rejects a key outside its shape;
  an optional member may be absent or \<open>undefined\<close>.
\<close>

definition fields_only :: "string list \<Rightarrow> (string \<times> json) list \<Rightarrow> bool" where
  "fields_only ks ps \<longleftrightarrow> list_all (\<lambda>p. fst p \<in> set ks) ps"

definition req_field :: "(json \<Rightarrow> 'a option) \<Rightarrow> string \<Rightarrow> (string \<times> json) list \<Rightarrow> 'a option" where
  "req_field dec k ps = (case map_of ps k of None \<Rightarrow> dec JUndef | Some v \<Rightarrow> dec v)"

definition opt_field ::
  "(json \<Rightarrow> 'a option) \<Rightarrow> string \<Rightarrow> (string \<times> json) list \<Rightarrow> 'a option option" where
  "opt_field dec k ps = (case map_of ps k of
     None \<Rightarrow> Some None | Some JUndef \<Rightarrow> Some None | Some v \<Rightarrow> map_option Some (dec v))"

definition string_schema :: "json \<Rightarrow> string option" where
  "string_schema j = (case j of JStr s \<Rightarrow> Some s | _ \<Rightarrow> None)"

definition non_empty_string :: "json \<Rightarrow> string option" where
  "non_empty_string j = (case j of JStr s \<Rightarrow> if s = [] then None else Some s | _ \<Rightarrow> None)"

definition string_max :: "nat \<Rightarrow> json \<Rightarrow> string option" where
  "string_max n j = (case j of JStr s \<Rightarrow> if length s \<le> n then Some s else None | _ \<Rightarrow> None)"

definition url_schema :: "(string \<Rightarrow> bool) \<Rightarrow> json \<Rightarrow> string option" where
  \<comment> \<open>Which strings are URLs is the schema library's decision, a parameter.\<close>
  "url_schema u j = (case j of JStr s \<Rightarrow> if u s then Some s else None | _ \<Rightarrow> None)"

definition nonneg_number :: "json \<Rightarrow> rat option" where
  "nonneg_number j = (case j of JNum n \<Rightarrow> if 0 \<le> n then Some n else None | _ \<Rightarrow> None)"

fun array_schema :: "(json \<Rightarrow> 'a option) \<Rightarrow> json list \<Rightarrow> 'a list option" where
  "array_schema dec [] = Some []"
| "array_schema dec (x # xs) =
     (case dec x of None \<Rightarrow> None | Some y \<Rightarrow> map_option ((#) y) (array_schema dec xs))"

lemmas schema_defs = req_field_def opt_field_def string_schema_def non_empty_string_def
  string_max_def url_schema_def nonneg_number_def fields_only_def

lemma req_field_simps [simp]:
  "req_field dec k ((k, v) # ps) = dec v"
  "k \<noteq> k' \<Longrightarrow> req_field dec k ((k', v) # ps) = req_field dec k ps"
  by (simp_all add: req_field_def)

lemma opt_field_skip [simp]:
  "k \<noteq> k' \<Longrightarrow> opt_field dec k ((k', v) # ps) = opt_field dec k ps"
  by (simp add: opt_field_def)

lemma non_empty_string_JStr [simp]: "non_empty_string (JStr s) = (if s = [] then None else Some s)"
  by (simp add: non_empty_string_def)

lemma string_max_JStr [simp]: "string_max n (JStr s) = (if length s \<le> n then Some s else None)"
  by (simp add: string_max_def)

definition opt_json :: "string \<Rightarrow> ('a \<Rightarrow> json) \<Rightarrow> 'a option \<Rightarrow> (string \<times> json) list" where
  \<comment> \<open>An optional member as a literal writes it: no key when it is absent.\<close>
  "opt_json k f x = (case x of None \<Rightarrow> [] | Some y \<Rightarrow> [(k, f y)])"

lemma opt_json_simps [simp]: "opt_json k f None = []" "opt_json k f (Some y) = [(k, f y)]"
  by (simp_all add: opt_json_def)

lemma map_of_opt_json [simp]:
  "(m ++ map_of (opt_json k f x)) k' = (if k = k' \<and> x \<noteq> None then map_option f x else m k')"
  by (cases x) auto

lemma fields_only_simps [simp]:
  "fields_only ks []" "fields_only ks (p # ps) \<longleftrightarrow> fst p \<in> set ks \<and> fields_only ks ps"
  "fields_only ks (ps @ qs) \<longleftrightarrow> fields_only ks ps \<and> fields_only ks qs"
  "fields_only ks (opt_json k f x) \<longleftrightarrow> x = None \<or> k \<in> set ks"
  by (cases x; auto simp: fields_only_def)+

lemma req_field_append [simp]: "k \<noteq> k' \<Longrightarrow> req_field dec k (opt_json k' f x @ ps) = req_field dec k ps"
  by (cases x) simp_all

lemma opt_field_append [simp]: "k \<noteq> k' \<Longrightarrow> opt_field dec k (opt_json k' f x @ ps) = opt_field dec k ps"
  by (cases x) simp_all

lemma opt_field_hit [simp]: "v \<noteq> JUndef \<Longrightarrow> opt_field dec k ((k, v) # ps) = map_option Some (dec v)"
  by (cases v) (simp_all add: opt_field_def)

lemma opt_field_Nil [simp]: "opt_field dec k [] = Some None"
  by (simp add: opt_field_def)

lemma array_schema_map:
  "(\<And>x. x \<in> set xs \<Longrightarrow> dec (enc x) = Some x) \<Longrightarrow> array_schema dec (map enc xs) = Some xs"
  by (induction xs) auto

lemma array_schema_map_None:
  "x \<in> set xs \<Longrightarrow> dec (enc x) = None \<Longrightarrow> array_schema dec (map enc xs) = None"
  by (induction xs) (auto split: option.splits)

lemma array_schema_SomeD:
  "array_schema dec js = Some xs \<Longrightarrow> x \<in> set xs \<Longrightarrow> \<exists>j \<in> set js. dec j = Some x"
  by (induction js arbitrary: xs) (auto split: option.splits)

end
