(* ===== verification/Pending_Authorization.thy ===== *)
theory Pending_Authorization
  imports Json_Objects Json_Text Session_State
begin

text \<open>
  The authorization attempts a parked session waits for (the session-state part of
  \<open>harness/authorization.ts\<close>), what the model may see of them, and the matching of callbacks against them
  (\<open>execution/authorization-callback-match.ts\<close>). A challenge, a callback and a payload are stored and read with a
  cast, so they stay \<open>json\<close> and their members are read where the code reads them. Minting an attempt and its
  callback URL draw on the clock, on randomness and on the context container and are not modelled.
\<close>

section \<open>Challenges\<close>

definition pending_authorization_key :: string where
  "pending_authorization_key = ''eve.runtime.pendingAuthorization''"

definition challenge_key :: "json \<Rightarrow> string option" where
  \<comment> \<open>\<open>challenge.attemptId ?? challenge.name\<close>\<close>
  "challenge_key c = nullish (jstr c ''attemptId'') (jstr c ''name'')"

definition same_principal :: "json \<Rightarrow> json \<Rightarrow> bool" where
  "same_principal l r =
     (if l = JUndef \<or> r = JUndef then l = r
      else if jstr l ''type'' = Some ''app'' \<or> jstr r ''type'' = Some ''app'' then jstr l ''type'' = jstr r ''type''
      else jstr l ''id'' = jstr r ''id'' \<and> jstr l ''issuer'' = jstr r ''issuer'')"

definition same_scope :: "json \<Rightarrow> json \<Rightarrow> bool" where
  \<comment> \<open>The name and the principal the two filters below compare.\<close>
  "same_scope a b \<longleftrightarrow> jstr a ''name'' = jstr b ''name'' \<and> same_principal (jget a ''principal'') (jget b ''principal'')"

fun resolve_active_challenges :: "json list \<Rightarrow> json list" where
  \<comment> \<open>A challenge stays when no later one has its scope.\<close>
  "resolve_active_challenges [] = []"
| "resolve_active_challenges (c # cs) =
     (if list_ex (same_scope c) cs then resolve_active_challenges cs else c # resolve_active_challenges cs)"

definition get_pending_authorization :: "state_map option \<Rightarrow> json list option" where
  \<comment> \<open>The stored value is an object with the array \<open>challenges\<close>.\<close>
  "get_pending_authorization s = (case state_get s pending_authorization_key of
     JObj ps \<Rightarrow> Some (case jget (JObj ps) ''challenges'' of JArr cs \<Rightarrow> cs | _ \<Rightarrow> [])
   | JArr _ \<Rightarrow> Some []
   | _ \<Rightarrow> None)"

definition has_pending_authorization :: "state_map option \<Rightarrow> bool" where
  "has_pending_authorization s \<longleftrightarrow> get_pending_authorization s \<noteq> None"

definition pending_challenges :: "state_map option \<Rightarrow> json list" where
  \<comment> \<open>\<open>getPendingAuthorization(state)?.challenges ?? []\<close>\<close>
  "pending_challenges s = (case get_pending_authorization s of None \<Rightarrow> [] | Some cs \<Rightarrow> cs)"

definition superseded_challenges :: "state_map option \<Rightarrow> json list \<Rightarrow> json list" where
  "superseded_challenges s replacements = filter (\<lambda>c. list_ex (same_scope c) replacements) (pending_challenges s)"

definition authorization_json :: "json list \<Rightarrow> json" where
  "authorization_json cs = JObj [(''challenges'', JArr cs)]"

definition set_pending_authorization :: "json list \<Rightarrow> state_map option \<Rightarrow> state_map" where
  "set_pending_authorization cs s =
     (let active = resolve_active_challenges cs; superseded = superseded_challenges s active
      in state_put pending_authorization_key
           (authorization_json (filter (\<lambda>c. c \<notin> set superseded) (pending_challenges s) @ active)) s)"

definition drop_authorization :: "state_map option \<Rightarrow> state_map option" where
  "drop_authorization s = state_or_undefined (AList.delete pending_authorization_key (own_state s))"

definition clear_pending_authorization :: "string list option \<Rightarrow> state_map option \<Rightarrow> state_map option" where
  "clear_pending_authorization ids s =
     (if s = None \<or> state_get s pending_authorization_key = JUndef then s
      else case ids of
        None \<Rightarrow> drop_authorization s
      | Some is \<Rightarrow>
          (if is = [] then s
           else case get_pending_authorization s of
             None \<Rightarrow> drop_authorization s
           | Some cs \<Rightarrow>
               (let left = filter (\<lambda>c. challenge_key c \<notin> Some ` set is) cs
                in if left \<noteq> [] then Some (state_put pending_authorization_key (authorization_json left) s)
                   else drop_authorization s)))"

section \<open>What the model sees\<close>

definition authorization_brand :: string where
  "authorization_brand = ''__eveAuthorization''"

definition authorization_pending_brand :: string where
  "authorization_pending_brand = ''__eveAuthorizationPending''"

definition request_authorization :: "json list \<Rightarrow> json" where
  "request_authorization cs = JObj [(authorization_brand, JBool True), (''challenges'', JArr cs)]"

definition redact_challenge :: "json \<Rightarrow> json" where
  "redact_challenge c = JObj [(''attemptId'', jget c ''attemptId''), (''candidateId'', jget c ''candidateId''),
     (''name'', jget c ''name''), (''challenge'', jget c ''challenge''), (''hookUrl'', jget c ''hookUrl'')]"

definition signal_challenges :: "json \<Rightarrow> json list" where
  "signal_challenges s = (case jget s ''challenges'' of JArr cs \<Rightarrow> cs | _ \<Rightarrow> [])"

definition redact_signal_resume :: "json \<Rightarrow> json" where
  "redact_signal_resume s = request_authorization (map redact_challenge (signal_challenges s))"

definition is_authorization_signal :: "json \<Rightarrow> bool" where
  "is_authorization_signal v \<longleftrightarrow> jget v authorization_brand = JBool True"

definition is_authorization_pending_output :: "json \<Rightarrow> bool" where
  "is_authorization_pending_output v \<longleftrightarrow> jget v authorization_pending_brand = JBool True"

definition authorization_pending_json :: "json list \<Rightarrow> json" where
  "authorization_pending_json names = JObj [(authorization_pending_brand, JBool True), (''connections'', JArr names)]"

definition model_facing_output :: "json \<Rightarrow> json" where
  "model_facing_output s = authorization_pending_json (map (\<lambda>c. jget c ''name'') (signal_challenges s))"

definition is_pending_authorization_output :: "json \<Rightarrow> bool" where
  "is_pending_authorization_output v \<longleftrightarrow> is_authorization_pending_output v \<or> is_authorization_signal v"

definition authorization_pending_model_text :: "string list \<Rightarrow> string" where
  "authorization_pending_model_text names = (case names of
     [] \<Rightarrow> ''Authorization required. Waiting for the user to sign in.''
   | _ \<Rightarrow> ''Authorization required for '' @ join_with '', '' names @ ''. Waiting for the user to sign in.'')"

definition auth_hook_token :: "string \<Rightarrow> string" where
  "auth_hook_token session = session @ '':auth''"

section \<open>Interrupted tool calls\<close>

text \<open>
  \<open>harness/inline-tool-authorization.ts\<close>. The signal that a tool call stashed out of band is the parameter
  \<open>stash\<close>.
\<close>

definition read_authorization_signal :: "(json \<Rightarrow> json option) \<Rightarrow> json \<Rightarrow> json option" where
  "read_authorization_signal stash r = (case stash (jget r ''toolCallId'') of
     Some v \<Rightarrow> if is_authorization_signal v then Some v
       else if is_authorization_signal (jget r ''output'') then Some (jget r ''output'') else None
   | None \<Rightarrow> if is_authorization_signal (jget r ''output'') then Some (jget r ''output'') else None)"

definition is_inline_authorization_result :: "(json \<Rightarrow> json option) \<Rightarrow> json \<Rightarrow> bool" where
  "is_inline_authorization_result stash r \<longleftrightarrow>
     is_pending_authorization_output (jget r ''output'') \<or> read_authorization_signal stash r \<noteq> None"

definition part_is :: "string \<Rightarrow> json \<Rightarrow> bool" where
  "part_is t p \<longleftrightarrow> jget p ''type'' = JStr t"

definition keeps_part :: "string \<Rightarrow> json list \<Rightarrow> json \<Rightarrow> bool" where
  "keeps_part t ids p \<longleftrightarrow> \<not> part_is t p \<or> jget p ''toolCallId'' \<notin> set ids"

definition project_message :: "json list \<Rightarrow> json \<Rightarrow> json list" where
  "project_message ids m = (case jget m ''content'' of
     JArr ps \<Rightarrow>
       if jget m ''role'' = JStr ''assistant'' then
         (let interrupted = list_ex (\<lambda>p. part_is ''tool-call'' p \<and> jget p ''toolCallId'' \<in> set ids) ps;
              content = filter (keeps_part ''tool-call'' ids) ps
          in if content = [] \<or> interrupted \<and> \<not> list_ex (part_is ''tool-call'') content then []
             else [spread m [(''content'', JArr content)]])
       else if jget m ''role'' = JStr ''tool'' then
         (let content = filter (keeps_part ''tool-result'' ids) ps
          in if content = [] then [] else [spread m [(''content'', JArr content)]])
       else [m]
   | _ \<Rightarrow> [m])"

definition project_completed_sibling_calls :: "json list \<Rightarrow> json list \<Rightarrow> json list" where
  "project_completed_sibling_calls messages ids = concat (map (project_message ids) messages)"

definition resolve_inline_interrupt :: "(json \<Rightarrow> json option) \<Rightarrow> json list \<Rightarrow> json list option \<Rightarrow> (json list \<times> json list) option" where
  \<comment> \<open>The active challenges and the history that remains, or nothing without an interrupt.\<close>
  "resolve_inline_interrupt stash messages results =
     (let interrupted = filter (\<lambda>r. read_authorization_signal stash r \<noteq> None) (case results of None \<Rightarrow> [] | Some rs \<Rightarrow> rs)
      in if interrupted = [] then None
         else Some (resolve_active_challenges
             (concat (map (\<lambda>r. signal_challenges (the (read_authorization_signal stash r))) interrupted)),
           project_completed_sibling_calls messages (map (\<lambda>r. jget r ''toolCallId'') interrupted)))"

section \<open>Matching callbacks\<close>

record matched_callback =
  matched_key :: "string option" \<comment> \<open>the key the match is recorded under\<close>
  matched_authorization :: json
  matched_result :: json

definition callback_of :: "json \<Rightarrow> json" where
  "callback_of payload = jget payload ''authorizationCallback''"

definition is_legacy :: "json \<Rightarrow> bool" where
  "is_legacy callback \<longleftrightarrow> jget callback ''legacy'' = JBool True"

definition answers_challenge :: "json \<Rightarrow> json \<Rightarrow> bool" where
  "answers_challenge callback c \<longleftrightarrow> jget c ''name'' = jget callback ''connectionName'' \<and>
     (if is_legacy callback then jget c ''attemptId'' = JUndef else jget c ''attemptId'' = jget callback ''attemptId'')"

definition callback_result :: "json \<Rightarrow> json \<Rightarrow> json" where
  "callback_result callback c = JObj [(''attemptId'', jget c ''attemptId''), (''callback'', jget callback ''callback''),
     (''hookUrl'', jget c ''hookUrl''), (''instanceId'', jget c ''instanceId''), (''name'', jget c ''name''),
     (''principal'', jget c ''principal''), (''resume'', jget c ''resume'')]"

definition match_callback :: "json list \<Rightarrow> string list \<Rightarrow> json \<Rightarrow> matched_callback option" where
  \<comment> \<open>One callback, given the keys that are taken.\<close>
  "match_callback pending taken callback = (case find (answers_challenge callback) pending of
     None \<Rightarrow> None
   | Some c \<Rightarrow>
       (case challenge_key c of
          None \<Rightarrow> None
        | Some k \<Rightarrow>
            if jget c ''principal'' = JUndef \<and> \<not> is_legacy callback \<or> k \<in> set taken then None
            else Some \<lparr>matched_key = Some k, matched_authorization = jget c ''challenge'',
                   matched_result = callback_result callback c\<rparr>))"

fun match_callbacks_loop :: "json list \<Rightarrow> string list \<Rightarrow> json list \<Rightarrow> matched_callback list \<times> json list" where
  "match_callbacks_loop pending taken [] = ([], [])"
| "match_callbacks_loop pending taken (p # ps) =
     (if callback_of p = JUndef then (case match_callbacks_loop pending taken ps of (ms, rest) \<Rightarrow> (ms, p # rest))
      else case match_callback pending taken (callback_of p) of
        None \<Rightarrow> match_callbacks_loop pending taken ps
      | Some m \<Rightarrow> (case match_callbacks_loop pending (the (matched_key m) # taken) ps of (ms, rest) \<Rightarrow> (m # ms, rest)))"

definition match_authorization_callbacks :: "json list \<Rightarrow> json list \<Rightarrow> matched_callback list \<times> json list" where
  "match_authorization_callbacks pending payloads = match_callbacks_loop pending [] payloads"

definition result_key :: "matched_callback \<Rightarrow> string" where
  \<comment> \<open>\<open>result.attemptId ?? result.name\<close>\<close>
  "result_key m = the (challenge_key (matched_result m))"

definition take_callbacks :: "json list \<Rightarrow> state_map option \<Rightarrow> matched_callback list \<times> json list \<times> state_map option" where
  \<comment> \<open>What a turn step does with the payloads of a delivery.\<close>
  "take_callbacks payloads s = (case get_pending_authorization s of
     None \<Rightarrow> ([], payloads, s)
   | Some pending \<Rightarrow>
       (case match_authorization_callbacks pending payloads of (ms, rest) \<Rightarrow>
          (ms, rest, if ms = [] then s else clear_pending_authorization (Some (map result_key ms)) s)))"

section \<open>One attempt for each scope\<close>

datatype principal_scope = No_Principal | App_Principal | User_Principal "string option" "string option"

definition principal_scope :: "json \<Rightarrow> principal_scope" where
  "principal_scope p = (if p = JUndef then No_Principal
     else if jstr p ''type'' = Some ''app'' then App_Principal else User_Principal (jstr p ''id'') (jstr p ''issuer''))"

definition scope_of :: "json \<Rightarrow> string option \<times> principal_scope" where
  "scope_of c = (jstr c ''name'', principal_scope (jget c ''principal''))"

lemma same_scope_iff: "same_scope a b \<longleftrightarrow> scope_of a = scope_of b"
  by (auto simp: same_scope_def same_principal_def scope_of_def principal_scope_def)

lemma resolve_active_scopes: "map scope_of (resolve_active_challenges cs) = remdups (map scope_of cs)"
  by (induction cs) (auto simp: list_ex_iff same_scope_iff image_iff)

lemma resolve_active_subset: "set (resolve_active_challenges cs) \<subseteq> set cs"
  by (induction cs) auto

lemma pending_challenges_put [simp]:
  "pending_challenges (Some (state_put pending_authorization_key (authorization_json cs) s)) = cs"
  by (simp add: pending_challenges_def get_pending_authorization_def authorization_json_def)

lemma pending_challenges_drop [simp]: "pending_challenges (drop_authorization s) = []"
  by (simp add: drop_authorization_def pending_challenges_def get_pending_authorization_def)

lemma challenges_after_set:
  "pending_challenges (Some (set_pending_authorization cs s)) =
     filter (\<lambda>c. scope_of c \<notin> scope_of ` set cs) (pending_challenges s) @ resolve_active_challenges cs"
proof -
  have "scope_of ` set (resolve_active_challenges cs) = scope_of ` set cs"
    using arg_cong [OF resolve_active_scopes [of cs], of set] by simp
  then have "list_ex (same_scope c) (resolve_active_challenges cs) \<longleftrightarrow> scope_of c \<in> scope_of ` set cs" for c
    by (metis (mono_tags, lifting) Bex_set imageE image_eqI same_scope_iff)
  then show ?thesis
    by (auto simp: set_pending_authorization_def Let_def superseded_challenges_def intro!: filter_cong)
qed

lemma challenges_after_clear:
  "pending_challenges (clear_pending_authorization (Some ids) s) =
     filter (\<lambda>c. challenge_key c \<notin> Some ` set ids) (pending_challenges s)"
proof (cases "s = None \<or> state_get s pending_authorization_key = JUndef")
  case True
  then have "pending_challenges s = []"
    by (auto simp: pending_challenges_def get_pending_authorization_def state_get_def)
  with True show ?thesis by (auto simp: clear_pending_authorization_def)
next
  case False
  then show ?thesis
    by (cases "get_pending_authorization s")
      (auto simp: clear_pending_authorization_def Let_def pending_challenges_def [of s] filter_empty_conv)
qed

section \<open>One completion for each attempt raised\<close>

lemma match_callback_spec:
  "match_callback pending taken cb = Some m \<Longrightarrow>
     \<exists>c k. c \<in> set pending \<and> answers_challenge cb c \<and> challenge_key c = Some k \<and> k \<notin> set taken \<and>
       (jget c ''principal'' \<noteq> JUndef \<or> is_legacy cb) \<and> matched_key m = Some k \<and> matched_result m = callback_result cb c"
  by (auto simp: match_callback_def dest!: find_SomeD split: option.splits if_splits)

lemma result_key_matched: "matched_result m = callback_result cb c \<Longrightarrow> challenge_key c = Some k \<Longrightarrow> result_key m = k"
  by (simp add: result_key_def challenge_key_def callback_result_def jstr_def)

definition completes :: "json list \<Rightarrow> json list \<Rightarrow> matched_callback \<Rightarrow> bool" where
  \<comment> \<open>The match is the answer one of the payloads gives to one of the pending challenges.\<close>
  "completes pending ps m \<longleftrightarrow> (\<exists>c \<in> set pending. \<exists>p \<in> set ps. answers_challenge (callback_of p) c \<and>
     (jget c ''principal'' \<noteq> JUndef \<or> is_legacy (callback_of p)) \<and>
     matched_result m = callback_result (callback_of p) c \<and> challenge_key c = Some (result_key m))"

lemma completes_Cons: "completes pending ps m \<Longrightarrow> completes pending (p # ps) m"
  by (auto simp: completes_def)

lemma match_callback_completes:
  assumes "match_callback pending taken (callback_of p) = Some m"
  shows "completes pending (p # ps) m \<and> result_key m \<notin> set taken \<and> matched_key m = Some (result_key m)"
proof -
  from match_callback_spec [OF assms] obtain c k where m: "c \<in> set pending" "answers_challenge (callback_of p) c"
      "challenge_key c = Some k" "k \<notin> set taken" "jget c ''principal'' \<noteq> JUndef \<or> is_legacy (callback_of p)"
      "matched_key m = Some k" "matched_result m = callback_result (callback_of p) c"
    by blast
  then have "result_key m = k" by (blast intro: result_key_matched)
  with m show ?thesis by (auto simp: completes_def)
qed

lemma match_callbacks_loop_spec:
  assumes "match_callbacks_loop pending taken ps = (ms, rest)"
  shows "distinct (map result_key ms) \<and> result_key ` set ms \<inter> set taken = {} \<and>
    rest = filter (\<lambda>p. callback_of p = JUndef) ps \<and> (\<forall>m \<in> set ms. completes pending ps m)"
  using assms
proof (induction ps arbitrary: taken ms rest)
  case Nil
  then show ?case by simp
next
  case (Cons p ps)
  show ?case
  proof (cases "callback_of p = JUndef")
    case True
    obtain ms' rest' where r: "match_callbacks_loop pending taken ps = (ms', rest')" by fastforce
    with Cons.prems True Cons.IH [OF r] show ?thesis by (auto intro: completes_Cons)
  next
    case cb: False
    show ?thesis
    proof (cases "match_callback pending taken (callback_of p)")
      case None
      with cb Cons.prems have "match_callbacks_loop pending taken ps = (ms, rest)" by simp
      from Cons.IH [OF this] cb show ?thesis by (auto intro: completes_Cons)
    next
      case (Some m)
      note m = match_callback_completes [OF Some, of ps]
      obtain ms' rest' where r: "match_callbacks_loop pending (result_key m # taken) ps = (ms', rest')" by fastforce
      from Cons.prems cb Some m r have eqs: "ms = m # ms'" "rest = rest'" by auto
      from Cons.IH [OF r] m cb show ?thesis by (auto simp: eqs intro: completes_Cons)
    qed
  qed
qed

datatype authorization_op = Raise "json list" | Deliver_Payloads "json list" | Discard "string list option"

record authorization_run =
  auth_state :: "state_map option"
  raised_keys :: "string list"
  completed_keys :: "string list"

definition challenge_keys :: "json list \<Rightarrow> string list" where
  "challenge_keys cs = concat (map (\<lambda>c. option_list (challenge_key c)) cs)"

fun authorization_step :: "authorization_run \<Rightarrow> authorization_op \<Rightarrow> authorization_run" where
  "authorization_step r (Raise cs) = r\<lparr>auth_state := Some (set_pending_authorization cs (auth_state r)),
     raised_keys := raised_keys r @ challenge_keys cs\<rparr>"
| "authorization_step r (Deliver_Payloads ps) = (case take_callbacks ps (auth_state r) of (ms, rest, s) \<Rightarrow>
     r\<lparr>auth_state := s, completed_keys := completed_keys r @ map result_key ms\<rparr>)"
| "authorization_step r (Discard ids) = r\<lparr>auth_state := clear_pending_authorization ids (auth_state r)\<rparr>"

definition open_keys :: "state_map option \<Rightarrow> string set" where
  "open_keys s = set (challenge_keys (pending_challenges s))"

definition authorization_inv :: "authorization_run \<Rightarrow> bool" where
  "authorization_inv r \<longleftrightarrow> distinct (map scope_of (pending_challenges (auth_state r))) \<and>
     (\<forall>k. count_list (completed_keys r) k + (if k \<in> open_keys (auth_state r) then 1 else 0) \<le> count_list (raised_keys r) k)"

lemma set_challenge_keys: "k \<in> set (challenge_keys cs) \<longleftrightarrow> Some k \<in> challenge_key ` set cs"
  by (force simp: challenge_keys_def elim: option.set_cases)

lemma open_keys_iff: "k \<in> open_keys s \<longleftrightarrow> Some k \<in> challenge_key ` set (pending_challenges s)"
  by (simp add: open_keys_def set_challenge_keys)

lemma pending_challenges_None [simp]: "pending_challenges None = []"
  by (simp add: pending_challenges_def get_pending_authorization_def state_get_def)

lemma clear_all: "pending_challenges (clear_pending_authorization None s) = []"
proof (cases "s = None \<or> state_get s pending_authorization_key = JUndef")
  case True
  then show ?thesis
    by (auto simp: clear_pending_authorization_def pending_challenges_def get_pending_authorization_def state_get_def)
qed (auto simp: clear_pending_authorization_def)

lemma clear_keeps_order:
  "\<exists>P. pending_challenges (clear_pending_authorization ids s) = filter P (pending_challenges s)"
  by (cases ids) (auto simp: clear_all challenges_after_clear intro: exI [of _ "\<lambda>_. False"])

lemma distinct_scopes_filter: "distinct (map scope_of cs) \<Longrightarrow> distinct (map scope_of (filter P cs))"
  by (simp add: distinct_map_filter)

lemma take_callbacks_spec:
  assumes "take_callbacks ps s = (ms, rest, s')"
  shows "distinct (map result_key ms) \<and> rest = (if has_pending_authorization s then filter (\<lambda>p. callback_of p = JUndef) ps else ps) \<and>
    (\<forall>m \<in> set ms. completes (pending_challenges s) ps m) \<and>
    pending_challenges s' = filter (\<lambda>c. challenge_key c \<notin> Some ` result_key ` set ms) (pending_challenges s)"
proof (cases "get_pending_authorization s")
  case None
  with assms show ?thesis
    by (auto simp: take_callbacks_def has_pending_authorization_def pending_challenges_def)
next
  case (Some pending)
  obtain ms' rest' where m: "match_callbacks_loop pending [] ps = (ms', rest')" by fastforce
  note spec = match_callbacks_loop_spec [OF this]
  from Some have pc: "pending_challenges s = pending" by (simp add: pending_challenges_def)
  from assms Some m have "ms = ms'" "rest = rest'"
    and s': "s' = (if ms = [] then s else clear_pending_authorization (Some (map result_key ms)) s)"
    by (auto simp: take_callbacks_def match_authorization_callbacks_def)
  moreover have "pending_challenges s' = filter (\<lambda>c. challenge_key c \<notin> Some ` result_key ` set ms) pending"
    by (simp add: s' pc challenges_after_clear)
  ultimately show ?thesis
    using spec Some by (simp add: pc has_pending_authorization_def)
qed

lemma completes_key: "completes pending ps m \<Longrightarrow> Some (result_key m) \<in> challenge_key ` set pending"
  by (force simp: completes_def)

lemma scopes_after_set:
  assumes "distinct (map scope_of (pending_challenges s))"
  shows "distinct (map scope_of (pending_challenges (Some (set_pending_authorization cs s))))"
proof -
  have "scope_of ` set (resolve_active_challenges cs) = scope_of ` set cs"
    using arg_cong [OF resolve_active_scopes [of cs], of set] by simp
  moreover have "distinct (map scope_of (resolve_active_challenges cs))"
    by (simp only: resolve_active_scopes distinct_remdups)
  moreover have "set (map scope_of (filter (\<lambda>c. scope_of c \<notin> scope_of ` set cs) (pending_challenges s))) \<inter> scope_of ` set cs = {}"
    by (auto simp: image_iff)
  ultimately show ?thesis
    using distinct_scopes_filter [OF assms] by (simp add: challenges_after_set del: distinct_map)
qed

lemma open_after_set:
  "k \<in> open_keys (Some (set_pending_authorization cs s)) \<Longrightarrow> k \<in> open_keys s \<or> k \<in> set (challenge_keys cs)"
  using resolve_active_subset [of cs] by (auto simp: open_keys_iff challenges_after_set set_challenge_keys)

lemma open_after_clear: "k \<in> open_keys (clear_pending_authorization ids s) \<Longrightarrow> k \<in> open_keys s"
  using clear_keeps_order [of ids s] by (auto simp: open_keys_iff)

lemma distinct_count_list: "distinct xs \<Longrightarrow> count_list xs x \<le> 1"
  by (induction xs) auto

lemma open_after_take:
  assumes "take_callbacks ps s = (ms, rest, s')"
  shows "count_list (map result_key ms) k + (if k \<in> open_keys s' then 1 else 0) \<le> (if k \<in> open_keys s then 1 else 0)"
proof -
  note spec = take_callbacks_spec [OF assms]
  then have le: "count_list (map result_key ms) k \<le> 1"
    by (intro distinct_count_list) simp
  show ?thesis
  proof (cases "k \<in> result_key ` set ms")
    case True
    with spec have "k \<in> open_keys s" by (auto simp: open_keys_iff dest: completes_key)
    moreover from True spec have "k \<notin> open_keys s'" by (auto simp: open_keys_iff) (metis image_eqI)
    moreover note True
    ultimately show ?thesis using le by simp
  next
    case False
    then have "count_list (map result_key ms) k = 0" by (simp add: count_list_0_iff)
    with spec show ?thesis by (auto simp: open_keys_iff)
  qed
qed

lemma authorization_step_inv: "authorization_inv r \<Longrightarrow> authorization_inv (authorization_step r op)"
proof (cases op)
  case (Raise cs)
  assume inv: "authorization_inv r"
  have "count_list (completed_keys r) k + (if k \<in> open_keys (Some (set_pending_authorization cs (auth_state r))) then 1 else 0)
      \<le> count_list (raised_keys r @ challenge_keys cs) k" for k
  proof -
    have "0 < count_list (challenge_keys cs) k" if "k \<in> set (challenge_keys cs)"
      using that by (metis count_list_0_iff neq0_conv)
    moreover have "count_list (completed_keys r) k + (if k \<in> open_keys (auth_state r) then 1 else 0) \<le> count_list (raised_keys r) k"
      using inv by (simp add: authorization_inv_def)
    ultimately show ?thesis
      using open_after_set [of k cs "auth_state r"] by (auto split: if_splits)
  qed
  with inv show ?thesis by (simp add: authorization_inv_def Raise scopes_after_set del: count_list_append)
next
  case (Deliver_Payloads ps)
  assume inv: "authorization_inv r"
  obtain ms rest s' where t: "take_callbacks ps (auth_state r) = (ms, rest, s')" by (metis prod_cases3)
  have "count_list (completed_keys r @ map result_key ms) k + (if k \<in> open_keys s' then 1 else 0) \<le> count_list (raised_keys r) k" for k
  proof -
    have "count_list (completed_keys r) k + (if k \<in> open_keys (auth_state r) then 1 else 0) \<le> count_list (raised_keys r) k"
      using inv by (simp add: authorization_inv_def)
    with open_after_take [OF t, of k] show ?thesis by simp
  qed
  moreover have "distinct (map scope_of (pending_challenges s'))"
    using inv take_callbacks_spec [OF t] by (simp add: authorization_inv_def distinct_scopes_filter del: distinct_map)
  ultimately show ?thesis by (simp add: authorization_inv_def Deliver_Payloads t del: count_list_append)
next
  case (Discard ids)
  assume inv: "authorization_inv r"
  have "count_list (completed_keys r) k + (if k \<in> open_keys (clear_pending_authorization ids (auth_state r)) then 1 else 0)
      \<le> count_list (raised_keys r) k" for k
  proof -
    have "count_list (completed_keys r) k + (if k \<in> open_keys (auth_state r) then 1 else 0) \<le> count_list (raised_keys r) k"
      using inv by (simp add: authorization_inv_def)
    then show ?thesis using open_after_clear [of k ids "auth_state r"] by (auto split: if_splits)
  qed
  moreover have "distinct (map scope_of (pending_challenges (clear_pending_authorization ids (auth_state r))))"
    using inv clear_keeps_order [of ids "auth_state r"] by (auto simp: authorization_inv_def distinct_scopes_filter simp del: distinct_map)
  ultimately show ?thesis by (simp add: authorization_inv_def Discard)
qed

interpretation authorization_ops: transition_system authorization_step authorization_inv
  by unfold_locales (rule authorization_step_inv)

definition no_authorizations :: authorization_run where
  "no_authorizations = \<lparr>auth_state = None, raised_keys = [], completed_keys = []\<rparr>"

lemma no_authorizations_inv: "authorization_inv no_authorizations"
  by (simp add: authorization_inv_def no_authorizations_def open_keys_iff)


definition sign_in :: "string \<Rightarrow> json" where
  "sign_in attempt = JObj [(''attemptId'', JStr attempt), (''name'', JStr ''crm''), (''challenge'', JNull),
     (''hookUrl'', JStr ''u''), (''principal'', JObj [(''type'', JStr ''app'')])]"

definition callback_for :: "string \<Rightarrow> json" where
  "callback_for attempt = JObj [(''authorizationCallback'', JObj [(''attemptId'', JStr attempt), (''callback'', JNull),
     (''connectionName'', JStr ''crm'')])]"

lemma two_attempts_run:
  "auth_state (foldl authorization_step no_authorizations [Raise [sign_in ''a''], Raise [sign_in ''b'']]) =
     Some [(pending_authorization_key, authorization_json [sign_in ''b''])]"
  by code_simp


section \<open>The history after an interrupt\<close>

definition parts_of :: "string \<Rightarrow> string \<Rightarrow> json \<Rightarrow> json list" where
  "parts_of role t m = (case jget m ''content'' of
     JArr ps \<Rightarrow> if jget m ''role'' = JStr role then filter (part_is t) ps else [] | _ \<Rightarrow> [])"

lemma parts_of_spread:
  "jget m ''content'' = JArr ps \<Longrightarrow>
     parts_of role t (spread m [(''content'', JArr qs)]) = (if jget m ''role'' = JStr role then filter (part_is t) qs else [])"
proof -
  assume c: "jget m ''content'' = JArr ps"
  then have "\<exists>fs. m = JObj fs" by (cases m) (simp_all add: jget_def)
  then show ?thesis by (auto simp: parts_of_def)
qed

lemma keeps_part_of: "filter (part_is t) (filter (keeps_part t ids) ps) =
    filter (\<lambda>p. jget p ''toolCallId'' \<notin> set ids) (filter (part_is t) ps)"
  by (auto simp: keeps_part_def intro!: filter_cong)

lemma no_part_left: "\<not> list_ex (part_is t) xs \<Longrightarrow> filter (part_is t) xs = []"
  by (simp add: list_ex_iff filter_empty_conv)

lemma projected_message_parts:
  assumes "(role, t) = (''assistant'', ''tool-call'') \<or> (role, t) = (''tool'', ''tool-result'')"
  shows "concat (map (parts_of role t) (project_message ids m)) = filter (\<lambda>p. jget p ''toolCallId'' \<notin> set ids) (parts_of role t m)"
proof (cases "\<exists>ps. jget m ''content'' = JArr ps")
  case True
  then obtain ps where ps: "jget m ''content'' = JArr ps" by blast
  let ?kept = "filter (keeps_part t ids) ps"
  have kept: "filter (\<lambda>p. jget p ''toolCallId'' \<notin> set ids) (filter (part_is t) ps) = filter (part_is t) ?kept"
    by (rule keeps_part_of [symmetric])
  have gone: "filter (part_is t) ?kept = []" if "?kept = [] \<or> \<not> list_ex (part_is t) ?kept"
    using that no_part_left [of t ?kept] by (elim disjE) (simp_all del: filter_filter)
  show ?thesis
  proof (cases "jget m ''role'' = JStr role")
    case True
    then have mine: "parts_of role t m = filter (part_is t) ps"
      "parts_of role t (spread m [(''content'', JArr ?kept)]) = filter (part_is t) ?kept"
      by (simp add: parts_of_def ps, simp add: parts_of_spread [OF ps])
    have "project_message ids m = (if ?kept = [] then [] else [spread m [(''content'', JArr ?kept)]]) \<or>
        project_message ids m = [] \<and> \<not> list_ex (part_is t) ?kept"
      using assms True by (elim disjE) (simp_all add: project_message_def ps Let_def)
    then show ?thesis
      unfolding mine kept using gone mine(2) by (auto split: if_splits simp del: filter_filter)
  next
    case other: False
    have "project_message ids m = [] \<or> project_message ids m = [m] \<or>
        (\<exists>qs. project_message ids m = [spread m [(''content'', JArr qs)]])"
      by (simp add: project_message_def ps Let_def) blast
    with other show ?thesis by (elim disjE exE) (simp_all add: parts_of_spread [OF ps] parts_of_def [of _ _ m] ps)
  qed
next
  case False
  then have "project_message ids m = [m]" "parts_of role t m = []"
    by (auto simp: project_message_def parts_of_def split: json.split)
  then show ?thesis by simp
qed

text \<open>
  After an interrupt the history holds exactly the tool calls and the tool results that were not interrupted,
  in their order, so a call whose result was recorded keeps it.
\<close>

theorem siblings_stay_complete:
  assumes "(role, t) = (''assistant'', ''tool-call'') \<or> (role, t) = (''tool'', ''tool-result'')"
  shows "concat (map (parts_of role t) (project_completed_sibling_calls messages ids)) =
    filter (\<lambda>p. jget p ''toolCallId'' \<notin> set ids) (concat (map (parts_of role t) messages))"
proof (induction messages)
  case (Cons m ms)
  with projected_message_parts [OF assms, of ids m] show ?case
    by (simp add: project_completed_sibling_calls_def)
qed (simp add: project_completed_sibling_calls_def)

end
