(* ===== verification/Approval_Candidates.thy ===== *)
theory Approval_Candidates
  imports Json_Objects Json_Text Session_State
begin

text \<open>
  The durable record of who asked to approve what (\<open>harness/approval-candidates.ts\<close>): the active candidates,
  the audit history and the settlements, one slot of the session state. A responder and a challenge are stored
  as they came, so they are \<open>json\<close>; a time is a number, here a rational. The stored value is what
  \<open>writeApprovalState\<close> wrote or no object at all; each part is read with the default the source gives it.
  Record keys are own keys of the object. The candidate ids that the coordinator mints
  (\<open>approvalCandidateIdPrefix\<close> of \<open>harness/approval-delivery-coordinator.ts\<close>) are here too.
\<close>

section \<open>Records\<close>

record responder_identity =
  authenticator :: string
  issuer :: "string option"
  principal_id :: string
  principal_type :: string

datatype active_status = Pending_Candidate | Authorization_Required

datatype candidate_outcome = Allowed | Rejected | Failed | Timed_Out | Stale

datatype settlement_outcome = Settled_Allowed | Settled_Cancelled

record active_candidate =
  candidate_id :: string
  candidate_request :: string
  candidate_responder :: json
  candidate_status :: active_status
  created_at :: rat
  expires_at :: rat
  candidate_challenges :: "json list option"
  pending_emitted :: bool

record audit_record =
  audit_candidate :: string
  audit_request :: string
  audit_responder :: responder_identity
  audit_status :: candidate_outcome
  audit_created :: rat
  audit_completed :: rat
  audit_expires :: rat
  audit_reason :: "string option"
  audit_emitted :: bool
  audit_pending_emitted :: bool \<comment> \<open>carried over by the object rest\<close>

record settlement =
  settlement_actor :: responder_identity
  settlement_outcome :: settlement_outcome
  settlement_request :: string
  settled_at :: rat
  settlement_candidate :: "string option"
  settlement_emitted :: bool

record approval_state =
  active_candidates :: "(string \<times> active_candidate) list"
  next_sequence :: nat
  candidate_history :: "audit_record list"
  settlements :: "(string \<times> settlement) list"

datatype approval_error = Id_Collision string | Unknown_Candidate string

section \<open>The stored form\<close>

definition approval_state_key :: string where
  "approval_state_key = ''eve.runtime.hitl.approvalState''"

definition text_at :: "json \<Rightarrow> string \<Rightarrow> string" where
  "text_at j k = (case jstr j k of Some s \<Rightarrow> s | None \<Rightarrow> [])"

definition num_at :: "json \<Rightarrow> string \<Rightarrow> rat" where
  "num_at j k = (case jget j k of JNum n \<Rightarrow> n | _ \<Rightarrow> 0)"

definition project_responder :: "json \<Rightarrow> responder_identity" where
  "project_responder r = \<lparr>authenticator = text_at r ''authenticator'', issuer = jstr r ''issuer'',
     principal_id = text_at r ''principalId'', principal_type = text_at r ''principalType''\<rparr>"

definition same_responder :: "json \<Rightarrow> json \<Rightarrow> bool" where
  "same_responder a b \<longleftrightarrow> text_at a ''authenticator'' = text_at b ''authenticator'' \<and> jstr a ''issuer'' = jstr b ''issuer'' \<and>
     text_at a ''principalId'' = text_at b ''principalId'' \<and> text_at a ''principalType'' = text_at b ''principalType''"

definition identity_json :: "responder_identity \<Rightarrow> json" where
  "identity_json r = JObj ([(''authenticator'', JStr (authenticator r))] @ opt_json ''issuer'' JStr (issuer r) @
     [(''principalId'', JStr (principal_id r)), (''principalType'', JStr (principal_type r))])"

fun active_status_text :: "active_status \<Rightarrow> string" where
  "active_status_text Pending_Candidate = ''pending''"
| "active_status_text Authorization_Required = ''authorization-required''"

fun candidate_outcome_text :: "candidate_outcome \<Rightarrow> string" where
  "candidate_outcome_text Allowed = ''allowed''"
| "candidate_outcome_text Rejected = ''rejected''"
| "candidate_outcome_text Failed = ''failed''"
| "candidate_outcome_text Timed_Out = ''timed-out''"
| "candidate_outcome_text Stale = ''stale''"

fun settlement_outcome_text :: "settlement_outcome \<Rightarrow> string" where
  "settlement_outcome_text Settled_Allowed = ''allowed''"
| "settlement_outcome_text Settled_Cancelled = ''cancelled''"

definition flag_json :: "string \<Rightarrow> bool \<Rightarrow> (string \<times> json) list" where
  "flag_json k b = (if b then [(k, JBool True)] else [])"

definition active_json :: "active_candidate \<Rightarrow> json" where
  "active_json c = JObj ([(''candidateId'', JStr (candidate_id c)), (''createdAt'', JNum (created_at c)),
     (''expiresAt'', JNum (expires_at c)), (''requestId'', JStr (candidate_request c)),
     (''responder'', candidate_responder c), (''status'', JStr (active_status_text (candidate_status c)))] @
     opt_json ''authorizationChallenges'' JArr (candidate_challenges c) @ flag_json ''pendingEventEmitted'' (pending_emitted c))"

definition audit_json :: "audit_record \<Rightarrow> json" where
  "audit_json h = JObj ([(''candidateId'', JStr (audit_candidate h)), (''createdAt'', JNum (audit_created h)),
     (''expiresAt'', JNum (audit_expires h)), (''requestId'', JStr (audit_request h)), (''completedAt'', JNum (audit_completed h)),
     (''responder'', identity_json (audit_responder h)), (''status'', JStr (candidate_outcome_text (audit_status h)))] @
     opt_json ''reason'' JStr (audit_reason h) @ flag_json ''eventEmitted'' (audit_emitted h) @
     flag_json ''pendingEventEmitted'' (audit_pending_emitted h))"

definition settlement_json :: "settlement \<Rightarrow> json" where
  "settlement_json s = JObj ([(''actor'', identity_json (settlement_actor s)),
     (''outcome'', JStr (settlement_outcome_text (settlement_outcome s))), (''requestId'', JStr (settlement_request s)),
     (''settledAt'', JNum (settled_at s))] @ opt_json ''candidateId'' JStr (settlement_candidate s) @
     flag_json ''eventEmitted'' (settlement_emitted s))"

definition read_active :: "json \<Rightarrow> active_candidate" where
  "read_active j = \<lparr>candidate_id = text_at j ''candidateId'', candidate_request = text_at j ''requestId'',
     candidate_responder = jget j ''responder'',
     candidate_status = (if jstr j ''status'' = Some ''pending'' then Pending_Candidate else Authorization_Required),
     created_at = num_at j ''createdAt'', expires_at = num_at j ''expiresAt'',
     candidate_challenges = (case jget j ''authorizationChallenges'' of JArr cs \<Rightarrow> Some cs | _ \<Rightarrow> None),
     pending_emitted = (jget j ''pendingEventEmitted'' = JBool True)\<rparr>"

definition read_outcome :: "string \<Rightarrow> candidate_outcome" where
  "read_outcome s = (if s = ''allowed'' then Allowed else if s = ''rejected'' then Rejected
     else if s = ''timed-out'' then Timed_Out else if s = ''stale'' then Stale else Failed)"

definition read_audit :: "json \<Rightarrow> audit_record" where
  "read_audit j = \<lparr>audit_candidate = text_at j ''candidateId'', audit_request = text_at j ''requestId'',
     audit_responder = project_responder (jget j ''responder''), audit_status = read_outcome (text_at j ''status''),
     audit_created = num_at j ''createdAt'', audit_completed = num_at j ''completedAt'', audit_expires = num_at j ''expiresAt'',
     audit_reason = jstr j ''reason'', audit_emitted = (jget j ''eventEmitted'' = JBool True),
     audit_pending_emitted = (jget j ''pendingEventEmitted'' = JBool True)\<rparr>"

definition read_settlement :: "json \<Rightarrow> settlement" where
  "read_settlement j = \<lparr>settlement_actor = project_responder (jget j ''actor''),
     settlement_outcome = (if jstr j ''outcome'' = Some ''allowed'' then Settled_Allowed else Settled_Cancelled),
     settlement_request = text_at j ''requestId'', settled_at = num_at j ''settledAt'',
     settlement_candidate = jstr j ''candidateId'', settlement_emitted = (jget j ''eventEmitted'' = JBool True)\<rparr>"

definition max_safe_integer :: nat where
  "max_safe_integer = 9007199254740991"

definition items_of :: "json \<Rightarrow> json list" where
  "items_of j = (case j of JArr xs \<Rightarrow> xs | _ \<Rightarrow> [])"

definition derive_next_sequence :: "json \<Rightarrow> nat" where
  "derive_next_sequence v = length (own_members (jget v ''activeCandidates'')) + length (items_of (jget v ''candidateHistory''))"

definition read_sequence :: "json \<Rightarrow> nat" where
  "read_sequence v = (case jget v ''nextCandidateSequence'' of
     JNum n \<Rightarrow> if whole n \<and> 0 \<le> n \<and> n \<le> of_nat max_safe_integer then nat \<lfloor>n\<rfloor> else derive_next_sequence v
   | _ \<Rightarrow> derive_next_sequence v)"

definition no_approvals :: approval_state where
  "no_approvals = \<lparr>active_candidates = [], next_sequence = 0, candidate_history = [], settlements = []\<rparr>"

definition read_approval_state :: "state_map option \<Rightarrow> approval_state" where
  "read_approval_state s = (let v = state_get s approval_state_key in
     if (case v of JObj _ \<Rightarrow> True | JArr _ \<Rightarrow> True | _ \<Rightarrow> False) then
       \<lparr>active_candidates = map (\<lambda>(k, c). (k, read_active c)) (own_members (jget v ''activeCandidates'')),
        next_sequence = read_sequence v,
        candidate_history = map read_audit (items_of (jget v ''candidateHistory'')),
        settlements = map (\<lambda>(k, c). (k, read_settlement c)) (own_members (jget v ''settlements''))\<rparr>
     else no_approvals)"

definition approval_json :: "approval_state \<Rightarrow> json" where
  "approval_json a = JObj [
     (''activeCandidates'', JObj (map (\<lambda>(k, c). (k, active_json c)) (active_candidates a))),
     (''candidateHistory'', JArr (map audit_json (candidate_history a))),
     (''nextCandidateSequence'', JNum (of_nat (next_sequence a))),
     (''settlements'', JObj (map (\<lambda>(k, s). (k, settlement_json s)) (settlements a)))]"

definition write_approval_state :: "state_map option \<Rightarrow> approval_state \<Rightarrow> state_map option" where
  "write_approval_state s a = Some (state_put approval_state_key (approval_json a) s)"

section \<open>Operations\<close>

definition to_audit_record :: "active_candidate \<Rightarrow> rat \<Rightarrow> string option \<Rightarrow> candidate_outcome \<Rightarrow> audit_record" where
  "to_audit_record c completed reason status = \<lparr>audit_candidate = candidate_id c, audit_request = candidate_request c,
     audit_responder = project_responder (candidate_responder c), audit_status = status, audit_created = created_at c,
     audit_completed = completed, audit_expires = expires_at c, audit_reason = reason, audit_emitted = False,
     audit_pending_emitted = pending_emitted c\<rparr>"

definition commit :: "(approval_state \<Rightarrow> approval_state option) \<Rightarrow> state_map option \<Rightarrow> state_map option" where
  \<comment> \<open>Read, change and write back; without a change the state is returned as it is.\<close>
  "commit f s = (case f (read_approval_state s) of None \<Rightarrow> s | Some a \<Rightarrow> write_approval_state s a)"

definition update_active :: "string \<Rightarrow> active_candidate \<Rightarrow> approval_state \<Rightarrow> approval_state" where
  "update_active i c a = a\<lparr>active_candidates := AList.update i c (active_candidates a)\<rparr>"

definition mark_pending_emitted :: "string \<Rightarrow> state_map option \<Rightarrow> state_map option" where
  "mark_pending_emitted i = commit (\<lambda>a. case map_of (active_candidates a) i of
     None \<Rightarrow> None
   | Some c \<Rightarrow> if pending_emitted c then None else Some (update_active i (c\<lparr>pending_emitted := True\<rparr>) a))"

definition unmarked_entry :: "string \<Rightarrow> audit_record \<Rightarrow> bool" where
  "unmarked_entry i h \<longleftrightarrow> audit_candidate h = i \<and> \<not> audit_emitted h"

definition mark_history_emitted :: "string \<Rightarrow> state_map option \<Rightarrow> state_map option" where
  "mark_history_emitted i = commit (\<lambda>a.
     if list_ex (unmarked_entry i) (candidate_history a)
     then Some (a\<lparr>candidate_history := map (\<lambda>h. if unmarked_entry i h then h\<lparr>audit_emitted := True\<rparr> else h) (candidate_history a)\<rparr>)
     else None)"

definition mark_settlement_emitted :: "string \<Rightarrow> state_map option \<Rightarrow> state_map option" where
  "mark_settlement_emitted r = commit (\<lambda>a. case map_of (settlements a) r of
     None \<Rightarrow> None
   | Some x \<Rightarrow> if settlement_emitted x then None
       else Some (a\<lparr>settlements := AList.update r (x\<lparr>settlement_emitted := True\<rparr>) (settlements a)\<rparr>))"

definition mark_authorization_required :: "json list \<Rightarrow> string \<Rightarrow> rat option \<Rightarrow> state_map option \<Rightarrow> state_map option" where
  "mark_authorization_required challenges i expires = commit (\<lambda>a. case map_of (active_candidates a) i of
     None \<Rightarrow> None
   | Some c \<Rightarrow> Some (update_active i (c\<lparr>candidate_challenges := Some challenges,
       expires_at := (case expires of None \<Rightarrow> expires_at c | Some t \<Rightarrow> t), candidate_status := Authorization_Required\<rparr>) a))"

definition finish_approval_candidate ::
  "string \<Rightarrow> rat \<Rightarrow> string option \<Rightarrow> candidate_outcome \<Rightarrow> state_map option \<Rightarrow> state_map option" where
  "finish_approval_candidate i completed reason status = commit (\<lambda>a. case map_of (active_candidates a) i of
     None \<Rightarrow> None
   | Some c \<Rightarrow> Some (a\<lparr>active_candidates := AList.delete i (active_candidates a),
       candidate_history := candidate_history a @ [to_audit_record c completed reason status]\<rparr>))"

fun expire_each :: "rat \<Rightarrow> active_candidate list \<Rightarrow> state_map option \<Rightarrow> state_map option" where
  "expire_each now [] s = s"
| "expire_each now (c # cs) s = expire_each now cs
     (if expires_at c > now then s else finish_approval_candidate (candidate_id c) now None Timed_Out s)"

definition expire_approval_candidates :: "rat \<Rightarrow> state_map option \<Rightarrow> state_map option" where
  "expire_approval_candidates now s = expire_each now (map snd (active_candidates (read_approval_state s))) s"

fun base36 :: "nat \<Rightarrow> string" where
  \<comment> \<open>\<open>toString(36)\<close> of a natural number\<close>
  "base36 n = (if n < 36 then [''0123456789abcdefghijklmnopqrstuvwxyz'' ! n]
     else base36 (n div 36) @ [''0123456789abcdefghijklmnopqrstuvwxyz'' ! (n mod 36)])"

declare base36.simps [simp del]

definition id_taken :: "string \<Rightarrow> approval_state \<Rightarrow> bool" where
  "id_taken i a \<longleftrightarrow> map_of (active_candidates a) i \<noteq> None \<or> list_ex (\<lambda>h. audit_candidate h = i) (candidate_history a)"

definition create_approval_candidate ::
  "string \<Rightarrow> rat \<Rightarrow> rat \<Rightarrow> string \<Rightarrow> json \<Rightarrow> state_map option \<Rightarrow> approval_error + bool \<times> state_map option" where
  "create_approval_candidate pref created expires r responder s =
     (let s' = expire_approval_candidates created s; a = read_approval_state s' in
      if map_of (settlements a) r \<noteq> None then Inr (False, s')
      else if list_ex (\<lambda>(_, c). candidate_request c = r \<and> same_responder (candidate_responder c) responder) (active_candidates a)
      then Inr (False, s')
      else
       (let i = (if id_taken pref a then pref @ ''.'' @ base36 (next_sequence a) else pref) in
        if id_taken i a then Inl (Id_Collision i)
        else Inr (True, write_approval_state s' ((update_active i \<lparr>candidate_id = i, candidate_request = r,
            candidate_responder = responder, candidate_status = Pending_Candidate, created_at = created, expires_at = expires,
            candidate_challenges = None, pending_emitted = False\<rparr> a)\<lparr>next_sequence := next_sequence a + 1\<rparr>))))"

definition settle :: "responder_identity \<Rightarrow> string option \<Rightarrow> settlement_outcome \<Rightarrow> string \<Rightarrow> rat \<Rightarrow> approval_state \<Rightarrow> approval_state option" where
  "settle actor chosen outcome r time a =
     (if map_of (settlements a) r \<noteq> None then None
      else Some (a\<lparr>
        active_candidates := entries_map (map (\<lambda>c. (candidate_id c, c))
          (filter (\<lambda>c. candidate_request c \<noteq> r) (map snd (active_candidates a)))),
        candidate_history := candidate_history a @ map (\<lambda>c. to_audit_record c time None
            (if Some (candidate_id c) = chosen then Allowed else Stale))
          (filter (\<lambda>c. candidate_request c = r) (map snd (active_candidates a))),
        settlements := AList.update r \<lparr>settlement_actor = actor, settlement_outcome = outcome, settlement_request = r,
          settled_at = time, settlement_candidate = chosen, settlement_emitted = False\<rparr> (settlements a)\<rparr>))"

definition settle_request ::
  "responder_identity \<Rightarrow> string option \<Rightarrow> settlement_outcome \<Rightarrow> string \<Rightarrow> rat \<Rightarrow> state_map option \<Rightarrow> bool \<times> state_map option" where
  "settle_request actor chosen outcome r time s =
     (settle actor chosen outcome r time (read_approval_state s) \<noteq> None, commit (settle actor chosen outcome r time) s)"

definition settle_allowed_candidate :: "string \<Rightarrow> rat \<Rightarrow> state_map option \<Rightarrow> approval_error + bool \<times> state_map option" where
  "settle_allowed_candidate i time s =
     (let s' = expire_approval_candidates time s; a = read_approval_state s' in
      case map_of (active_candidates a) i of
        Some c \<Rightarrow> Inr (settle_request (project_responder (candidate_responder c)) (Some (candidate_id c)) Settled_Allowed
          (candidate_request c) time s')
      | None \<Rightarrow> (case find (\<lambda>h. audit_candidate h = i) (candidate_history a) of
          Some h \<Rightarrow> if map_of (settlements a) (audit_request h) \<noteq> None then Inr (False, s') else Inl (Unknown_Candidate i)
        | None \<Rightarrow> Inl (Unknown_Candidate i)))"

definition settle_direct_response :: "json \<Rightarrow> settlement_outcome \<Rightarrow> string \<Rightarrow> rat \<Rightarrow> state_map option \<Rightarrow> bool \<times> state_map option" where
  "settle_direct_response actor outcome r time s =
     settle_request (project_responder actor) None outcome r time (expire_approval_candidates time s)"

definition get_active_candidate :: "state_map option \<Rightarrow> string \<Rightarrow> active_candidate option" where
  "get_active_candidate s i = map_of (active_candidates (read_approval_state s)) i"

section \<open>Candidate ids\<close>

definition encode_id_part :: "string \<Rightarrow> string" where
  "encode_id_part s = join_with ''-'' (map (\<lambda>c. base36 (of_char c)) s)"

definition approval_candidate_id_prefix :: "string \<Rightarrow> json \<Rightarrow> string" where
  "approval_candidate_id_prefix r responder =
     encode_id_part r @ ''.'' @ encode_id_part (join_with '':'' [text_at responder ''authenticator'',
       (case jstr responder ''issuer'' of Some i \<Rightarrow> i | None \<Rightarrow> []), text_at responder ''principalType'', text_at responder ''principalId''])"

section \<open>The slot\<close>

lemma text_at_simps [simp]:
  "text_at (JObj ((k, v) # ps)) k' = (if k = k' then (case v of JStr s \<Rightarrow> s | _ \<Rightarrow> []) else text_at (JObj ps) k')"
  by (auto simp: text_at_def jstr_def split: json.split)

lemma project_identity_json [simp]: "project_responder (identity_json r) = r"
  by (cases "issuer r") (simp_all add: project_responder_def identity_json_def jstr_def text_at_def)

lemma same_responder_iff: "same_responder a b \<longleftrightarrow> project_responder a = project_responder b"
  by (auto simp: same_responder_def project_responder_def)

lemma read_active_json [simp]: "read_active (active_json c) = c"
  by (cases c; cases "candidate_challenges c"; cases "candidate_status c")
    (auto simp: read_active_def active_json_def jstr_def num_at_def flag_json_def)

lemma read_outcome_text [simp]: "read_outcome (candidate_outcome_text x) = x"
  by (cases x) (simp_all add: read_outcome_def)

lemma read_audit_json [simp]: "read_audit (audit_json h) = h"
  by (cases h; cases "audit_reason h") (auto simp: read_audit_def audit_json_def jstr_def num_at_def flag_json_def)

lemma read_settlement_json [simp]: "read_settlement (settlement_json s) = s"
  by (cases s; cases "settlement_candidate s"; cases "settlement_outcome s")
    (auto simp: read_settlement_def settlement_json_def jstr_def num_at_def flag_json_def)

definition stored_sequence :: "approval_state \<Rightarrow> nat" where
  \<comment> \<open>The sequence a later read returns.\<close>
  "stored_sequence a = (if next_sequence a \<le> max_safe_integer then next_sequence a
     else length (active_candidates a) + length (candidate_history a))"

lemma whole_of_nat [simp]: "whole (of_nat n)"
  by (simp add: whole_def)

lemma approval_read_written [simp]:
  "read_approval_state (write_approval_state s a) = a\<lparr>next_sequence := stored_sequence a\<rparr>"
proof -
  have 1: "state_get (write_approval_state s a) approval_state_key = approval_json a"
    by (simp add: write_approval_state_def)
  have 2: "read_sequence (approval_json a) = stored_sequence a"
    by (simp add: read_sequence_def approval_json_def stored_sequence_def derive_next_sequence_def items_of_def)
  have 3: "(case approval_json a of JObj _ \<Rightarrow> True | JArr _ \<Rightarrow> True | _ \<Rightarrow> False) = True" by (simp add: approval_json_def)
  have 4: "own_members (jget (approval_json a) ''activeCandidates'') = map (\<lambda>(k, c). (k, active_json c)) (active_candidates a)"
    "items_of (jget (approval_json a) ''candidateHistory'') = map audit_json (candidate_history a)"
    "own_members (jget (approval_json a) ''settlements'') = map (\<lambda>(k, s). (k, settlement_json s)) (settlements a)"
    by (simp_all add: approval_json_def items_of_def)
  show ?thesis
    unfolding read_approval_state_def Let_def 1 2 3 4 if_True by (cases a) (simp add: comp_def split_def)
qed

interpretation approval_slot:
  state_slot approval_state_key "\<lambda>a m. own_state (write_approval_state (Some m) a)"
    "\<lambda>m. read_approval_state (Some m)" "\<lambda>a. a" "\<lambda>a. next_sequence a \<le> max_safe_integer"
proof unfold_locales
  fix s t :: state_map
  assume "map_of s approval_state_key = map_of t approval_state_key"
  then have "state_get (Some s) approval_state_key = state_get (Some t) approval_state_key"
    by (intro state_get_cong) simp
  then show "read_approval_state (Some s) = read_approval_state (Some t)"
    by (simp add: read_approval_state_def)
next
  show "read_approval_state (Some (own_state (write_approval_state (Some s) v))) = v"
    if "next_sequence v \<le> max_safe_integer" for v s
    using that approval_read_written [of "Some s" v] by (simp add: write_approval_state_def stored_sequence_def)
next
  show "map_of (own_state (write_approval_state (Some m) v)) k = map_of m k" if "k \<noteq> approval_state_key" for k v m
    using that by (simp add: write_approval_state_def state_put_def update_conv')
qed

section \<open>The invariant\<close>

text \<open>
  A candidate id names one candidate, active or finished. An active candidate competes for a request that is
  not settled, and each responder has one active candidate for a request. A history entry is \<open>Allowed\<close> exactly
  when the settlement of its request names it, and that settlement carries its responder.
\<close>

definition active_keyed :: "approval_state \<Rightarrow> bool" where
  "active_keyed a \<longleftrightarrow> distinct (map fst (active_candidates a)) \<and>
     (\<forall>k c. map_of (active_candidates a) k = Some c \<longrightarrow> candidate_id c = k)"

definition ids_unique :: "approval_state \<Rightarrow> bool" where
  "ids_unique a \<longleftrightarrow> distinct (map audit_candidate (candidate_history a)) \<and>
     (\<forall>h \<in> set (candidate_history a). map_of (active_candidates a) (audit_candidate h) = None)"

definition active_open :: "approval_state \<Rightarrow> bool" where
  "active_open a \<longleftrightarrow> (\<forall>k c. map_of (active_candidates a) k = Some c \<longrightarrow> map_of (settlements a) (candidate_request c) = None)"

definition one_per_responder :: "approval_state \<Rightarrow> bool" where
  "one_per_responder a \<longleftrightarrow> (\<forall>k c k' c'. map_of (active_candidates a) k = Some c \<longrightarrow> map_of (active_candidates a) k' = Some c' \<longrightarrow>
     candidate_request c = candidate_request c' \<longrightarrow> same_responder (candidate_responder c) (candidate_responder c') \<longrightarrow> k = k')"

definition allowed_settled :: "approval_state \<Rightarrow> bool" where
  "allowed_settled a \<longleftrightarrow> (\<forall>h \<in> set (candidate_history a). audit_status h = Allowed \<longrightarrow>
     (\<exists>x. map_of (settlements a) (audit_request h) = Some x \<and> settlement_candidate x = Some (audit_candidate h)))"

definition settlements_distinct :: "approval_state \<Rightarrow> bool" where
  "settlements_distinct a \<longleftrightarrow> distinct (map fst (settlements a))"

definition settled_allowed :: "approval_state \<Rightarrow> bool" where
  "settled_allowed a \<longleftrightarrow> (\<forall>r x. map_of (settlements a) r = Some x \<longrightarrow> settlement_request x = r \<and>
     (\<forall>i. settlement_candidate x = Some i \<longrightarrow> settlement_outcome x = Settled_Allowed \<and>
       (\<exists>h \<in> set (candidate_history a). audit_candidate h = i \<and> audit_request h = r \<and> audit_status h = Allowed \<and>
          audit_responder h = settlement_actor x)))"

definition approval_inv :: "approval_state \<Rightarrow> bool" where
  "approval_inv a \<longleftrightarrow> active_keyed a \<and> ids_unique a \<and> active_open a \<and> one_per_responder a \<and> allowed_settled a \<and> settled_allowed a \<and>
     settlements_distinct a"

lemmas approval_inv_defs = approval_inv_def active_keyed_def ids_unique_def active_open_def one_per_responder_def
  allowed_settled_def settled_allowed_def

lemma settlements_distinct_simps [simp]:
  "settlements_distinct (a\<lparr>next_sequence := n\<rparr>) = settlements_distinct a"
  "settlements_distinct (a\<lparr>candidate_history := hs\<rparr>) = settlements_distinct a"
  "settlements_distinct (a\<lparr>active_candidates := cs\<rparr>) = settlements_distinct a"
  "settlements_distinct (a\<lparr>active_candidates := cs, candidate_history := hs\<rparr>) = settlements_distinct a"
  "settlements_distinct a \<Longrightarrow> settlements_distinct (a\<lparr>settlements := AList.update r x (settlements a)\<rparr>)"
  "settlements_distinct (update_active i c a) = settlements_distinct a"
  by (simp_all add: settlements_distinct_def distinct_update update_active_def)

lemma approval_inv_sequence [simp]: "approval_inv (a\<lparr>next_sequence := n\<rparr>) = approval_inv a"
  by (simp add: approval_inv_defs)

lemma approval_invD:
  assumes "approval_inv a"
  shows "distinct (map fst (active_candidates a))"
    "map_of (active_candidates a) k = Some c \<Longrightarrow> candidate_id c = k"
    "h \<in> set (candidate_history a) \<Longrightarrow> map_of (active_candidates a) (audit_candidate h) = None"
    "map_of (active_candidates a) k = Some c \<Longrightarrow> map_of (settlements a) (candidate_request c) = None"
  using assms by (auto simp: approval_inv_defs)

lemma read_commit:
  "read_approval_state (commit f s) = (case f (read_approval_state s) of
     None \<Rightarrow> read_approval_state s | Some a \<Rightarrow> a\<lparr>next_sequence := stored_sequence a\<rparr>)"
  by (simp add: commit_def split: option.split)

lemma commit_inv:
  assumes "approval_inv (read_approval_state s)"
    and "\<And>a'. f (read_approval_state s) = Some a' \<Longrightarrow> approval_inv a'"
  shows "approval_inv (read_approval_state (commit f s))"
  using assms by (simp add: read_commit split: option.split)

lemma update_active_simps [simp]:
  "map_of (active_candidates (update_active i c a)) = (map_of (active_candidates a))(i \<mapsto> c)"
  "candidate_history (update_active i c a) = candidate_history a"
  "settlements (update_active i c a) = settlements a"
  "next_sequence (update_active i c a) = next_sequence a"
  by (auto simp: update_active_def update_conv')

lemma distinct_update_active:
  "distinct (map fst (active_candidates a)) \<Longrightarrow> distinct (map fst (active_candidates (update_active i c a)))"
  by (simp add: update_active_def distinct_update)

text \<open>
  The four laws about active candidates need only that every active candidate of the new state was there before,
  under its key and with its id, request and responder.
\<close>

definition active_within :: "approval_state \<Rightarrow> approval_state \<Rightarrow> bool" where
  "active_within b a \<longleftrightarrow> (\<forall>k d. map_of (active_candidates b) k = Some d \<longrightarrow>
     (\<exists>c. map_of (active_candidates a) k = Some c \<and> candidate_id d = candidate_id c \<and>
        candidate_request d = candidate_request c \<and> candidate_responder d = candidate_responder c))"

lemma active_withinD:
  "active_within b a \<Longrightarrow> map_of (active_candidates b) k = Some d \<Longrightarrow>
     \<exists>c. map_of (active_candidates a) k = Some c \<and> candidate_id d = candidate_id c \<and>
        candidate_request d = candidate_request c \<and> candidate_responder d = candidate_responder c"
  by (simp add: active_within_def)

lemma within_keyed:
  "active_within b a \<Longrightarrow> distinct (map fst (active_candidates b)) \<Longrightarrow> active_keyed a \<Longrightarrow> active_keyed b"
  unfolding active_keyed_def
proof (intro conjI allI impI)
  fix k d
  assume "active_within b a" "map_of (active_candidates b) k = Some d"
    and keyed: "distinct (map fst (active_candidates a)) \<and> (\<forall>k c. map_of (active_candidates a) k = Some c \<longrightarrow> candidate_id c = k)"
  from active_withinD [OF this(1,2)] keyed show "candidate_id d = k" by auto
qed

lemma within_responders: "active_within b a \<Longrightarrow> one_per_responder a \<Longrightarrow> one_per_responder b"
  unfolding one_per_responder_def
proof (intro allI impI)
  fix k c k' c'
  assume w: "active_within b a" and c: "map_of (active_candidates b) k = Some c" and c': "map_of (active_candidates b) k' = Some c'"
    and same: "candidate_request c = candidate_request c'" "same_responder (candidate_responder c) (candidate_responder c')"
    and one: "\<forall>k c k' c'. map_of (active_candidates a) k = Some c \<longrightarrow> map_of (active_candidates a) k' = Some c' \<longrightarrow>
      candidate_request c = candidate_request c' \<longrightarrow> same_responder (candidate_responder c) (candidate_responder c') \<longrightarrow> k = k'"
  from active_withinD [OF w c] active_withinD [OF w c'] same one show "k = k'" by auto
qed

lemma within_absent: "active_within b a \<Longrightarrow> map_of (active_candidates a) k = None \<Longrightarrow> map_of (active_candidates b) k = None"
  by (metis active_withinD not_None_eq option.distinct(1))

lemma update_active_inv:
  assumes inv: "approval_inv a" and i: "map_of (active_candidates a) i = Some c"
    and same: "candidate_id c' = candidate_id c" "candidate_request c' = candidate_request c"
      "candidate_responder c' = candidate_responder c"
  shows "approval_inv (update_active i c' a)"
proof -
  let ?b = "update_active i c' a"
  have w: "active_within ?b a" using i same by (simp add: active_within_def)
  from inv have "distinct (map fst (active_candidates ?b))"
    by (intro distinct_update_active) (simp add: approval_invD)
  with w inv have "active_keyed ?b" "one_per_responder ?b"
    by (auto simp: approval_inv_def intro: within_keyed within_responders)
  moreover have "ids_unique ?b"
    using inv within_absent [OF w] by (auto simp: approval_inv_def ids_unique_def)
  moreover have "active_open ?b"
    using inv active_withinD [OF w] unfolding approval_inv_def active_open_def
    by (metis update_active_simps(3))
  ultimately show ?thesis
    using inv by (simp add: approval_inv_def allowed_settled_def settled_allowed_def)
qed

lemma mark_pending_inv:
  "approval_inv (read_approval_state s) \<Longrightarrow> approval_inv (read_approval_state (mark_pending_emitted i s))"
  unfolding mark_pending_emitted_def
  by (rule commit_inv) (auto intro: update_active_inv split: option.splits if_splits)

lemma mark_required_inv:
  "approval_inv (read_approval_state s) \<Longrightarrow> approval_inv (read_approval_state (mark_authorization_required cs i e s))"
  unfolding mark_authorization_required_def
  by (rule commit_inv) (auto intro: update_active_inv split: option.splits)

text \<open>Marking an entry or a settlement changes only its flag.\<close>

definition same_audit :: "audit_record \<Rightarrow> audit_record \<Rightarrow> bool" where
  "same_audit h h' \<longleftrightarrow> h'\<lparr>audit_emitted := audit_emitted h\<rparr> = h"

lemma same_auditD:
  "same_audit h h' \<Longrightarrow> audit_candidate h' = audit_candidate h \<and> audit_request h' = audit_request h \<and>
     audit_status h' = audit_status h \<and> audit_responder h' = audit_responder h"
  by (cases h; cases h') (simp add: same_audit_def)

lemma relabel_history_inv:
  assumes inv: "approval_inv a" and f: "\<And>h. same_audit h (f h)"
  shows "approval_inv (a\<lparr>candidate_history := map f (candidate_history a)\<rparr>)"
proof -
  note f = same_auditD [OF f]
  have "map (\<lambda>h. audit_candidate (f h)) hs = map audit_candidate hs" for hs using f by simp
  moreover note inv
  ultimately show ?thesis
    using f by (simp add: approval_inv_defs comp_def)
qed

lemma mark_history_inv:
  "approval_inv (read_approval_state s) \<Longrightarrow> approval_inv (read_approval_state (mark_history_emitted i s))"
  unfolding mark_history_emitted_def
  by (rule commit_inv) (auto intro!: relabel_history_inv simp: same_audit_def split: if_splits)

lemma mark_settlement_inv:
  "approval_inv (read_approval_state s) \<Longrightarrow> approval_inv (read_approval_state (mark_settlement_emitted r s))"
  unfolding mark_settlement_emitted_def
proof (rule commit_inv)
  fix a'
  let ?a = "read_approval_state s"
  assume inv: "approval_inv ?a"
    and "(case map_of (settlements ?a) r of None \<Rightarrow> None
      | Some x \<Rightarrow> if settlement_emitted x then None
          else Some (?a\<lparr>settlements := AList.update r (x\<lparr>settlement_emitted := True\<rparr>) (settlements ?a)\<rparr>)) = Some a'"
  then obtain x where x: "map_of (settlements ?a) r = Some x"
    and a': "a' = ?a\<lparr>settlements := AList.update r (x\<lparr>settlement_emitted := True\<rparr>) (settlements ?a)\<rparr>"
    by (auto split: option.splits if_splits)
  have "active_open a'"
    using inv x by (auto simp: a' approval_inv_def active_open_def update_conv')
  moreover have "allowed_settled a'"
    using inv x by (auto simp: a' approval_inv_def allowed_settled_def update_conv')
  moreover have "settled_allowed a'"
    using inv x by (auto simp: a' approval_inv_def settled_allowed_def update_conv')
  ultimately show "approval_inv a'"
    using inv by (simp add: a' approval_inv_def active_keyed_def ids_unique_def one_per_responder_def)
qed

lemma finish_inv:
  assumes "status \<noteq> Allowed" and "approval_inv (read_approval_state s)"
  shows "approval_inv (read_approval_state (finish_approval_candidate i completed reason status s))"
  unfolding finish_approval_candidate_def
proof (rule commit_inv [OF assms(2)])
  fix a'
  let ?a = "read_approval_state s"
  assume "(case map_of (active_candidates ?a) i of None \<Rightarrow> None
    | Some c \<Rightarrow> Some (?a\<lparr>active_candidates := AList.delete i (active_candidates ?a),
        candidate_history := candidate_history ?a @ [to_audit_record c completed reason status]\<rparr>)) = Some a'"
  then obtain c where c: "map_of (active_candidates ?a) i = Some c"
    and a': "a' = ?a\<lparr>active_candidates := AList.delete i (active_candidates ?a),
        candidate_history := candidate_history ?a @ [to_audit_record c completed reason status]\<rparr>"
    by (auto split: option.splits)
  note inv = assms(2) [unfolded approval_inv_def]
  have id: "candidate_id c = i" using approval_invD(2) [OF assms(2) c] .
  have w: "active_within a' ?a" by (auto simp: active_within_def a' delete_conv' split: if_splits)
  have "distinct (map fst (active_candidates a'))"
    using approval_invD(1) [OF assms(2)] by (simp add: a' distinct_delete)
  with w inv have "active_keyed a'" "one_per_responder a'" by (auto intro: within_keyed within_responders)
  moreover have "ids_unique a'"
    using inv approval_invD(3) [OF assms(2)] c
    by (auto simp: ids_unique_def a' to_audit_record_def id delete_conv')
  moreover have "active_open a'"
    using inv active_withinD [OF w] by (auto simp: active_open_def a' delete_conv' split: if_splits)
  moreover have "allowed_settled a'" "settled_allowed a'" "settlements_distinct a'"
    using inv assms(1) by (auto simp: allowed_settled_def settled_allowed_def a' to_audit_record_def)
  ultimately show "approval_inv a'" by (simp add: approval_inv_def)
qed

lemma expire_each_inv:
  "approval_inv (read_approval_state s) \<Longrightarrow> approval_inv (read_approval_state (expire_each now cs s))"
  by (induction now cs s rule: expire_each.induct) (simp_all add: finish_inv)

lemma expire_inv:
  "approval_inv (read_approval_state s) \<Longrightarrow> approval_inv (read_approval_state (expire_approval_candidates now s))"
  by (simp add: expire_approval_candidates_def expire_each_inv)

lemma entries_map_distinct: "distinct (map fst xs) \<Longrightarrow> entries_map xs = xs"
proof (induction xs rule: rev_induct)
  case (snoc x xs)
  then show ?case by (cases x) (simp add: update_absent)
qed simp

lemma keyed_entries:
  assumes "distinct (map fst ps)" and keyed: "\<And>k c. map_of ps k = Some c \<Longrightarrow> candidate_id c = k"
  shows "entries_map (map (\<lambda>c. (candidate_id c, c)) (filter P (map snd ps))) = filter (\<lambda>p. P (snd p)) ps"
proof -
  have "\<forall>p \<in> set ps. candidate_id (snd p) = fst p"
    using assms by auto
  then have "map (\<lambda>c. (candidate_id c, c)) (filter P (map snd ps)) = filter (\<lambda>p. P (snd p)) ps"
    by (induction ps) auto
  moreover have "distinct (map fst (filter (\<lambda>p. P (snd p)) ps))"
    using assms(1) by (simp add: distinct_map_filter)
  ultimately show ?thesis by (simp only: entries_map_distinct)
qed

lemma keyed_candidate_ids:
  "\<forall>p \<in> set ps. candidate_id (snd p) = fst p \<Longrightarrow>
     map candidate_id (filter P (map snd ps)) = map fst (filter (\<lambda>p. P (snd p)) ps)"
  by (induction ps) auto

lemma map_of_filter_value:
  "distinct (map fst ps) \<Longrightarrow>
     map_of (filter (\<lambda>p. P (snd p)) ps) k = (case map_of ps k of None \<Rightarrow> None | Some c \<Rightarrow> if P c then Some c else None)"
  by (induction ps) (auto split: option.splits simp: map_of_eq_None_iff [symmetric] dest: map_of_SomeD)

definition settles_own :: "responder_identity \<Rightarrow> string option \<Rightarrow> settlement_outcome \<Rightarrow> string \<Rightarrow> approval_state \<Rightarrow> bool" where
  \<comment> \<open>A settlement that names a candidate names an active one of the request and carries its responder.\<close>
  "settles_own actor chosen outcome r a \<longleftrightarrow> (\<forall>i. chosen = Some i \<longrightarrow> outcome = Settled_Allowed \<and>
     (\<exists>c. map_of (active_candidates a) i = Some c \<and> candidate_request c = r \<and> project_responder (candidate_responder c) = actor))"

lemma settle_result:
  assumes "approval_inv a" and "settle actor chosen outcome r t a = Some a'"
  shows "map_of (settlements a) r = None \<and>
    map_of (settlements a') = (map_of (settlements a))(r \<mapsto> \<lparr>settlement_actor = actor, settlement_outcome = outcome,
      settlement_request = r, settled_at = t, settlement_candidate = chosen, settlement_emitted = False\<rparr>) \<and>
    active_candidates a' = filter (\<lambda>p. candidate_request (snd p) \<noteq> r) (active_candidates a) \<and>
    candidate_history a' = candidate_history a @ map (\<lambda>c. to_audit_record c t None
      (if Some (candidate_id c) = chosen then Allowed else Stale)) (filter (\<lambda>c. candidate_request c = r) (map snd (active_candidates a))) \<and>
    next_sequence a' = next_sequence a"
proof -
  have "entries_map (map (\<lambda>c. (candidate_id c, c)) (filter (\<lambda>c. candidate_request c \<noteq> r) (map snd (active_candidates a)))) =
      filter (\<lambda>p. candidate_request (snd p) \<noteq> r) (active_candidates a)"
    by (rule keyed_entries) (use approval_invD [OF assms(1)] in auto)
  with assms(2) show ?thesis
    by (auto simp: settle_def update_conv' simp del: entries_map.simps split: if_splits)
qed

lemma settle_inv:
  assumes inv: "approval_inv a" and own: "settles_own actor chosen outcome r a"
    and a': "settle actor chosen outcome r t a = Some a'"
  shows "approval_inv a'"
proof -
  note res = settle_result [OF inv a']
  note D = approval_invD [OF inv]
  have active: "map_of (active_candidates a') k = Some c \<longleftrightarrow> map_of (active_candidates a) k = Some c \<and> candidate_request c \<noteq> r" for k c
    using res map_of_filter_value [OF D(1), of "\<lambda>c. candidate_request c \<noteq> r" k] by (auto split: option.splits if_splits)
  have w: "active_within a' a" by (simp add: active_within_def active)
  have "distinct (map fst (active_candidates a'))"
    using res D(1) by (simp add: distinct_map_filter)
  with w inv have "active_keyed a'" "one_per_responder a'"
    by (auto simp: approval_inv_def intro: within_keyed within_responders)
  moreover
  let ?x = "\<lparr>settlement_actor = actor, settlement_outcome = outcome, settlement_request = r, settled_at = t,
      settlement_candidate = chosen, settlement_emitted = False\<rparr>"
  let ?losers = "filter (\<lambda>c. candidate_request c = r) (map snd (active_candidates a))"
  let ?rec = "\<lambda>c. to_audit_record c t None (if Some (candidate_id c) = chosen then Allowed else Stale)"
  have fresh: "map_of (settlements a) r = None"
    and settled: "map_of (settlements a') = (map_of (settlements a))(r \<mapsto> ?x)"
    and hist: "candidate_history a' = candidate_history a @ map ?rec ?losers"
    using res by simp_all
  have "active_open a'"
    using inv by (auto simp: approval_inv_def active_open_def active settled)
  moreover
  have loser: "c \<in> set ?losers \<longleftrightarrow> map_of (active_candidates a) (candidate_id c) = Some c \<and> candidate_request c = r" for c
  proof -
    have "c \<in> set (map snd (active_candidates a)) \<longleftrightarrow> (\<exists>k. map_of (active_candidates a) k = Some c)"
      by (force simp: map_of_eq_Some_iff [OF D(1)] image_iff)
    then have "c \<in> set (map snd (active_candidates a)) \<longleftrightarrow> map_of (active_candidates a) (candidate_id c) = Some c"
      using D(2) by blast
    then show ?thesis by (simp only: set_filter mem_Collect_eq)
  qed
  have ids: "map audit_candidate (map ?rec ?losers) = map fst (filter (\<lambda>p. candidate_request (snd p) = r) (active_candidates a))"
  proof -
    have "\<forall>p \<in> set (active_candidates a). candidate_id (snd p) = fst p" using D(1,2) by auto
    then show ?thesis by (simp add: to_audit_record_def comp_def keyed_candidate_ids)
  qed
  have old: "audit_candidate h \<notin> fst ` set (active_candidates a)" if "h \<in> set (candidate_history a)" for h
    using D(3) [OF that] by (simp add: map_of_eq_None_iff)
  have "ids_unique a'"
  proof -
    have "distinct (map audit_candidate (candidate_history a'))"
      using inv D(1) old unfolding hist map_append ids
      by (auto simp: approval_inv_def ids_unique_def distinct_map_filter)
    moreover have "map_of (active_candidates a') (audit_candidate h) = None" if "h \<in> set (candidate_history a')" for h
    proof (cases "h \<in> set (candidate_history a)")
      case True
      with D(3) w show ?thesis by (blast intro: within_absent)
    next
      case False
      with that obtain c where "c \<in> set ?losers" "h = ?rec c" unfolding hist by auto
      then have "audit_candidate h = candidate_id c" by (simp add: to_audit_record_def)
      moreover from \<open>c \<in> set ?losers\<close> have "map_of (active_candidates a) (candidate_id c) = Some c" "candidate_request c = r"
        unfolding loser by simp_all
      ultimately show ?thesis using active [of "candidate_id c"] by (metis not_None_eq option.inject)
    qed
    ultimately show ?thesis by (simp add: ids_unique_def)
  qed
  moreover have "allowed_settled a'"
    using inv fresh unfolding approval_inv_def allowed_settled_def hist settled
    by (auto simp: to_audit_record_def split: if_splits)
  moreover have "settled_allowed a'"
  proof -
    have "\<exists>h \<in> set (candidate_history a'). audit_candidate h = i \<and> audit_request h = r \<and> audit_status h = Allowed \<and>
        audit_responder h = actor" and "outcome = Settled_Allowed" if "chosen = Some i" for i
    proof -
      from own that obtain c where c: "outcome = Settled_Allowed" "map_of (active_candidates a) i = Some c"
          "candidate_request c = r" "project_responder (candidate_responder c) = actor"
        by (auto simp: settles_own_def)
      with D(2) have "candidate_id c = i" by blast
      with c loser [of c] that show "\<exists>h \<in> set (candidate_history a'). audit_candidate h = i \<and> audit_request h = r \<and>
          audit_status h = Allowed \<and> audit_responder h = actor"
        unfolding hist by (intro bexI [of _ "?rec c"]) (auto simp: to_audit_record_def)
      show "outcome = Settled_Allowed" by (rule c)
    qed
    note named = this
    have older: "set (candidate_history a) \<subseteq> set (candidate_history a')" by (simp add: hist)
    show ?thesis
      unfolding settled_allowed_def settled
    proof (intro allI impI)
      fix q x
      assume x: "((map_of (settlements a))(r \<mapsto> ?x)) q = Some x"
      show "settlement_request x = q \<and> (\<forall>i. settlement_candidate x = Some i \<longrightarrow> settlement_outcome x = Settled_Allowed \<and>
        (\<exists>h \<in> set (candidate_history a'). audit_candidate h = i \<and> audit_request h = q \<and> audit_status h = Allowed \<and>
           audit_responder h = settlement_actor x))"
      proof (cases "q = r")
        case True
        with x have "x = ?x" by simp
        with True named show ?thesis by simp
      next
        case False
        with x have "map_of (settlements a) q = Some x" by simp
        with inv have "settlement_request x = q \<and> (\<forall>i. settlement_candidate x = Some i \<longrightarrow> settlement_outcome x = Settled_Allowed \<and>
          (\<exists>h \<in> set (candidate_history a). audit_candidate h = i \<and> audit_request h = q \<and> audit_status h = Allowed \<and>
             audit_responder h = settlement_actor x))"
          by (simp add: approval_inv_def settled_allowed_def)
        with older show ?thesis by blast
      qed
    qed
  qed
  moreover have "settlements_distinct a'"
    using inv a' by (auto simp: approval_inv_def settlements_distinct_def settle_def distinct_update
        simp del: entries_map.simps split: if_splits)
  ultimately show ?thesis by (simp add: approval_inv_def)
qed

lemma settle_request_inv:
  assumes "approval_inv (read_approval_state s)" and "settles_own actor chosen outcome r (read_approval_state s)"
  shows "approval_inv (read_approval_state (snd (settle_request actor chosen outcome r t s)))"
  unfolding settle_request_def snd_conv by (rule commit_inv [OF assms(1)]) (rule settle_inv [OF assms])

lemma settle_direct_inv:
  "approval_inv (read_approval_state s) \<Longrightarrow>
     approval_inv (read_approval_state (snd (settle_direct_response actor outcome r t s)))"
  by (simp add: settle_direct_response_def settle_request_inv expire_inv settles_own_def)

lemma settle_allowed_inv:
  assumes "approval_inv (read_approval_state s)" and "settle_allowed_candidate i t s = Inr (changed, s')"
  shows "approval_inv (read_approval_state s')"
proof -
  let ?e = "expire_approval_candidates t s"
  have inv: "approval_inv (read_approval_state ?e)" by (rule expire_inv [OF assms(1)])
  show ?thesis
  proof (cases "map_of (active_candidates (read_approval_state ?e)) i")
    case None
    with assms(2) inv show ?thesis by (auto simp: settle_allowed_candidate_def Let_def split: option.splits if_splits)
  next
    case (Some c)
    with approval_invD(2) [OF inv Some] have "settles_own (project_responder (candidate_responder c)) (Some (candidate_id c))
        Settled_Allowed (candidate_request c) (read_approval_state ?e)"
      by (simp add: settles_own_def)
    from settle_request_inv [OF inv this, of t] Some assms(2) show ?thesis
      by (auto simp: settle_allowed_candidate_def Let_def)
  qed
qed

definition new_candidate :: "string \<Rightarrow> string \<Rightarrow> json \<Rightarrow> rat \<Rightarrow> rat \<Rightarrow> active_candidate" where
  "new_candidate i r responder created expires = \<lparr>candidate_id = i, candidate_request = r,
     candidate_responder = responder, candidate_status = Pending_Candidate, created_at = created, expires_at = expires,
     candidate_challenges = None, pending_emitted = False\<rparr>"

lemma create_cases:
  assumes "create_approval_candidate pref created expires r responder s = Inr (changed, s')"
  defines "e \<equiv> expire_approval_candidates created s"
  defines "a \<equiv> read_approval_state e"
  shows "\<not> changed \<and> s' = e \<or>
    (\<exists>i. changed \<and> (i = pref \<or> i = pref @ ''.'' @ base36 (next_sequence a)) \<and> \<not> id_taken i a \<and> map_of (settlements a) r = None \<and>
       (\<forall>k c. map_of (active_candidates a) k = Some c \<longrightarrow> candidate_request c = r \<longrightarrow> \<not> same_responder (candidate_responder c) responder) \<and>
       s' = write_approval_state e ((update_active i (new_candidate i r responder created expires) a)\<lparr>next_sequence := next_sequence a + 1\<rparr>))"
  using assms(1) unfolding create_approval_candidate_def Let_def e_def [symmetric] a_def [symmetric]
  by (auto simp: new_candidate_def list_ex_iff dest!: map_of_SomeD split: if_splits)

lemma create_inv:
  assumes "approval_inv (read_approval_state s)"
    and "create_approval_candidate pref created expires r responder s = Inr (changed, s')"
  shows "approval_inv (read_approval_state s')"
proof -
  let ?e = "expire_approval_candidates created s"
  let ?a = "read_approval_state ?e"
  have inv: "approval_inv ?a" by (rule expire_inv [OF assms(1)])
  from create_cases [OF assms(2)] consider "s' = ?e" | i where "\<not> id_taken i ?a" "map_of (settlements ?a) r = None"
      "\<forall>k c. map_of (active_candidates ?a) k = Some c \<longrightarrow> candidate_request c = r \<longrightarrow> \<not> same_responder (candidate_responder c) responder"
      "s' = write_approval_state ?e ((update_active i (new_candidate i r responder created expires) ?a)\<lparr>next_sequence := next_sequence ?a + 1\<rparr>)"
    by blast
  then show ?thesis
  proof cases
    case 2
    note free = 2(1) and fresh = 2(2) and alone = 2(3) and s' = 2(4)
    let ?b = "update_active i (new_candidate i r responder created expires) ?a"
    have "active_keyed ?b"
      using inv distinct_update_active [of ?a] by (auto simp: approval_inv_def active_keyed_def new_candidate_def)
    moreover have "ids_unique ?b"
      using inv free by (auto simp: approval_inv_def ids_unique_def id_taken_def list_ex_iff)
    moreover have "active_open ?b"
      using inv fresh by (auto simp: approval_inv_def active_open_def new_candidate_def)
    moreover have "one_per_responder ?b"
      using inv alone unfolding approval_inv_def one_per_responder_def same_responder_iff
      by (auto simp: new_candidate_def split: if_splits) metis
    moreover have "allowed_settled ?b" "settled_allowed ?b" "settlements_distinct ?b"
      using inv by (simp_all add: approval_inv_def allowed_settled_def settled_allowed_def)
    ultimately have "approval_inv ?b" by (simp add: approval_inv_def)
    then show ?thesis by (simp only: s' approval_read_written approval_inv_sequence)
  qed (simp add: inv)
qed

section \<open>Runs\<close>

datatype approval_op =
    Ask string json rat rat \<comment> \<open>request, responder, creation and expiry\<close>
  | Emit_Pending string
  | Emit_History string
  | Emit_Settlement string
  | Require_Authorization "json list" string "rat option"
  | Reject string rat "string option"
  | Fail_Candidate string rat "string option"
  | Expire rat
  | Allow string rat
  | Answer_Directly json settlement_outcome string rat

definition kept_state :: "state_map option \<Rightarrow> approval_error + bool \<times> state_map option \<Rightarrow> state_map option" where
  \<comment> \<open>A throw leaves the stored state.\<close>
  "kept_state s r = (case r of Inl _ \<Rightarrow> s | Inr (_, s') \<Rightarrow> s')"

fun approval_step :: "state_map option \<Rightarrow> approval_op \<Rightarrow> state_map option" where
  "approval_step s (Ask r responder created expires) = kept_state s
     (create_approval_candidate (approval_candidate_id_prefix r responder) created expires r responder s)"
| "approval_step s (Emit_Pending i) = mark_pending_emitted i s"
| "approval_step s (Emit_History i) = mark_history_emitted i s"
| "approval_step s (Emit_Settlement r) = mark_settlement_emitted r s"
| "approval_step s (Require_Authorization cs i expires) = mark_authorization_required cs i expires s"
| "approval_step s (Reject i t reason) = finish_approval_candidate i t reason Rejected s"
| "approval_step s (Fail_Candidate i t reason) = finish_approval_candidate i t reason Failed s"
| "approval_step s (Expire t) = expire_approval_candidates t s"
| "approval_step s (Allow i t) = kept_state s (settle_allowed_candidate i t s)"
| "approval_step s (Answer_Directly actor outcome r t) = snd (settle_direct_response actor outcome r t s)"

lemma kept_state_inv:
  assumes "approval_inv (read_approval_state s)"
    and "\<And>changed s'. r = Inr (changed, s') \<Longrightarrow> approval_inv (read_approval_state s')"
  shows "approval_inv (read_approval_state (kept_state s r))"
  using assms by (auto simp: kept_state_def split: sum.split)

lemma approval_step_inv:
  "approval_inv (read_approval_state s) \<Longrightarrow> approval_inv (read_approval_state (approval_step s op))"
  by (cases op) (auto intro: kept_state_inv create_inv settle_allowed_inv
    simp: settle_direct_inv mark_pending_inv mark_history_inv mark_settlement_inv mark_required_inv finish_inv expire_inv)

interpretation approvals: transition_system approval_step "\<lambda>s. approval_inv (read_approval_state s)"
  by unfold_locales (rule approval_step_inv)

lemma no_approvals_inv: "approval_inv (read_approval_state None)"
  by (simp add: read_approval_state_def state_get_def no_approvals_def approval_inv_defs settlements_distinct_def)

end
