(* ===== verification/Approval_Runs.thy ===== *)
theory Approval_Runs
  imports Approval_Candidates
begin

text \<open>
  What holds after every sequence of the operations on approval candidates: the audit trail is consistent, a
  settlement is final, no candidate is lost, and minting a candidate id does not collide.
\<close>

section \<open>Audit trail\<close>

lemma ids_distinct:
  assumes "approval_inv a"
  shows "distinct (map fst (active_candidates a) @ map audit_candidate (candidate_history a))"
proof -
  have "\<forall>h \<in> set (candidate_history a). audit_candidate h \<notin> fst ` set (active_candidates a)"
    using approval_invD(3) [OF assms] by (simp add: map_of_eq_None_iff)
  then have "set (map fst (active_candidates a)) \<inter> set (map audit_candidate (candidate_history a)) = {}"
    unfolding set_map by (intro equals0I) (metis IntE imageE)
  with approval_invD(1) [OF assms] assms show ?thesis
    by (simp only: distinct_append) (simp add: approval_inv_def ids_unique_def)
qed

lemma settled_winner:
  "approval_inv a \<Longrightarrow> map_of (settlements a) r = Some x \<Longrightarrow> settlement_candidate x = Some i \<Longrightarrow>
     settlement_outcome x = Settled_Allowed \<and>
     (\<exists>h \<in> set (candidate_history a). audit_candidate h = i \<and> audit_request h = r \<and> audit_status h = Allowed \<and>
        audit_responder h = settlement_actor x)"
  by (simp add: approval_inv_def settled_allowed_def)

lemma history_entry_unique:
  assumes "approval_inv a" "h \<in> set (candidate_history a)" "h' \<in> set (candidate_history a)" "audit_candidate h = audit_candidate h'"
  shows "h = h'"
proof -
  have "inj_on audit_candidate (set (candidate_history a))"
    using assms(1) by (simp add: approval_inv_def ids_unique_def distinct_map)
  from inj_onD [OF this assms(4,2,3)] show ?thesis .
qed

definition names_winner :: "approval_state \<Rightarrow> audit_record \<Rightarrow> bool" where
  \<comment> \<open>The settlement of the entry's request is the approval by this candidate's responder.\<close>
  "names_winner a h \<longleftrightarrow> (\<exists>x. map_of (settlements a) (audit_request h) = Some x \<and> settlement_candidate x = Some (audit_candidate h) \<and>
     settlement_outcome x = Settled_Allowed \<and> settlement_actor x = audit_responder h)"

lemma allowed_iff_winner:
  assumes inv: "approval_inv a" and h: "h \<in> set (candidate_history a)"
  shows "audit_status h = Allowed \<longleftrightarrow> names_winner a h"
proof
  assume "audit_status h = Allowed"
  with inv h obtain x where x: "map_of (settlements a) (audit_request h) = Some x" "settlement_candidate x = Some (audit_candidate h)"
    by (auto simp: approval_inv_def allowed_settled_def)
  from settled_winner [OF inv x] obtain h' where h': "h' \<in> set (candidate_history a)" "audit_candidate h' = audit_candidate h"
      "audit_responder h' = settlement_actor x" and o: "settlement_outcome x = Settled_Allowed"
    by blast
  from history_entry_unique [OF inv h'(1) h h'(2)] x h' o show "names_winner a h" by (auto simp: names_winner_def)
next
  assume "names_winner a h"
  with settled_winner [OF inv] obtain h' where h': "h' \<in> set (candidate_history a)"
      "audit_candidate h' = audit_candidate h" "audit_status h' = Allowed"
    unfolding names_winner_def by blast
  from history_entry_unique [OF inv h'(1) h h'(2)] h' show "audit_status h = Allowed" by simp
qed

text \<open>
  C12: after any operations on approval candidates, starting from none, every candidate id is in use once, among the
  active candidates and the history together; an active candidate competes for an unsettled request; and the
  history entry of a candidate says \<open>Allowed\<close> exactly when the settlement of its request is the approval by this
  candidate and its responder, so a request has at most one allowed candidate.
\<close>
theorem approval_audit_consistent:
  fixes ops :: "approval_op list"
  defines "a \<equiv> read_approval_state (foldl approval_step None ops)"
  shows "distinct (map fst (active_candidates a) @ map audit_candidate (candidate_history a)) \<and>
    (\<forall>(i, c) \<in> set (active_candidates a). candidate_id c = i \<and> map_of (settlements a) (candidate_request c) = None) \<and>
    (\<forall>h \<in> set (candidate_history a). audit_status h = Allowed \<longleftrightarrow> names_winner a h)"
proof -
  have inv: "approval_inv a"
    unfolding a_def by (rule approvals.run_inv [OF no_approvals_inv])
  have "candidate_id c = i \<and> map_of (settlements a) (candidate_request c) = None" if "(i, c) \<in> set (active_candidates a)" for i c
    using that approval_invD [OF inv] by (simp add: map_of_eq_Some_iff)
  then show ?thesis
    using ids_distinct [OF inv] allowed_iff_winner [OF inv] by auto
qed

section \<open>Settlements are final\<close>

definition settled_as :: "string \<Rightarrow> settlement \<Rightarrow> state_map option \<Rightarrow> bool" where
  \<comment> \<open>The request is settled so, up to the flag of its event, which may only rise.\<close>
  "settled_as r x s \<longleftrightarrow> (\<exists>b. (settlement_emitted x \<longrightarrow> b) \<and>
     map_of (settlements (read_approval_state s)) r = Some (x\<lparr>settlement_emitted := b\<rparr>))"

definition keeps_settled :: "state_map option \<Rightarrow> state_map option \<Rightarrow> bool" where
  "keeps_settled s s' \<longleftrightarrow> map_of (settlements (read_approval_state s)) \<subseteq>\<^sub>m map_of (settlements (read_approval_state s'))"

lemma keeps_settled_refl [simp]: "keeps_settled s s"
  by (simp add: keeps_settled_def)

lemma keeps_settled_trans: "keeps_settled s t \<Longrightarrow> keeps_settled t u \<Longrightarrow> keeps_settled s u"
  unfolding keeps_settled_def by (rule map_le_trans)

lemma keeps_settledD:
  "keeps_settled s s' \<Longrightarrow> map_of (settlements (read_approval_state s)) r = Some x \<Longrightarrow>
     map_of (settlements (read_approval_state s')) r = Some x"
  unfolding keeps_settled_def map_le_def by (metis domI)

lemma keeps_settled_as: "keeps_settled s s' \<Longrightarrow> settled_as r x s \<Longrightarrow> settled_as r x s'"
  by (auto simp: settled_as_def dest: keeps_settledD)

lemma keeps_settled_commit:
  assumes "\<And>a. f (read_approval_state s) = Some a \<Longrightarrow> map_of (settlements (read_approval_state s)) \<subseteq>\<^sub>m map_of (settlements a)"
  shows "keeps_settled s (commit f s)"
  using assms by (simp add: keeps_settled_def read_commit split: option.split)

lemma keeps_settled_finish: "keeps_settled s (finish_approval_candidate i t reason status s)"
  unfolding finish_approval_candidate_def by (rule keeps_settled_commit) (auto split: option.splits)

lemma keeps_settled_expire: "keeps_settled s (expire_approval_candidates t s)"
proof -
  have "keeps_settled s (expire_each now cs s)" for now cs
    by (induction now cs s rule: expire_each.induct) (auto intro: keeps_settled_trans keeps_settled_finish)
  then show ?thesis by (simp add: expire_approval_candidates_def)
qed

lemma keeps_settled_settle: "keeps_settled s (snd (settle_request actor chosen verdict q t s))"
  unfolding settle_request_def snd_conv
  by (rule keeps_settled_commit)
    (auto simp: settle_def map_le_def update_conv' simp del: entries_map.simps split: if_splits)

lemma keeps_settled_require: "keeps_settled s (mark_authorization_required cs i e s)"
  unfolding mark_authorization_required_def by (rule keeps_settled_commit) (auto split: option.splits)

lemma keeps_settled_direct: "keeps_settled s (snd (settle_direct_response actor verdict q t s))"
  unfolding settle_direct_response_def by (rule keeps_settled_trans [OF keeps_settled_expire keeps_settled_settle])

lemma keeps_settled_create:
  assumes "create_approval_candidate p created expires q responder s = Inr (changed, s')"
  shows "keeps_settled s s'"
proof -
  have "keeps_settled (expire_approval_candidates created s) s'"
    using create_cases [OF assms] by (auto simp: keeps_settled_def)
  with keeps_settled_expire show ?thesis by (rule keeps_settled_trans)
qed

lemma allow_cases:
  assumes "settle_allowed_candidate i t s = Inr (changed, s')"
  shows "s' = expire_approval_candidates t s \<or>
    (\<exists>c. map_of (active_candidates (read_approval_state (expire_approval_candidates t s))) i = Some c \<and>
      s' = snd (settle_request (project_responder (candidate_responder c)) (Some (candidate_id c)) Settled_Allowed
        (candidate_request c) t (expire_approval_candidates t s)))"
  using assms unfolding settle_allowed_candidate_def Let_def by (auto split: option.splits if_splits)

lemma keeps_settled_allow:
  assumes "settle_allowed_candidate i t s = Inr (changed, s')"
  shows "keeps_settled s s'"
  using allow_cases [OF assms] keeps_settled_expire [of s t]
  by (auto intro: keeps_settled_trans keeps_settled_settle)

lemma settled_as_mark: "settled_as r x s \<Longrightarrow> settled_as r x (mark_settlement_emitted q s)"
proof (cases "q = r")
  case True
  assume s: "settled_as r x s"
  then obtain b where "settlement_emitted x \<longrightarrow> b"
    "map_of (settlements (read_approval_state s)) r = Some (x\<lparr>settlement_emitted := b\<rparr>)"
    by (auto simp: settled_as_def)
  with True show ?thesis
    by (auto simp: mark_settlement_emitted_def settled_as_def read_commit update_conv')
next
  case False
  assume "settled_as r x s"
  with False show ?thesis
    by (auto simp: settled_as_def mark_settlement_emitted_def read_commit update_conv' split: option.splits)
qed

lemma settled_request_step: "settled_as r x s \<Longrightarrow> settled_as r x (approval_step s op)"
proof (cases op)
  case (Emit_Pending i)
  assume "settled_as r x s"
  then show ?thesis
    unfolding Emit_Pending approval_step.simps mark_pending_emitted_def
    by (rule keeps_settled_as [rotated], intro keeps_settled_commit) (auto split: option.splits if_splits)
next
  case (Emit_History i)
  assume "settled_as r x s"
  then show ?thesis
    unfolding Emit_History approval_step.simps mark_history_emitted_def
    by (rule keeps_settled_as [rotated], intro keeps_settled_commit) (auto split: if_splits)
qed (auto simp: kept_state_def settled_as_mark split: sum.split
  intro: keeps_settled_as keeps_settled_create keeps_settled_allow keeps_settled_finish keeps_settled_expire
    keeps_settled_direct keeps_settled_require)

interpretation settled_request: transition_system approval_step "settled_as r x" for r x
  by unfold_locales (rule settled_request_step)

text \<open>
  C20: once a request is settled, no later operation changes who settled it, how, when and through which candidate.
\<close>
theorem settlement_is_final:
  assumes "map_of (settlements (read_approval_state s)) r = Some x"
  shows "\<exists>b. (settlement_emitted x \<longrightarrow> b) \<and>
    map_of (settlements (read_approval_state (foldl approval_step s ops))) r = Some (x\<lparr>settlement_emitted := b\<rparr>)"
proof -
  have "settled_as r x s" using assms by (auto simp: settled_as_def intro!: exI [of _ "settlement_emitted x"])
  from settled_request.run_inv [OF this, of ops] show ?thesis by (simp add: settled_as_def)
qed

section \<open>No candidate is lost\<close>

definition on_record :: "string \<Rightarrow> string \<Rightarrow> json \<Rightarrow> approval_state \<Rightarrow> bool" where
  \<comment> \<open>The candidate is active, or its end is in the history.\<close>
  "on_record i r responder a \<longleftrightarrow>
     (\<exists>c. map_of (active_candidates a) i = Some c \<and> candidate_request c = r \<and> candidate_responder c = responder) \<or>
     (\<exists>h \<in> set (candidate_history a). audit_candidate h = i \<and> audit_request h = r \<and> audit_responder h = project_responder responder)"

definition tracked :: "string \<Rightarrow> string \<Rightarrow> json \<Rightarrow> state_map option \<Rightarrow> bool" where
  "tracked i r responder s \<longleftrightarrow> approval_inv (read_approval_state s) \<and> on_record i r responder (read_approval_state s)"

lemma on_record_sequence [simp]: "on_record i r responder (a\<lparr>next_sequence := n\<rparr>) = on_record i r responder a"
  by (simp add: on_record_def)

lemma on_record_commit:
  assumes "on_record i r responder (read_approval_state s)"
    and "\<And>a. f (read_approval_state s) = Some a \<Longrightarrow> on_record i r responder a"
  shows "on_record i r responder (read_approval_state (commit f s))"
  using assms by (simp add: read_commit split: option.split)

lemma on_record_relabel:
  assumes f: "\<And>h. same_audit h (f h)"
  shows "on_record i r responder (a\<lparr>candidate_history := map f (candidate_history a)\<rparr>) = on_record i r responder a"
  using same_auditD [OF f] by (simp add: on_record_def)

lemma on_record_finish:
  assumes "tracked i r responder s"
  shows "on_record i r responder (read_approval_state (finish_approval_candidate j t reason status s))"
  unfolding finish_approval_candidate_def
proof (rule on_record_commit)
  show "on_record i r responder (read_approval_state s)" using assms by (simp add: tracked_def)
  fix a
  assume "(case map_of (active_candidates (read_approval_state s)) j of None \<Rightarrow> None
    | Some c \<Rightarrow> Some (read_approval_state s\<lparr>active_candidates := AList.delete j (active_candidates (read_approval_state s)),
        candidate_history := candidate_history (read_approval_state s) @ [to_audit_record c t reason status]\<rparr>)) = Some a"
  then obtain c where c: "map_of (active_candidates (read_approval_state s)) j = Some c"
    and a: "a = read_approval_state s\<lparr>active_candidates := AList.delete j (active_candidates (read_approval_state s)),
        candidate_history := candidate_history (read_approval_state s) @ [to_audit_record c t reason status]\<rparr>"
    by (auto split: option.splits)
  have "candidate_id c = j" using assms approval_invD(2) [OF _ c] by (simp add: tracked_def)
  with assms c show "on_record i r responder a"
    by (cases "i = j") (auto simp: a tracked_def on_record_def to_audit_record_def delete_conv')
qed

lemma tracked_expire: "tracked i r responder s \<Longrightarrow> tracked i r responder (expire_approval_candidates t s)"
proof -
  have "tracked i r responder s \<Longrightarrow> tracked i r responder (expire_each now cs s)" for now cs
  proof (induction now cs s rule: expire_each.induct)
    case (2 now c cs s)
    then have "tracked i r responder (finish_approval_candidate (candidate_id c) now None Timed_Out s)"
      by (simp add: tracked_def finish_inv on_record_finish [unfolded tracked_def])
    with 2 show ?case by simp
  qed simp
  then show "tracked i r responder s \<Longrightarrow> tracked i r responder (expire_approval_candidates t s)"
    by (simp add: expire_approval_candidates_def)
qed

lemma on_record_settle:
  assumes "tracked i r responder s"
  shows "on_record i r responder (read_approval_state (snd (settle_request actor chosen outcome q t s)))"
  unfolding settle_request_def snd_conv
proof (rule on_record_commit)
  let ?a = "read_approval_state s"
  from assms have inv: "approval_inv ?a" and rec: "on_record i r responder ?a" by (simp_all add: tracked_def)
  show "on_record i r responder ?a" by (rule rec)
  fix a
  assume a: "settle actor chosen outcome q t ?a = Some a"
  note res = settle_result [OF inv a]
  note D = approval_invD [OF inv]
  from rec consider (active) c where "map_of (active_candidates ?a) i = Some c" "candidate_request c = r" "candidate_responder c = responder"
    | (past) h where "h \<in> set (candidate_history ?a)" "audit_candidate h = i" "audit_request h = r" "audit_responder h = project_responder responder"
    unfolding on_record_def by blast
  then show "on_record i r responder a"
  proof cases
    case active
    show ?thesis
    proof (cases "r = q")
      case True
      let ?h = "to_audit_record c t None (if Some (candidate_id c) = chosen then Allowed else Stale)"
      have "c \<in> set (map snd (active_candidates ?a))" using active(1) by (force dest: map_of_SomeD)
      with True active(2) have "?h \<in> set (candidate_history a)" using res by auto
      moreover have "audit_candidate ?h = i" "audit_request ?h = r" "audit_responder ?h = project_responder responder"
        using active D(2) [OF active(1)] by (simp_all add: to_audit_record_def)
      ultimately show ?thesis unfolding on_record_def by blast
    next
      case False
      with active res have "map_of (active_candidates a) i = Some c"
        by (simp add: map_of_filter_value [OF D(1), of "\<lambda>c. candidate_request c \<noteq> q" i])
      with active show ?thesis by (auto simp: on_record_def)
    qed
  next
    case past
    with res have "h \<in> set (candidate_history a)" by auto
    with past show ?thesis by (auto simp: on_record_def)
  qed
qed

lemma on_record_create:
  assumes "tracked i r responder s" and "create_approval_candidate p created expires q other s = Inr (changed, s')"
  shows "on_record i r responder (read_approval_state s')"
proof -
  have "on_record i r responder (read_approval_state (expire_approval_candidates created s))"
    using tracked_expire [OF assms(1), of created] by (simp add: tracked_def)
  with create_cases [OF assms(2)] show ?thesis
    by (auto simp: on_record_def id_taken_def)
qed

lemma on_record_allow:
  assumes "tracked i r responder s" and "settle_allowed_candidate j t s = Inr (changed, s')"
  shows "on_record i r responder (read_approval_state s')"
proof -
  have e: "tracked i r responder (expire_approval_candidates t s)" by (rule tracked_expire [OF assms(1)])
  from allow_cases [OF assms(2)] e on_record_settle [OF e] show ?thesis by (auto simp: tracked_def)
qed

lemma tracked_step: "tracked i r responder s \<Longrightarrow> tracked i r responder (approval_step s op)"
proof -
  assume s: "tracked i r responder s"
  then have inv: "approval_inv (read_approval_state s)" and rec: "on_record i r responder (read_approval_state s)"
    by (simp_all add: tracked_def)
  have "on_record i r responder (read_approval_state (approval_step s op))"
  proof (cases op)
    case (Ask q other created expires)
    with s rec show ?thesis by (auto simp: kept_state_def split: sum.split intro: on_record_create)
  next
    case (Allow j t)
    with s rec show ?thesis by (auto simp: kept_state_def split: sum.split intro: on_record_allow)
  next
    case (Emit_Pending j)
    from rec show ?thesis
      unfolding Emit_Pending approval_step.simps mark_pending_emitted_def
      by (rule on_record_commit) (use rec in \<open>auto simp: on_record_def split: option.splits if_splits\<close>)
  next
    case (Require_Authorization cs j e)
    from rec show ?thesis
      unfolding Require_Authorization approval_step.simps mark_authorization_required_def
      by (rule on_record_commit) (use rec in \<open>auto simp: on_record_def split: option.splits\<close>)
  next
    case (Emit_History j)
    from rec show ?thesis
      unfolding Emit_History approval_step.simps mark_history_emitted_def
      by (rule on_record_commit) (use rec in \<open>auto simp: on_record_relabel same_audit_def split: if_splits\<close>)
  next
    case (Emit_Settlement q)
    from rec show ?thesis
      unfolding Emit_Settlement approval_step.simps mark_settlement_emitted_def
      by (rule on_record_commit) (use rec in \<open>auto simp: on_record_def split: option.splits if_splits\<close>)
  next
    case (Expire t)
    with tracked_expire [OF s, of t] show ?thesis by (simp add: tracked_def)
  next
    case (Answer_Directly actor outcome q t)
    with on_record_settle [OF tracked_expire [OF s, of t]] show ?thesis by (simp add: settle_direct_response_def)
  qed (simp_all add: on_record_finish [OF s])
  with approval_step_inv [OF inv] show ?thesis by (simp add: tracked_def)
qed

interpretation tracked_candidate: transition_system approval_step "tracked i r responder" for i r responder
  by unfold_locales (rule tracked_step)

text \<open>
  A candidate that was created stays on record: after any further operations it is active with the same request
  and responder, or the history holds its end under the same id, request and responder identity.
\<close>

theorem candidate_stays_on_record:
  fixes before :: "approval_op list"
  defines "s \<equiv> foldl approval_step None before"
  assumes "map_of (active_candidates (read_approval_state s)) i = Some c"
  shows "on_record i (candidate_request c) (candidate_responder c) (read_approval_state (foldl approval_step s ops))"
proof -
  have "tracked i (candidate_request c) (candidate_responder c) s"
    using assms(2) approvals.run_inv [OF no_approvals_inv, of before] by (auto simp: tracked_def on_record_def s_def)
  from tracked_candidate.run_inv [OF this, of ops] show ?thesis by (simp add: tracked_def)
qed

section \<open>Candidate ids do not collide\<close>

definition digits36 :: string where
  "digits36 = ''0123456789abcdefghijklmnopqrstuvwxyz''"

lemma digits36_facts: "distinct digits36" "length digits36 = 36" "CHR ''.'' \<notin> set digits36"
  by (simp_all add: digits36_def)

lemma base36_unfold:
  "base36 n = (if n < 36 then [] else base36 (n div 36)) @ [digits36 ! (n mod 36)]"
  by (subst base36.simps) (simp add: digits36_def)

lemma base36_digits: "set (base36 n) \<subseteq> set digits36"
proof (induction n rule: less_induct)
  case (less n)
  have "digits36 ! (n mod 36) \<in> set digits36" by (rule nth_mem) (simp add: digits36_facts)
  with less [of "n div 36"] show ?case by (subst base36_unfold) auto
qed

lemma base36_ne: "base36 n \<noteq> []"
  by (subst base36_unfold) simp

lemma base36_inj: "base36 m = base36 n \<Longrightarrow> m = n"
proof (induction m arbitrary: n rule: less_induct)
  case (less m)
  from less.prems have eq: "(if m < 36 then [] else base36 (m div 36)) = (if n < 36 then [] else base36 (n div 36))"
    and "digits36 ! (m mod 36) = digits36 ! (n mod 36)"
    by (simp_all only: base36_unfold [of m] base36_unfold [of n] append1_eq_conv)
  then have last: "m mod 36 = n mod 36"
    using nth_eq_iff_index_eq [OF digits36_facts(1)] by (simp add: digits36_facts)
  show ?case
  proof (cases "m < 36 \<or> n < 36")
    case True
    with eq have "m < 36" "n < 36" by (auto simp: base36_ne base36_ne [symmetric] split: if_splits)
    with last show ?thesis by simp
  next
    case False
    with eq have "base36 (m div 36) = base36 (n div 36)" by simp
    moreover from False have "m div 36 < m" by simp
    ultimately have "m div 36 = n div 36" by (intro less.IH)
    with last show ?thesis by (metis mod_div_decomp)
  qed
qed

definition dots :: "string \<Rightarrow> nat" where
  "dots s = count_list s (CHR ''.'')"

lemma dots_simps [simp]: "dots (s @ t) = dots s + dots t" "dots [] = 0"
  "dots (c # s) = (if c = CHR ''.'' then 1 else 0) + dots s"
  by (simp_all add: dots_def)

lemma dots_base36 [simp]: "dots (base36 n) = 0"
  using base36_digits [of n] digits36_facts(3) by (auto simp: dots_def count_list_0_iff)

lemma dots_join: "dots sep = 0 \<Longrightarrow> \<forall>x \<in> set xs. dots x = 0 \<Longrightarrow> dots (join_with sep xs) = 0"
  by (induction sep xs rule: join_with.induct) auto

lemma dots_encode [simp]: "dots (encode_id_part s) = 0"
  by (simp add: encode_id_part_def dots_join)

lemma dots_prefix: "dots (approval_candidate_id_prefix r responder) = 1"
  by (simp add: approval_candidate_id_prefix_def)

lemma suffix_unique:
  assumes "p @ ''.'' @ base36 m = q @ ''.'' @ base36 n"
  shows "m = n"
proof -
  have tail: "takeWhile (\<lambda>c. c \<noteq> CHR ''.'') (rev (p @ ''.'' @ base36 k)) = rev (base36 k)" for p k
    using takeWhile_stop [of "rev (base36 k)" "\<lambda>c. c \<noteq> CHR ''.''" "CHR ''.''" "rev p"]
      base36_digits [of k] digits36_facts(3) by auto
  from tail [of p m] tail [of q n] have "rev (base36 m) = rev (base36 n)" unfolding assms by (rule box_equals [OF refl])
  then show ?thesis by (simp add: base36_inj)
qed

definition known_id :: "approval_state \<Rightarrow> string \<Rightarrow> bool" where
  "known_id a i \<longleftrightarrow> (\<exists>(k, c) \<in> set (active_candidates a). i = k \<or> i = candidate_id c) \<or>
     (\<exists>h \<in> set (candidate_history a). i = audit_candidate h)"

lemma known_active: "(k, c) \<in> set (active_candidates a) \<Longrightarrow> known_id a k \<and> known_id a (candidate_id c)"
  by (auto simp: known_id_def)

lemma known_history: "h \<in> set (candidate_history a) \<Longrightarrow> known_id a (audit_candidate h)"
  by (auto simp: known_id_def)

lemma known_id_sequence [simp]: "known_id (a\<lparr>next_sequence := n\<rparr>) i = known_id a i"
  by (simp add: known_id_def)

definition minted :: "nat \<Rightarrow> string \<Rightarrow> bool" where
  \<comment> \<open>A bare prefix, or a prefix with a sequence number below the bound.\<close>
  "minted n i \<longleftrightarrow> dots i = 1 \<or> (\<exists>p k. dots p = 1 \<and> k < n \<and> i = p @ ''.'' @ base36 k)"

lemma minted_mono: "minted n i \<Longrightarrow> n \<le> m \<Longrightarrow> minted m i"
  by (auto simp: minted_def intro: less_le_trans)

definition mint_inv :: "approval_state \<Rightarrow> bool" where
  "mint_inv a \<longleftrightarrow> (\<forall>i. known_id a i \<longrightarrow> minted (next_sequence a) i)"

lemma next_id_free:
  assumes "mint_inv a" and "dots p = 1"
  shows "\<not> id_taken (p @ ''.'' @ base36 (next_sequence a)) a"
proof
  let ?i = "p @ ''.'' @ base36 (next_sequence a)"
  assume "id_taken ?i a"
  then have "known_id a ?i"
    by (auto simp: id_taken_def list_ex_iff dest!: map_of_SomeD dest: known_active known_history)
  with assms have "minted (next_sequence a) ?i" by (simp add: mint_inv_def)
  moreover have "dots ?i = 2" using assms(2) by simp
  ultimately obtain q k where "k < next_sequence a" "?i = q @ ''.'' @ base36 k" by (auto simp: minted_def)
  with suffix_unique [OF this(2)] show False by simp
qed

lemma set_update_subset: "set (AList.update k v xs) \<subseteq> insert (k, v) (set xs)"
  by (induction xs) auto

lemma set_entries_map: "set (entries_map xs) \<subseteq> set xs"
proof (induction xs rule: rev_induct)
  case (snoc x xs)
  have "entries_map (xs @ [x]) = AList.update (fst x) (snd x) (entries_map xs)" by (simp add: split_def)
  with snoc set_update_subset [of "fst x" "snd x" "entries_map xs"] show ?case by auto
qed simp

definition minting :: "nat \<Rightarrow> state_map option \<Rightarrow> bool" where
  "minting n s \<longleftrightarrow> mint_inv (read_approval_state s) \<and> next_sequence (read_approval_state s) \<le> n"

definition ids_within :: "approval_state \<Rightarrow> approval_state \<Rightarrow> bool" where
  "ids_within b a \<longleftrightarrow> next_sequence b = next_sequence a \<and> (\<forall>i. known_id b i \<longrightarrow> known_id a i)"

lemma minting_commit:
  assumes "minting n s" and "n \<le> max_safe_integer"
    and "\<And>a. f (read_approval_state s) = Some a \<Longrightarrow> ids_within a (read_approval_state s)"
  shows "minting n (commit f s)"
proof (cases "f (read_approval_state s)")
  case None
  with assms(1) show ?thesis by (simp add: minting_def read_commit)
next
  case (Some a)
  from assms(3) [OF this] assms(1,2) have "stored_sequence a = next_sequence a"
    by (simp add: minting_def ids_within_def stored_sequence_def)
  with Some assms(1) assms(3) [OF Some] show ?thesis
    by (simp add: minting_def read_commit mint_inv_def ids_within_def)
qed

lemma ids_withinI:
  assumes "next_sequence b = next_sequence a"
    and "\<And>k c. (k, c) \<in> set (active_candidates b) \<Longrightarrow> known_id a k \<and> known_id a (candidate_id c)"
    and "\<And>h. h \<in> set (candidate_history b) \<Longrightarrow> known_id a (audit_candidate h)"
  shows "ids_within b a"
  using assms unfolding ids_within_def known_id_def [of b] by blast

lemma set_active_update: "(k, d) \<in> set (active_candidates (update_active i c a)) \<Longrightarrow> (k, d) = (i, c) \<or> (k, d) \<in> set (active_candidates a)"
  using set_update_subset [of i c "active_candidates a"] by (auto simp: update_active_def)

lemma ids_within_update:
  assumes "map_of (active_candidates a) i = Some c" and "candidate_id c' = candidate_id c"
  shows "ids_within (update_active i c' a) a"
proof (rule ids_withinI)
  fix k d
  assume "(k, d) \<in> set (active_candidates (update_active i c' a))"
  with known_active [OF map_of_SomeD [OF assms(1)]] assms(2) show "known_id a k \<and> known_id a (candidate_id d)"
    by (auto dest!: set_active_update dest: known_active)
qed (simp_all add: known_history)

lemma ids_within_finish:
  assumes "map_of (active_candidates a) i = Some c"
  shows "ids_within (a\<lparr>active_candidates := AList.delete i (active_candidates a),
      candidate_history := candidate_history a @ [to_audit_record c t reason status]\<rparr>) a"
proof (rule ids_withinI)
  fix k d
  assume "(k, d) \<in> set (active_candidates (a\<lparr>active_candidates := AList.delete i (active_candidates a),
      candidate_history := candidate_history a @ [to_audit_record c t reason status]\<rparr>))"
  then have "(k, d) \<in> set (active_candidates a)" by (simp add: delete_conv [symmetric] AList.delete_eq)
  then show "known_id a k \<and> known_id a (candidate_id d)" by (rule known_active)
qed (use known_active [OF map_of_SomeD [OF assms]] in \<open>auto simp: to_audit_record_def known_history\<close>)

lemma ids_within_settle:
  assumes "settle actor chosen outcome r t a = Some b"
  shows "ids_within b a"
proof -
  let ?winners = "filter (\<lambda>c. candidate_request c \<noteq> r) (map snd (active_candidates a))"
  from assms have b: "active_candidates b = entries_map (map (\<lambda>c. (candidate_id c, c)) ?winners)"
      "next_sequence b = next_sequence a"
      "candidate_history b = candidate_history a @ map (\<lambda>c. to_audit_record c t None
         (if Some (candidate_id c) = chosen then Allowed else Stale)) (filter (\<lambda>c. candidate_request c = r) (map snd (active_candidates a)))"
    by (auto simp: settle_def simp del: entries_map.simps split: if_splits)
  have "set (active_candidates b) \<subseteq> (\<lambda>c. (candidate_id c, c)) ` set ?winners"
    unfolding b using set_entries_map [of "map (\<lambda>c. (candidate_id c, c)) ?winners"] by simp
  moreover have "known_id a (candidate_id c)" if "c \<in> snd ` set (active_candidates a)" for c
    using that by (auto dest: known_active)
  ultimately show ?thesis
    by (intro ids_withinI) (auto simp: b(2,3) to_audit_record_def known_history dest: known_active)
qed

lemma minting_finish:
  assumes "minting n s" "n \<le> max_safe_integer"
  shows "minting n (finish_approval_candidate i t reason status s)"
  unfolding finish_approval_candidate_def
  by (rule minting_commit [OF assms]) (auto intro: ids_within_finish split: option.splits)

lemma minting_expire:
  assumes "minting n s" "n \<le> max_safe_integer"
  shows "minting n (expire_approval_candidates t s)"
proof -
  have "minting n s \<Longrightarrow> minting n (expire_each now cs s)" for now cs
    using assms(2) by (induction now cs s rule: expire_each.induct) (simp_all add: minting_finish)
  with assms(1) show ?thesis by (simp add: expire_approval_candidates_def)
qed

lemma minting_settle:
  assumes "minting n s" "n \<le> max_safe_integer"
  shows "minting n (snd (settle_request actor chosen outcome q t s))"
  unfolding settle_request_def snd_conv by (rule minting_commit [OF assms]) (rule ids_within_settle)

lemma minting_create:
  assumes "minting n s" and n: "n < max_safe_integer" and "dots p = 1"
  shows "\<exists>changed s'. create_approval_candidate p created expires r responder s = Inr (changed, s') \<and> minting (n + 1) s'"
proof -
  let ?e = "expire_approval_candidates created s"
  let ?a = "read_approval_state ?e"
  from assms(1) n have m: "minting n ?e" by (simp add: minting_expire)
  then have inv: "mint_inv ?a" and le: "next_sequence ?a \<le> n" by (simp_all add: minting_def)
  have m': "minting (n + 1) ?e" using m by (simp add: minting_def)
  have "\<not> id_taken (if id_taken p ?a then p @ ''.'' @ base36 (next_sequence ?a) else p) ?a"
    using next_id_free [OF inv assms(3)] by simp
  then have "\<exists>z. create_approval_candidate p created expires r responder s = Inr z"
    by (simp add: create_approval_candidate_def Let_def ex_bool_eq)
  then obtain changed s' where c: "create_approval_candidate p created expires r responder s = Inr (changed, s')" by auto
  from create_cases [OF c] consider "s' = ?e" | i where "i = p \<or> i = p @ ''.'' @ base36 (next_sequence ?a)"
      "s' = write_approval_state ?e ((update_active i (new_candidate i r responder created expires) ?a)\<lparr>next_sequence := next_sequence ?a + 1\<rparr>)"
    by blast
  then have "minting (n + 1) s'"
  proof cases
    case 1
    with m' show ?thesis by simp
  next
    case 2
    note i = 2(1) and s' = 2(2)
    let ?b = "(update_active i (new_candidate i r responder created expires) ?a)\<lparr>next_sequence := next_sequence ?a + 1\<rparr>"
    have "minted (next_sequence ?a + 1) j" if "known_id ?b j" for j
    proof -
      from that have "known_id ?a j \<or> j = i"
        by (auto simp: known_id_def new_candidate_def dest!: set_active_update)
      then show ?thesis
      proof
        assume "known_id ?a j"
        with inv show ?thesis by (auto simp: mint_inv_def intro: minted_mono)
      next
        assume "j = i"
        with i assms(3) show ?thesis by (auto simp: minted_def)
      qed
    qed
    then have "mint_inv ?b" by (simp add: mint_inv_def)
    moreover have "stored_sequence ?b = next_sequence ?a + 1" using le n by (simp add: stored_sequence_def)
    ultimately show ?thesis using le by (simp add: minting_def s' mint_inv_def)
  qed
  with c show ?thesis by blast
qed

lemma minting_step:
  assumes "minting n s" and n: "n < max_safe_integer"
  shows "minting (n + 1) (approval_step s op)"
proof (cases op)
  case (Ask r responder created expires)
  from minting_create [OF assms dots_prefix [of r responder], of created expires r responder] obtain changed s' where
    "create_approval_candidate (approval_candidate_id_prefix r responder) created expires r responder s = Inr (changed, s')"
    "minting (n + 1) s'"
    by blast
  then show ?thesis by (simp add: Ask kept_state_def)
next
  case (Allow i t)
  have e: "minting n (expire_approval_candidates t s)" using assms by (simp add: minting_expire)
  have "minting n s'" if "settle_allowed_candidate i t s = Inr (changed, s')" for changed s'
    using allow_cases [OF that] e n by (auto intro: minting_settle)
  with assms show ?thesis by (auto simp: Allow kept_state_def minting_def split: sum.split)
next
  case (Emit_Pending i)
  have "minting n (mark_pending_emitted i s)"
    unfolding mark_pending_emitted_def
    by (rule minting_commit) (use assms in \<open>auto intro: ids_within_update split: option.splits if_splits\<close>)
  then show ?thesis by (simp add: Emit_Pending minting_def)
next
  case (Require_Authorization cs i e)
  have "minting n (mark_authorization_required cs i e s)"
    unfolding mark_authorization_required_def
    by (rule minting_commit) (use assms in \<open>auto intro: ids_within_update split: option.splits\<close>)
  then show ?thesis by (simp add: Require_Authorization minting_def)
next
  case (Emit_History i)
  have "minting n (mark_history_emitted i s)"
    unfolding mark_history_emitted_def
    by (rule minting_commit) (use assms in \<open>auto intro!: ids_withinI simp: known_active known_history split: if_splits\<close>)
  then show ?thesis by (simp add: Emit_History minting_def)
next
  case (Emit_Settlement q)
  have "minting n (mark_settlement_emitted q s)"
    unfolding mark_settlement_emitted_def
    by (rule minting_commit) (use assms in \<open>auto intro!: ids_withinI simp: known_active known_history split: option.splits if_splits\<close>)
  then show ?thesis by (simp add: Emit_Settlement minting_def)
next
  case (Answer_Directly actor outcome q t)
  have "minting n (snd (settle_direct_response actor outcome q t s))"
    using assms by (simp add: settle_direct_response_def minting_settle minting_expire)
  then show ?thesis by (simp add: Answer_Directly minting_def)
next
  case (Reject i t reason)
  have "minting n (finish_approval_candidate i t reason Rejected s)" using assms by (simp add: minting_finish)
  then show ?thesis by (simp add: Reject minting_def)
next
  case (Fail_Candidate i t reason)
  have "minting n (finish_approval_candidate i t reason Failed s)" using assms by (simp add: minting_finish)
  then show ?thesis by (simp add: Fail_Candidate minting_def)
next
  case (Expire t)
  have "minting n (expire_approval_candidates t s)" using assms by (simp add: minting_expire)
  then show ?thesis by (simp add: Expire minting_def)
qed

lemma minting_run:
  "length ops \<le> max_safe_integer \<Longrightarrow> minting (length ops) (foldl approval_step None ops)"
proof (induction ops rule: rev_induct)
  case Nil
  show ?case by (simp add: minting_def mint_inv_def known_id_def read_approval_state_def state_get_def no_approvals_def)
next
  case (snoc op ops)
  then show ?case using minting_step [of "length ops" "foldl approval_step None ops" op] by simp
qed

text \<open>
  C22: as long as fewer operations ran than there are safe integers, creating a candidate for the coordinator's
  prefix never throws: the id it picks is free, however often the same responder was refused before.
\<close>
theorem candidate_ids_never_collide:
  assumes "length ops < max_safe_integer"
  shows "\<exists>changed s. create_approval_candidate (approval_candidate_id_prefix r responder) created expires r responder
      (foldl approval_step None ops) = Inr (changed, s)"
proof -
  have "minting (length ops) (foldl approval_step None ops)" using assms by (simp add: minting_run)
  from minting_create [OF this assms dots_prefix] show ?thesis by blast
qed

section \<open>Two responders\<close>

text \<open>Two people approve one request; the second one's candidate is allowed first.\<close>

definition person :: "string \<Rightarrow> json" where
  "person n = JObj [(''authenticator'', JStr ''oidc''), (''principalId'', JStr n), (''principalType'', JStr ''user'')]"

definition id_of :: "string \<Rightarrow> string" where
  "id_of n = approval_candidate_id_prefix ''r'' (person n)"

lemma id_of_values: "id_of ''a'' = ''36.33-2x-2s-2r-1m-1m-39-37-2t-36-1m-2p''" "id_of ''b'' = ''36.33-2x-2s-2r-1m-1m-39-37-2t-36-1m-2q''"
  by code_simp+

lemma ids_differ: "id_of ''a'' \<noteq> id_of ''b''"
  by (simp add: id_of_values)

lemma persons_differ: "\<not> same_responder (person ''a'') (person ''b'')" "\<not> same_responder (person ''b'') (person ''a'')"
  by (simp_all add: same_responder_def person_def text_at_def jstr_def)

definition asked :: "string \<Rightarrow> active_candidate" where
  "asked n = new_candidate (id_of n) ''r'' (person n) 0 10"

definition both_ask :: "approval_op list" where
  "both_ask = [Ask ''r'' (person ''a'') 0 10, Ask ''r'' (person ''b'') 0 10]"

definition both_asked :: approval_state where
  "both_asked = \<lparr>active_candidates = [(id_of ''a'', asked ''a''), (id_of ''b'', asked ''b'')], next_sequence = 2,
     candidate_history = [], settlements = []\<rparr>"

definition b_allowed :: settlement where
  "b_allowed = \<lparr>settlement_actor = project_responder (person ''b''), settlement_outcome = Settled_Allowed,
     settlement_request = ''r'', settled_at = 2, settlement_candidate = Some (id_of ''b''), settlement_emitted = False\<rparr>"

definition decided :: approval_state where
  "decided = \<lparr>active_candidates = [], next_sequence = 2,
     candidate_history = [to_audit_record (asked ''a'') 2 None Stale, to_audit_record (asked ''b'') 2 None Allowed],
     settlements = [(''r'', b_allowed)]\<rparr>"

lemma read_none: "read_approval_state None = no_approvals"
  by (simp add: read_approval_state_def state_get_def)

lemma both_asked_run: "read_approval_state (foldl approval_step None both_ask) = both_asked"
  using ids_differ persons_differ
  by (simp add: both_ask_def create_approval_candidate_def expire_approval_candidates_def read_none no_approvals_def kept_state_def
    id_taken_def update_active_def stored_sequence_def max_safe_integer_def both_asked_def asked_def new_candidate_def id_of_def Let_def)

lemma decided_step:
  assumes s: "read_approval_state s = both_asked"
  shows "read_approval_state (approval_step s (Allow (id_of ''b'') 2)) = decided"
proof -
  have "expire_approval_candidates 2 s = s"
    unfolding expire_approval_candidates_def s by (simp add: both_asked_def asked_def new_candidate_def)
  then have "approval_step s (Allow (id_of ''b'') 2) =
      commit (settle (project_responder (person ''b'')) (Some (id_of ''b'')) Settled_Allowed ''r'' 2) s"
    using ids_differ unfolding approval_step.simps settle_allowed_candidate_def Let_def
    by (simp only: s) (simp add: both_asked_def settle_request_def kept_state_def asked_def new_candidate_def)
  then have "read_approval_state (approval_step s (Allow (id_of ''b'') 2)) =
      (case settle (project_responder (person ''b'')) (Some (id_of ''b'')) Settled_Allowed ''r'' 2 both_asked of
        None \<Rightarrow> both_asked | Some a \<Rightarrow> a\<lparr>next_sequence := stored_sequence a\<rparr>)"
    by (simp only: read_commit s)
  also have "\<dots> = decided"
    using ids_differ by (simp add: settle_def both_asked_def asked_def new_candidate_def stored_sequence_def max_safe_integer_def
      decided_def b_allowed_def)
  finally show ?thesis .
qed

lemma decided_run: "read_approval_state (foldl approval_step None (both_ask @ [Allow (id_of ''b'') 2])) = decided"
  using decided_step [OF both_asked_run] by simp

theorem approval_audit_consistent_witness:
  "names_winner decided (to_audit_record (asked ''b'') 2 None Allowed) \<and>
   \<not> names_winner decided (to_audit_record (asked ''a'') 2 None Stale)"
proof -
  let ?a = "to_audit_record (asked ''a'') 2 None Stale" and ?b = "to_audit_record (asked ''b'') 2 None Allowed"
  have "\<forall>h \<in> set (candidate_history decided). audit_status h = Allowed \<longleftrightarrow> names_winner decided h"
    using approval_audit_consistent [of "both_ask @ [Allow (id_of ''b'') 2]"] unfolding decided_run by blast
  moreover have "?a \<in> set (candidate_history decided)" "?b \<in> set (candidate_history decided)" by (simp_all add: decided_def)
  moreover have "audit_status ?a \<noteq> Allowed" "audit_status ?b = Allowed" by (simp_all add: to_audit_record_def)
  ultimately show ?thesis by metis
qed

theorem settlement_is_final_witness:
  "\<exists>b. map_of (settlements (read_approval_state (foldl approval_step (foldl approval_step None (both_ask @ [Allow (id_of ''b'') 2]))
      [Answer_Directly (person ''a'') Settled_Cancelled ''r'' 3, Emit_Settlement ''r'']))) ''r'' = Some (b_allowed\<lparr>settlement_emitted := b\<rparr>)"
proof -
  have "map_of (settlements (read_approval_state (foldl approval_step None (both_ask @ [Allow (id_of ''b'') 2])))) ''r'' = Some b_allowed"
    unfolding decided_run by (simp add: decided_def)
  from settlement_is_final [OF this, of "[Answer_Directly (person ''a'') Settled_Cancelled ''r'' 3, Emit_Settlement ''r'']"]
  show ?thesis by blast
qed

theorem candidate_stays_on_record_witness:
  "on_record (id_of ''a'') ''r'' (person ''a'')
     (read_approval_state (foldl approval_step (foldl approval_step None both_ask) [Allow (id_of ''b'') 2, Expire 100]))"
proof -
  have "map_of (active_candidates (read_approval_state (foldl approval_step None both_ask))) (id_of ''a'') = Some (asked ''a'')"
    unfolding both_asked_run by (simp add: both_asked_def)
  from candidate_stays_on_record [OF this, of "[Allow (id_of ''b'') 2, Expire 100]"] show ?thesis
    by (simp add: asked_def new_candidate_def)
qed

theorem candidate_ids_never_collide_witness:
  "\<exists>changed s. create_approval_candidate (approval_candidate_id_prefix ''r'' (person ''a'')) 3 13 ''r'' (person ''a'')
      (foldl approval_step None (both_ask @ [Reject (id_of ''a'') 2 None])) = Inr (changed, s)"
  by (rule candidate_ids_never_collide) (simp add: both_ask_def max_safe_integer_def)

end
