(* ===== verification/Usage_Limits.thy ===== *)
theory Usage_Limits
  imports Session_State
begin

text \<open>
  Token accounting and the session's usage limits (\<open>harness/turn-tag-state.ts\<close>,
  \<open>harness/session-usage-limits.ts\<close>, \<open>subagents/token-budget.ts\<close>). Token counts and dollar amounts
  are numbers of the language and are modelled as rationals: sums are exact here, while the code
  rounds costs to doubles. The three state entries are read with a cast, without a schema; the
  readers below return the numbers that the writers of this file store.
\<close>

section \<open>Limits\<close>

record usage_amounts =
  amount_cost :: "rat option"
  amount_input :: rat
  amount_output :: rat

record runtime_limits =
  limit_cost :: "rat option"
  limit_input :: "rat option"
  limit_output :: "rat option"

datatype violation =
    InputViolation rat rat \<comment> \<open>configured limit, used tokens\<close>
  | OutputViolation rat rat
  | CostViolation rat rat

definition resolve_runtime_usage_limits ::
  "runtime_limits \<Rightarrow> runtime_limits option \<Rightarrow> runtime_limits" where
  "resolve_runtime_usage_limits configured stored =
     \<lparr>limit_cost = nullish (case stored of None \<Rightarrow> None | Some s \<Rightarrow> limit_cost s) (limit_cost configured),
      limit_input = nullish (case stored of None \<Rightarrow> None | Some s \<Rightarrow> limit_input s) (limit_input configured),
      limit_output = nullish (case stored of None \<Rightarrow> None | Some s \<Rightarrow> limit_output s)
        (limit_output configured)\<rparr>"

definition cost_or_zero :: "usage_amounts \<Rightarrow> rat" where
  "cost_or_zero u = (case amount_cost u of None \<Rightarrow> 0 | Some c \<Rightarrow> c)"

definition grant_runtime_usage_limits :: "runtime_limits \<Rightarrow> usage_amounts \<Rightarrow> runtime_limits" where
  "grant_runtime_usage_limits configured u =
     \<lparr>limit_cost = map_option (\<lambda>c. cost_or_zero u + c) (limit_cost configured),
      limit_input = map_option (\<lambda>c. amount_input u + c) (limit_input configured),
      limit_output = map_option (\<lambda>c. amount_output u + c) (limit_output configured)\<rparr>"

definition remaining_runtime_usage_quota :: "runtime_limits \<Rightarrow> usage_amounts \<Rightarrow> runtime_limits" where
  \<comment> \<open>\<open>None\<close> is the \<open>false\<close> of an uncapped axis.\<close>
  "remaining_runtime_usage_quota runtime u =
     \<lparr>limit_cost = map_option (\<lambda>l. max 0 (l - cost_or_zero u)) (limit_cost runtime),
      limit_input = map_option (\<lambda>l. max 0 (l - amount_input u)) (limit_input runtime),
      limit_output = map_option (\<lambda>l. max 0 (l - amount_output u)) (limit_output runtime)\<rparr>"

fun exhausted :: "rat option \<Rightarrow> rat option \<Rightarrow> rat \<Rightarrow> bool" where
  \<comment> \<open>Capped at run time and by configuration, and used up.\<close>
  "exhausted (Some r) (Some c) used = (used \<ge> r)"
| "exhausted _ _ used = False"

definition find_runtime_usage_limit_violation ::
  "runtime_limits \<Rightarrow> runtime_limits \<Rightarrow> usage_amounts \<Rightarrow> violation option" where
  "find_runtime_usage_limit_violation configured runtime u =
     (if exhausted (limit_input runtime) (limit_input configured) (amount_input u)
        then Some (InputViolation (the (limit_input configured)) (amount_input u))
      else if exhausted (limit_output runtime) (limit_output configured) (amount_output u)
        then Some (OutputViolation (the (limit_output configured)) (amount_output u))
      else if exhausted (limit_cost runtime) (limit_cost configured) (cost_or_zero u)
        then Some (CostViolation (the (limit_cost configured)) (cost_or_zero u))
      else None)"

section \<open>Totals\<close>

record usage_totals =
  total_cache_read :: rat
  total_cache_write :: rat
  total_cost :: rat
  total_input :: rat
  total_output :: rat
  saw_cost :: bool

record turn_usage = usage_totals +
  session_totals :: usage_totals
  usage_turn :: string

record usage_delta =
  delta_cache_read :: "rat option"
  delta_cache_write :: "rat option"
  delta_cost :: "rat option"
  delta_input :: "rat option"
  delta_output :: "rat option"

record token_usage =
  used_cache_read :: rat
  used_cache_write :: rat
  used_cost :: "rat option"
  used_input :: rat
  used_output :: rat

definition zero_usage :: usage_totals where
  "zero_usage = \<lparr>total_cache_read = 0, total_cache_write = 0, total_cost = 0, total_input = 0,
     total_output = 0, saw_cost = False\<rparr>"

definition add_token_usage :: "'a usage_totals_scheme \<Rightarrow> usage_totals \<Rightarrow> usage_totals" where
  "add_token_usage base d =
     \<lparr>total_cache_read = total_cache_read base + total_cache_read d,
      total_cache_write = total_cache_write base + total_cache_write d,
      total_cost = total_cost base + total_cost d,
      total_input = total_input base + total_input d,
      total_output = total_output base + total_output d,
      saw_cost = (saw_cost base \<or> saw_cost d)\<rparr>"

definition or_zero :: "rat option \<Rightarrow> rat" where
  "or_zero x = (case x of None \<Rightarrow> 0 | Some n \<Rightarrow> n)"

definition to_token_usage_delta :: "usage_delta option \<Rightarrow> usage_totals" where
  "to_token_usage_delta u = (case u of
     None \<Rightarrow> zero_usage
   | Some d \<Rightarrow> \<lparr>total_cache_read = or_zero (delta_cache_read d),
       total_cache_write = or_zero (delta_cache_write d), total_cost = or_zero (delta_cost d),
       total_input = or_zero (delta_input d), total_output = or_zero (delta_output d),
       saw_cost = (delta_cost d \<noteq> None)\<rparr>)"

definition to_usage :: "usage_totals \<Rightarrow> token_usage" where
  "to_usage t = \<lparr>used_cache_read = total_cache_read t, used_cache_write = total_cache_write t,
     used_cost = (if saw_cost t then Some (total_cost t) else None), used_input = total_input t,
     used_output = total_output t\<rparr>"

definition accumulate_turn_usage ::
  "turn_usage option \<Rightarrow> string \<Rightarrow> usage_delta option \<Rightarrow> turn_usage" where
  "accumulate_turn_usage previous turn u =
     (let d = to_token_usage_delta u;
          previous_session = (case previous of None \<Rightarrow> zero_usage | Some p \<Rightarrow> session_totals p);
          base = (case previous of
            Some p \<Rightarrow> if usage_turn p = turn then usage_totals.truncate p else zero_usage
          | None \<Rightarrow> zero_usage)
      in usage_totals.extend (add_token_usage base d)
           (turn_usage.fields (add_token_usage previous_session d) turn))"

definition accumulate_session_usage :: "turn_usage option \<Rightarrow> usage_delta \<Rightarrow> turn_usage" where
  "accumulate_session_usage previous u =
     (let d = to_token_usage_delta (Some u);
          base = (case previous of
            Some p \<Rightarrow> p
          | None \<Rightarrow> usage_totals.extend zero_usage (turn_usage.fields zero_usage []))
      in base\<lparr>session_totals := add_token_usage (session_totals base) d\<rparr>)"

section \<open>State entries\<close>

definition turn_usage_key :: string where
  "turn_usage_key = ''eve.harness.turnUsage''"

definition reported_usage_key :: string where
  "reported_usage_key = ''eve.harness.reportedSessionUsage''"

definition runtime_limit_key :: string where
  "runtime_limit_key = ''eve.harness.sessionRuntimeTokenLimit''"

definition totals_members :: "'a usage_totals_scheme \<Rightarrow> (string \<times> json) list" where
  "totals_members t = [(''cacheReadTokens'', JNum (total_cache_read t)),
     (''cacheWriteTokens'', JNum (total_cache_write t)), (''costUsd'', JNum (total_cost t)),
     (''inputTokens'', JNum (total_input t)), (''outputTokens'', JNum (total_output t)),
     (''sawCost'', JBool (saw_cost t))]"

definition turn_usage_json :: "turn_usage \<Rightarrow> json" where
  "turn_usage_json t = JObj (totals_members t @
     [(''turnId'', JStr (usage_turn t)), (''session'', JObj (totals_members (session_totals t)))])"

definition limits_json :: "runtime_limits \<Rightarrow> json" where
  "limits_json l = JObj (opt_json ''inputTokens'' JNum (limit_input l) @
     opt_json ''outputTokens'' JNum (limit_output l) @ opt_json ''costUsd'' JNum (limit_cost l))"

definition number_at :: "json \<Rightarrow> string \<Rightarrow> rat option" where
  "number_at j k = (case jget j k of JNum n \<Rightarrow> Some n | _ \<Rightarrow> None)"

definition read_totals :: "json \<Rightarrow> usage_totals" where
  "read_totals j = \<lparr>total_cache_read = or_zero (number_at j ''cacheReadTokens''),
     total_cache_write = or_zero (number_at j ''cacheWriteTokens''),
     total_cost = or_zero (number_at j ''costUsd''), total_input = or_zero (number_at j ''inputTokens''),
     total_output = or_zero (number_at j ''outputTokens''), saw_cost = (jget j ''sawCost'' = JBool True)\<rparr>"

definition get_turn_usage_state :: "state_map option \<Rightarrow> turn_usage option" where
  "get_turn_usage_state s =
     (let j = state_get s turn_usage_key in
      if j = JUndef then None
      else Some (usage_totals.extend (read_totals j) (turn_usage.fields (read_totals (jget j ''session''))
        (case jstr j ''turnId'' of Some t \<Rightarrow> t | None \<Rightarrow> []))))"

definition get_session_token_usage :: "'a stateful_scheme \<Rightarrow> usage_totals" where
  "get_session_token_usage session = (case get_turn_usage_state (state session) of
     None \<Rightarrow> zero_usage | Some t \<Rightarrow> session_totals t)"

definition set_turn_usage_state :: "'a stateful_scheme \<Rightarrow> turn_usage \<Rightarrow> 'a stateful_scheme" where
  "set_turn_usage_state session t =
     session\<lparr>state := Some (state_put turn_usage_key (turn_usage_json t) (state session))\<rparr>"

definition configured_session_usage_limits :: "harness_session \<Rightarrow> runtime_limits" where
  "configured_session_usage_limits session = (case limits session of
     None \<Rightarrow> \<lparr>limit_cost = None, limit_input = None, limit_output = None\<rparr>
   | Some l \<Rightarrow> \<lparr>limit_cost = max_token_cost_usd l, limit_input = max_input_tokens l,
       limit_output = max_output_tokens l\<rparr>)"

definition stored_runtime_limits :: "state_map option \<Rightarrow> runtime_limits option" where
  "stored_runtime_limits s =
     (let j = state_get s runtime_limit_key in
      if j = JUndef then None
      else Some \<lparr>limit_cost = number_at j ''costUsd'', limit_input = number_at j ''inputTokens'',
        limit_output = number_at j ''outputTokens''\<rparr>)"

definition get_session_runtime_usage_limits :: "harness_session \<Rightarrow> runtime_limits" where
  "get_session_runtime_usage_limits session =
     resolve_runtime_usage_limits (configured_session_usage_limits session)
       (stored_runtime_limits (state session))"

definition amounts :: "usage_totals \<Rightarrow> usage_amounts" where
  \<comment> \<open>The totals as the limit functions read them: their cost is always a number.\<close>
  "amounts t = \<lparr>amount_cost = Some (total_cost t), amount_input = total_input t,
     amount_output = total_output t\<rparr>"

definition bump_session_runtime_usage_limits :: "harness_session \<Rightarrow> harness_session" where
  "bump_session_runtime_usage_limits session =
     (let bumped = grant_runtime_usage_limits (configured_session_usage_limits session)
            (amounts (get_session_token_usage session))
      in session\<lparr>state := Some (state_put runtime_limit_key (limits_json bumped) (state session))\<rparr>)"

definition get_session_remaining_usage_quota :: "harness_session \<Rightarrow> runtime_limits" where
  "get_session_remaining_usage_quota session =
     remaining_runtime_usage_quota (get_session_runtime_usage_limits session)
       (amounts (get_session_token_usage session))"

definition get_session_usage_limit_violation :: "harness_session \<Rightarrow> violation option" where
  "get_session_usage_limit_violation session =
     find_runtime_usage_limit_violation (configured_session_usage_limits session)
       (get_session_runtime_usage_limits session) (amounts (get_session_token_usage session))"

definition reported_usage :: "state_map option \<Rightarrow> usage_totals" where
  "reported_usage s = (let j = state_get s reported_usage_key in
     if j = JUndef \<or> j = JNull then zero_usage else read_totals j)"

definition take_session_usage_delta :: "'a stateful_scheme \<Rightarrow> token_usage \<times> 'a stateful_scheme" where
  "take_session_usage_delta session =
     (let totals = get_session_token_usage session;
          reported = reported_usage (state session)
      in (\<lparr>used_cache_read = total_cache_read totals - total_cache_read reported,
           used_cache_write = total_cache_write totals - total_cache_write reported,
           used_cost = (if saw_cost totals \<or> saw_cost reported
             then Some (total_cost totals - total_cost reported) else None),
           used_input = total_input totals - total_input reported,
           used_output = total_output totals - total_output reported\<rparr>,
          session\<lparr>state := Some (state_put reported_usage_key (JObj (totals_members totals))
            (state session))\<rparr>))"

section \<open>Budgets of delegated children\<close>

record run_limits =
  child_input :: "rat option"
  child_output :: "rat option"
  child_cost :: "rat option"

definition resolve_remaining_session_token_limits :: "harness_session \<Rightarrow> rat \<Rightarrow> run_limits" where
  "resolve_remaining_session_token_limits session fanout =
     (let n = max 1 (of_int \<lfloor>fanout\<rfloor> :: rat);
          remaining = get_session_remaining_usage_quota session
      in \<lparr>child_input = map_option (\<lambda>r. of_int \<lfloor>r / n\<rfloor>) (limit_input remaining),
          child_output = map_option (\<lambda>r. of_int \<lfloor>r / n\<rfloor>) (limit_output remaining),
          child_cost = map_option (\<lambda>r. r / n) (limit_cost remaining)\<rparr>)"

section \<open>Reading back\<close>

lemma keys_differ [simp]:
  "turn_usage_key \<noteq> reported_usage_key" "reported_usage_key \<noteq> turn_usage_key"
  "turn_usage_key \<noteq> runtime_limit_key" "runtime_limit_key \<noteq> turn_usage_key"
  "reported_usage_key \<noteq> runtime_limit_key" "runtime_limit_key \<noteq> reported_usage_key"
  by (simp_all add: turn_usage_key_def reported_usage_key_def runtime_limit_key_def)

lemma or_zero_Some [simp]: "or_zero (Some n) = n"
  by (simp add: or_zero_def)

lemma read_totals_members [simp]:
  "read_totals (JObj (totals_members t @ ps)) = usage_totals.truncate t"
  "read_totals (JObj (totals_members t)) = usage_totals.truncate t"
  by (simp_all add: read_totals_def totals_members_def number_at_def usage_totals.defs)

lemma turn_usage_read [simp]:
  "get_turn_usage_state (Some (state_put turn_usage_key (turn_usage_json t) s)) = Some t"
proof -
  have "jget (turn_usage_json t) ''session'' = JObj (totals_members (session_totals t))"
    "jstr (turn_usage_json t) ''turnId'' = Some (usage_turn t)"
    by (simp_all add: turn_usage_json_def totals_members_def jstr_def)
  moreover have "turn_usage_json t \<noteq> JUndef" by (simp add: turn_usage_json_def)
  moreover have "read_totals (turn_usage_json t) = usage_totals.truncate t"
    by (simp add: turn_usage_json_def)
  moreover have "usage_totals.truncate (session_totals t) = session_totals t"
    by (cases "session_totals t") (simp add: usage_totals.defs)
  ultimately show ?thesis
    by (cases t) (simp add: get_turn_usage_state_def usage_totals.defs turn_usage.defs)
qed

lemma turn_usage_other [simp]:
  "k \<noteq> turn_usage_key \<Longrightarrow> get_turn_usage_state (Some (state_put k v s)) = get_turn_usage_state s"
  by (simp add: get_turn_usage_state_def)

interpretation usage_slot:
  state_slot turn_usage_key "\<lambda>t m. state_put turn_usage_key (turn_usage_json t) (Some m)"
    "\<lambda>m. get_turn_usage_state (Some m)" Some "\<lambda>_. True"
proof unfold_locales
  fix s t :: state_map
  assume "map_of s turn_usage_key = map_of t turn_usage_key"
  then have "state_get (Some s) turn_usage_key = state_get (Some t) turn_usage_key"
    by (intro state_get_cong) simp
  then show "get_turn_usage_state (Some s) = get_turn_usage_state (Some t)"
    by (simp add: get_turn_usage_state_def)
next
  show "map_of (state_put turn_usage_key (turn_usage_json v) (Some m)) k = map_of m k"
    if "k \<noteq> turn_usage_key" for k v m
    using that by (simp add: state_put_def update_conv')
qed simp

lemma reported_usage_read [simp]:
  "reported_usage (Some (state_put reported_usage_key (JObj (totals_members t)) s)) = usage_totals.truncate t"
  "k \<noteq> reported_usage_key \<Longrightarrow> reported_usage (Some (state_put k v s)) = reported_usage s"
  by (simp_all add: reported_usage_def)

lemma stored_limits_read [simp]:
  "stored_runtime_limits (Some (state_put runtime_limit_key (limits_json l) s)) = Some l"
  "k \<noteq> runtime_limit_key \<Longrightarrow> stored_runtime_limits (Some (state_put k v s)) = stored_runtime_limits s"
proof -
  have "number_at (limits_json l) ''costUsd'' = limit_cost l" "number_at (limits_json l) ''inputTokens'' = limit_input l"
    "number_at (limits_json l) ''outputTokens'' = limit_output l"
    by (cases "limit_cost l"; cases "limit_input l"; cases "limit_output l";
        simp add: number_at_def limits_json_def)+
  then show "stored_runtime_limits (Some (state_put runtime_limit_key (limits_json l) s)) = Some l"
    by (simp add: stored_runtime_limits_def, simp add: limits_json_def)
qed (simp add: stored_runtime_limits_def)

lemma token_usage_set [simp]: "get_session_token_usage (set_turn_usage_state s t) = session_totals t"
  by (simp add: get_session_token_usage_def set_turn_usage_state_def)

section \<open>A grant buys exactly one window\<close>

definition in_window :: "rat option \<Rightarrow> rat \<Rightarrow> rat \<Rightarrow> bool" where
  \<comment> \<open>The usage grew by less than the window, if there is one.\<close>
  "in_window window old new \<longleftrightarrow> (\<forall>w. window = Some w \<longrightarrow> new < old + w)"

lemma exhausted_grant: "exhausted (map_option (\<lambda>c. b + c) w) w u \<longleftrightarrow> \<not> in_window w b u"
  by (cases w) (auto simp: in_window_def)

lemma resolve_granted:
  "resolve_runtime_usage_limits configured (Some (grant_runtime_usage_limits configured u)) =
     grant_runtime_usage_limits configured u"
  by (cases "limit_cost configured"; cases "limit_input configured"; cases "limit_output configured")
    (simp_all add: resolve_runtime_usage_limits_def grant_runtime_usage_limits_def nullish_def)

lemma configured_limits_of_state [simp]:
  "configured_session_usage_limits (s\<lparr>state := x\<rparr>) = configured_session_usage_limits s"
  by (simp add: configured_session_usage_limits_def)

lemma violation_after_grant:
  defines "c s \<equiv> configured_session_usage_limits s"
  shows "get_session_usage_limit_violation (set_turn_usage_state (bump_session_runtime_usage_limits s) t) = None \<longleftrightarrow>
    in_window (limit_input (c s)) (total_input (get_session_token_usage s)) (total_input (session_totals t)) \<and>
    in_window (limit_output (c s)) (total_output (get_session_token_usage s)) (total_output (session_totals t)) \<and>
    in_window (limit_cost (c s)) (total_cost (get_session_token_usage s)) (total_cost (session_totals t))"
proof -
  let ?s = "set_turn_usage_state (bump_session_runtime_usage_limits s) t"
  have "get_session_runtime_usage_limits ?s =
      grant_runtime_usage_limits (c s) (amounts (get_session_token_usage s))"
    by (simp add: get_session_runtime_usage_limits_def set_turn_usage_state_def
        bump_session_runtime_usage_limits_def Let_def resolve_granted c_def)
  moreover have "configured_session_usage_limits ?s = c s"
    by (simp add: set_turn_usage_state_def bump_session_runtime_usage_limits_def Let_def c_def)
  ultimately show ?thesis
    by (simp add: get_session_usage_limit_violation_def find_runtime_usage_limit_violation_def
        grant_runtime_usage_limits_def exhausted_grant amounts_def cost_or_zero_def)
qed

section \<open>Children together stay within the remainder\<close>

lemma fanout_share:
  assumes "1 \<le> (n :: rat)" and "0 \<le> r"
  shows "0 \<le> (of_int \<lfloor>r / n\<rfloor> :: rat)" and "of_int \<lfloor>r / n\<rfloor> * n \<le> r" and "r < (of_int \<lfloor>r / n\<rfloor> + 1) * n"
proof -
  have n: "0 < n" using assms by simp
  show "0 \<le> (of_int \<lfloor>r / n\<rfloor> :: rat)" using n assms by simp
  show "of_int \<lfloor>r / n\<rfloor> * n \<le> r"
    using of_int_floor_le [of "r / n"] pos_le_divide_eq [OF n] by blast
  have "r / n < of_int \<lfloor>r / n\<rfloor> + 1" by linarith
  then show "r < (of_int \<lfloor>r / n\<rfloor> + 1) * n" using n by (simp add: pos_divide_less_eq)
qed

lemma remaining_nonneg:
  "limit_input (get_session_remaining_usage_quota s) = Some r \<Longrightarrow> 0 \<le> r"
  "limit_output (get_session_remaining_usage_quota s) = Some r \<Longrightarrow> 0 \<le> r"
  "limit_cost (get_session_remaining_usage_quota s) = Some r \<Longrightarrow> 0 \<le> r"
  by (auto simp: get_session_remaining_usage_quota_def remaining_runtime_usage_quota_def)

section \<open>Deltas add up\<close>

datatype usage_operation =
    StepUsage string "usage_delta option" \<comment> \<open>one model call of a turn\<close>
  | ChildUsage usage_delta
  | TakeDelta

fun usage_step :: "'a stateful_scheme \<Rightarrow> usage_operation \<Rightarrow> token_usage list \<times> 'a stateful_scheme" where
  "usage_step s (StepUsage turn u) =
     ([], set_turn_usage_state s (accumulate_turn_usage (get_turn_usage_state (state s)) turn u))"
| "usage_step s (ChildUsage u) =
     ([], set_turn_usage_state s (accumulate_session_usage (get_turn_usage_state (state s)) u))"
| "usage_step s TakeDelta = (case take_session_usage_delta s of (d, s') \<Rightarrow> ([d], s'))"

fun usage_run :: "'a stateful_scheme \<Rightarrow> usage_operation list \<Rightarrow> token_usage list \<times> 'a stateful_scheme" where
  "usage_run s [] = ([], s)"
| "usage_run s (op # ops) =
     (case usage_step s op of (ds, s') \<Rightarrow> (case usage_run s' ops of (es, s'') \<Rightarrow> (ds @ es, s'')))"

fun operation_usage :: "usage_operation \<Rightarrow> usage_totals" where
  "operation_usage (StepUsage turn u) = to_token_usage_delta u"
| "operation_usage (ChildUsage u) = to_token_usage_delta (Some u)"
| "operation_usage TakeDelta = zero_usage"

text \<open>A total without a reported cost is zero on that axis.\<close>

definition costs_seen :: "usage_totals \<Rightarrow> bool" where
  "costs_seen t \<longleftrightarrow> saw_cost t \<or> total_cost t = 0"

lemma costs_seen_add: "costs_seen a \<Longrightarrow> costs_seen b \<Longrightarrow> costs_seen (add_token_usage a b)"
  by (auto simp: costs_seen_def add_token_usage_def)

lemma costs_seen_delta [simp]: "costs_seen (to_token_usage_delta u)"
  by (auto simp: costs_seen_def to_token_usage_delta_def zero_usage_def or_zero_def split: option.split)

lemma session_after_step:
  "session_totals (accumulate_turn_usage p turn u) =
     add_token_usage (case p of None \<Rightarrow> zero_usage | Some t \<Rightarrow> session_totals t) (to_token_usage_delta u)"
  by (simp add: accumulate_turn_usage_def Let_def usage_totals.defs turn_usage.defs)

lemma session_after_child:
  "session_totals (accumulate_session_usage p d) =
     add_token_usage (case p of None \<Rightarrow> zero_usage | Some t \<Rightarrow> session_totals t) (to_token_usage_delta (Some d))"
  by (simp add: accumulate_session_usage_def Let_def usage_totals.defs turn_usage.defs split: option.split)

lemma add_zero_usage [simp]: "add_token_usage t zero_usage = (t :: usage_totals)"
  by (simp add: add_token_usage_def zero_usage_def)

lemma usage_step_totals:
  "get_session_token_usage (snd (usage_step s op)) = add_token_usage (get_session_token_usage s) (operation_usage op)"
  by (cases op) (simp_all add: session_after_step session_after_child get_session_token_usage_def [of s],
      simp add: take_session_usage_delta_def get_session_token_usage_def Let_def)

lemma truncate_totals [simp]: "usage_totals.truncate t = (t :: usage_totals)"
  by (simp add: usage_totals.defs)

lemma usage_step_costs:
  assumes "costs_seen (get_session_token_usage s)" and "costs_seen (reported_usage (state s))"
  shows "costs_seen (get_session_token_usage (snd (usage_step s op)))"
    and "costs_seen (reported_usage (state (snd (usage_step s op))))"
proof -
  have "costs_seen (operation_usage op)" by (cases op) (simp_all, simp add: costs_seen_def zero_usage_def)
  then show "costs_seen (get_session_token_usage (snd (usage_step s op)))"
    using assms(1) by (simp only: usage_step_totals costs_seen_add)
  show "costs_seen (reported_usage (state (snd (usage_step s op))))"
    using assms by (cases op) (simp_all add: set_turn_usage_state_def take_session_usage_delta_def Let_def)
qed

text \<open>An axis of the totals and the same axis of a delta.\<close>

definition same_axis :: "(usage_totals \<Rightarrow> rat) \<Rightarrow> (token_usage \<Rightarrow> rat) \<Rightarrow> bool" where
  "same_axis f g \<longleftrightarrow> f zero_usage = 0 \<and> (\<forall>a b. f (add_token_usage a b) = f a + f b) \<and>
     (\<forall>s :: stateful. costs_seen (get_session_token_usage s) \<longrightarrow> costs_seen (reported_usage (state s)) \<longrightarrow>
        g (fst (take_session_usage_delta s)) = f (get_session_token_usage s) - f (reported_usage (state s)))"

lemma axes:
  "same_axis total_input used_input" "same_axis total_output used_output"
  "same_axis total_cache_read used_cache_read" "same_axis total_cache_write used_cache_write"
  "same_axis total_cost (or_zero \<circ> used_cost)"
  by (auto simp: same_axis_def zero_usage_def add_token_usage_def take_session_usage_delta_def Let_def
      costs_seen_def or_zero_def)

lemma usage_step_reported:
  assumes "same_axis f g" and "costs_seen (get_session_token_usage s)" and "costs_seen (reported_usage (state s))"
  shows "sum_list (map g (fst (usage_step (s :: stateful) op))) =
    f (reported_usage (state (snd (usage_step s op)))) - f (reported_usage (state s))"
proof (cases op)
  case TakeDelta
  have "reported_usage (state (snd (take_session_usage_delta s))) = get_session_token_usage s"
    by (simp add: take_session_usage_delta_def Let_def)
  moreover have "g (fst (take_session_usage_delta s)) =
      f (get_session_token_usage s) - f (reported_usage (state s))"
    using assms by (simp add: same_axis_def)
  ultimately show ?thesis
    using TakeDelta by (cases "take_session_usage_delta s") simp
qed (simp_all add: set_turn_usage_state_def)

lemma usage_run_reported:
  assumes "same_axis f g" and "costs_seen (get_session_token_usage s)" and "costs_seen (reported_usage (state s))"
    and "usage_run (s :: stateful) ops = (ds, s')"
  shows "sum_list (map g ds) = f (reported_usage (state s')) - f (reported_usage (state s)) \<and>
    f (get_session_token_usage s') = f (get_session_token_usage s) + sum_list (map (f \<circ> operation_usage) ops)"
  using assms(2-)
proof (induction ops arbitrary: s ds)
  case (Cons op ops)
  obtain d s1 where step: "usage_step s op = (d, s1)" by force
  obtain es where run: "usage_run s1 ops = (es, s')" and ds: "ds = d @ es"
    using Cons.prems(3) step by (cases "usage_run s1 ops") auto
  have "costs_seen (get_session_token_usage s1)" "costs_seen (reported_usage (state s1))"
    using usage_step_costs [OF Cons.prems(1,2), of op] step by simp_all
  from Cons.IH [OF this run] usage_step_reported [OF assms(1) Cons.prems(1,2), of op] usage_step_totals [of s op]
  show ?case using assms(1) step by (simp add: ds same_axis_def)
qed simp

lemma usage_run_append:
  "usage_run s (ops @ ops') = (case usage_run s ops of (ds, s') \<Rightarrow>
     (case usage_run s' ops' of (es, s'') \<Rightarrow> (ds @ es, s'')))"
  by (induction ops arbitrary: s) (auto split: prod.splits)

lemma deltas_sum:
  assumes "same_axis f g" and "get_turn_usage_state (state s) = None" and "reported_usage (state s) = zero_usage"
    and "usage_run (s :: stateful) (ops @ [TakeDelta]) = (ds, s')"
  shows "sum_list (map g ds) = sum_list (map (f \<circ> operation_usage) ops)"
proof -
  have z: "get_session_token_usage s = zero_usage" using assms(2) by (simp add: get_session_token_usage_def)
  have c: "costs_seen zero_usage" by (simp add: costs_seen_def zero_usage_def)
  note run = usage_run_reported [OF assms(1) _ _ assms(4)]
  obtain es s1 where "usage_run s ops = (es, s1)" by force
  with assms(4) have "s' = snd (take_session_usage_delta s1)"
    by (auto simp: usage_run_append split: prod.splits)
  then have "reported_usage (state s') = get_session_token_usage s'"
    by (simp add: take_session_usage_delta_def Let_def get_session_token_usage_def)
  with run z assms(1,3) c show ?thesis by (simp add: same_axis_def)
qed

end
