(* ===== verification/Step_Input.thy ===== *)
theory Step_Input
  imports Session_State Json_Text
begin

text \<open>
  The input of one harness step and how two inputs are merged (\<open>harness/messages.ts\<close>,
  \<open>internal/client-context.ts\<close>, \<open>StepInput\<close> of \<open>harness/types.ts\<close>), the model-bound message
  clean-up of the same file, and the merge of queued deliveries. Model messages and user-content parts
  stay \<open>json\<close>; a user message is text or a list of parts. The actor attribution of a step input is
  not read or written by any function here.
\<close>

section \<open>User content\<close>

datatype user_content = Text string | Parts "json list"

definition blank :: "string \<Rightarrow> bool" where
  "blank s \<longleftrightarrow> trim s = []"

definition part_text :: "json \<Rightarrow> string" where
  "part_text p = (case jstr p ''text'' of Some t \<Rightarrow> t | None \<Rightarrow> [])"

definition visible_part :: "json \<Rightarrow> bool" where
  \<comment> \<open>\<open>part.type !== "text" || part.text.trim().length > 0\<close>\<close>
  "visible_part p \<longleftrightarrow> jget p ''type'' \<noteq> JStr ''text'' \<or> \<not> blank (part_text p)"

fun normalize_user_content :: "user_content option \<Rightarrow> user_content option" where
  "normalize_user_content None = None"
| "normalize_user_content (Some (Text s)) = (if \<not> blank s then Some (Text s) else None)"
| "normalize_user_content (Some (Parts ps)) =
     (let kept = filter visible_part ps in
      if kept = [] then None else if length kept = length ps then Some (Parts ps) else Some (Parts kept))"

definition text_part :: "string \<Rightarrow> json" where
  "text_part s = JObj [(''type'', JStr ''text''), (''text'', JStr s)]"

fun to_user_content_array :: "user_content \<Rightarrow> json list" where
  "to_user_content_array (Text s) = (if s \<noteq> [] then [text_part s] else [])"
| "to_user_content_array (Parts ps) = ps"

definition append_user_content :: "user_content \<Rightarrow> user_content \<Rightarrow> user_content" where
  \<comment> \<open>The existing content, then the appended one.\<close>
  "append_user_content existing appended = (case (existing, appended) of
     (Text a, Text b) \<Rightarrow> Text (a @ [CHR 0x0A, CHR 0x0A] @ b)
   | _ \<Rightarrow> Parts (to_user_content_array existing @ to_user_content_array appended))"

definition coalesce_message :: "user_content option \<Rightarrow> user_content option \<Rightarrow> user_content option" where
  "coalesce_message a b = (case (normalize_user_content a, normalize_user_content b) of
     (None, y) \<Rightarrow> y | (x, None) \<Rightarrow> x | (Some x, Some y) \<Rightarrow> Some (append_user_content x y))"

section \<open>Step input\<close>

record step_input =
  input_responses :: "json list option"
  message :: "user_content option"
  context_lines :: "string list option"
  client_context :: "string list option"
  output_schema :: "json option"
  message_consumed :: bool

definition empty_input :: step_input where
  "empty_input = \<lparr>input_responses = None, message = None, context_lines = None, client_context = None,
     output_schema = None, message_consumed = False\<rparr>"

definition or_empty :: "'a list option \<Rightarrow> 'a list" where
  "or_empty x = (case x of None \<Rightarrow> [] | Some xs \<Rightarrow> xs)"

definition coalesce_lists :: "'a list option \<Rightarrow> 'a list option \<Rightarrow> 'a list option" where
  "coalesce_lists a b =
     (if or_empty a = [] \<and> or_empty b = [] then None else Some (or_empty a @ or_empty b))"

definition coalesce_turn_inputs :: "step_input \<Rightarrow> step_input \<Rightarrow> step_input" where
  "coalesce_turn_inputs a b =
     \<lparr>input_responses = coalesce_lists (input_responses a) (input_responses b),
      message = coalesce_message (message a) (message b),
      context_lines = coalesce_lists (context_lines a) (context_lines b),
      client_context = coalesce_lists (client_context a) (client_context b),
      output_schema = (case output_schema b of None \<Rightarrow> output_schema a | Some s \<Rightarrow> Some s),
      message_consumed = False\<rparr>"

section \<open>Model messages\<close>

definition normalize_model_messages :: "json list \<Rightarrow> json list" where
  "normalize_model_messages ms = concat (map (\<lambda>m.
     case jget m ''content'' of
       JStr s \<Rightarrow> if \<not> blank s then [m] else []
     | JArr ps \<Rightarrow>
         (let kept = filter visible_part ps in
          if kept = [] then [] else if length kept = length ps then [m]
          else (case m of JObj fs \<Rightarrow> [JObj (AList.update ''content'' (JArr kept) fs)] | _ \<Rightarrow> [m]))
     | _ \<Rightarrow> [m]) ms)"

definition extract_message_text :: "json \<Rightarrow> string" where
  "extract_message_text m = (case jget m ''content'' of
     JStr s \<Rightarrow> s
   | JArr ps \<Rightarrow> concat (map (\<lambda>p. case p of JStr s \<Rightarrow> s
       | _ \<Rightarrow> if jget p ''type'' = JStr ''text'' then part_text p else []) ps)
   | _ \<Rightarrow> [])"

definition resolve_assistant_step_text :: "json list \<Rightarrow> string option \<Rightarrow> string option" where
  "resolve_assistant_step_text ms fallback =
     (case find (\<lambda>m. jget m ''role'' = JStr ''assistant'' \<and> \<not> blank (extract_message_text m)) (rev ms) of
        Some m \<Rightarrow> Some (extract_message_text m)
      | None \<Rightarrow> (case fallback of Some t \<Rightarrow> if \<not> blank t then Some t else None | None \<Rightarrow> None))"

definition has_tail_approval_response :: "json list \<Rightarrow> bool" where
  \<comment> \<open>\<open>harness/current-messages.ts\<close>\<close>
  "has_tail_approval_response ms =
     (if ms = [] then False
      else jget (last ms) ''role'' = JStr ''tool'' \<and>
        (case jget (last ms) ''content'' of
           JArr ps \<Rightarrow> list_ex (\<lambda>p. jget p ''type'' = JStr ''tool-approval-response'') ps
         | _ \<Rightarrow> False))"

section \<open>Queued deliveries\<close>

record delivery_metadata =
  payload_index :: nat
  metadata_rest :: json

record 'p delivery =
  delivery_auth :: "json option" \<comment> \<open>absent, or a value that may be null\<close>
  delivery_caller :: "json option"
  delivery_metadata :: "delivery_metadata list"
  delivery_payloads :: "'p list"
  delivery_rest :: json

datatype delivery_error = EmptyBatch | DifferentTurns

definition shift_metadata :: "nat \<Rightarrow> delivery_metadata \<Rightarrow> delivery_metadata" where
  "shift_metadata n e = e\<lparr>payload_index := payload_index e + n\<rparr>"

definition coalesce_delivery :: "('p, 'm) delivery_scheme \<Rightarrow> ('p, 'm) delivery_scheme \<Rightarrow> delivery_error + ('p, 'm) delivery_scheme" where
  \<comment> \<open>One round of the loop, on the item built so far.\<close>
  "coalesce_delivery acc item =
     (if delivery_caller item \<noteq> None \<and> delivery_caller acc \<noteq> None then Inl DifferentTurns
      else Inr (acc\<lparr>
        delivery_auth := (case delivery_auth item of None \<Rightarrow> delivery_auth acc | Some a \<Rightarrow> Some a),
        delivery_caller := (case delivery_caller item of None \<Rightarrow> delivery_caller acc | Some c \<Rightarrow> Some c),
        delivery_payloads := delivery_payloads acc @ delivery_payloads item,
        delivery_metadata := delivery_metadata acc @
          map (shift_metadata (length (delivery_payloads acc))) (delivery_metadata item)\<rparr>))"

fun coalesce_rest :: "('p, 'm) delivery_scheme \<Rightarrow> ('p, 'm) delivery_scheme list \<Rightarrow> delivery_error + ('p, 'm) delivery_scheme" where
  "coalesce_rest acc [] = Inr acc"
| "coalesce_rest acc (x # xs) = bindR (coalesce_delivery acc x) (\<lambda>a. coalesce_rest a xs)"

fun coalesce_deliveries :: "('p, 'm) delivery_scheme list \<Rightarrow> delivery_error + ('p, 'm) delivery_scheme" where
  "coalesce_deliveries [] = Inl EmptyBatch"
| "coalesce_deliveries (x # xs) = coalesce_rest x xs"

section \<open>Merged deliveries\<close>

lemma or_empty_coalesce [simp]: "or_empty (coalesce_lists a b) = or_empty a @ or_empty b"
  by (cases a; cases b) (auto simp: coalesce_lists_def or_empty_def)

definition tagged :: "('p, 'm) delivery_scheme \<Rightarrow> (json \<times> 'p) list" where
  \<comment> \<open>Each metadata entry with the payload it points at.\<close>
  "tagged d = map (\<lambda>e. (metadata_rest e, delivery_payloads d ! payload_index e)) (delivery_metadata d)"

definition wf_delivery :: "('p, 'm) delivery_scheme \<Rightarrow> bool" where
  "wf_delivery d \<longleftrightarrow> (\<forall>e \<in> set (delivery_metadata d). payload_index e < length (delivery_payloads d))"

lemma coalesce_delivery_spec:
  assumes "coalesce_delivery a b = Inr c" and "wf_delivery a" and "wf_delivery b"
  shows "wf_delivery c \<and> tagged c = tagged a @ tagged b \<and>
    delivery_payloads c = delivery_payloads a @ delivery_payloads b"
proof -
  have c: "delivery_payloads c = delivery_payloads a @ delivery_payloads b"
    "delivery_metadata c = delivery_metadata a @
       map (shift_metadata (length (delivery_payloads a))) (delivery_metadata b)"
    using assms(1) by (auto simp: coalesce_delivery_def split: if_splits)
  have "payload_index e < length (delivery_payloads c)" if "e \<in> set (delivery_metadata c)" for e
  proof (cases "e \<in> set (delivery_metadata a)")
    case True
    with assms(2) show ?thesis by (simp add: c wf_delivery_def trans_less_add1)
  next
    case False
    with that assms(3) show ?thesis by (auto simp: c wf_delivery_def shift_metadata_def)
  qed
  moreover have "tagged c = tagged a @ tagged b"
    using assms(2) by (auto simp: tagged_def c wf_delivery_def shift_metadata_def nth_append)
  ultimately show ?thesis by (simp add: wf_delivery_def c)
qed

lemma coalesce_rest_spec:
  "coalesce_rest a ds = Inr c \<Longrightarrow> wf_delivery a \<Longrightarrow> \<forall>d \<in> set ds. wf_delivery d \<Longrightarrow>
    wf_delivery c \<and> tagged c = tagged a @ concat (map tagged ds) \<and>
    delivery_payloads c = delivery_payloads a @ concat (map delivery_payloads ds)"
proof (induction ds arbitrary: a)
  case (Cons d ds)
  then obtain b where b: "coalesce_delivery a d = Inr b" "coalesce_rest b ds = Inr c" by auto
  from coalesce_delivery_spec [OF b(1)] Cons.prems Cons.IH [OF b(2)] show ?case by simp
qed simp

end
