(* ===== verification/Pending_Input.thy ===== *)
theory Pending_Input
  imports Step_Input
begin

text \<open>
  The open human-input batches of a parked session and the input deferred to its next step
  (\<open>harness/pending-input-batches.ts\<close>), with the request readers of \<open>shared/input.ts\<close> and
  \<open>harness/input-request-class.ts\<close>. The stored batches are read with a cast, so a request or a
  response stays \<open>json\<close> and its members are read where the code reads them. Batches are removed by
  object identity against an earlier read; an identity is a position in that read.
\<close>

section \<open>Requests and responses\<close>

definition request_id :: "json \<Rightarrow> string" where
  "request_id r = (case jstr r ''requestId'' of Some i \<Rightarrow> i | None \<Rightarrow> [])"

definition is_approval_request :: "json \<Rightarrow> bool" where
  "is_approval_request r \<longleftrightarrow> jget r ''kind'' = JStr ''tool-approval''"

definition is_session_limit_request :: "json \<Rightarrow> bool" where
  "is_session_limit_request r \<longleftrightarrow> jget r ''kind'' = JStr ''session-limit''"

definition is_question_request :: "json \<Rightarrow> bool" where
  "is_question_request r \<longleftrightarrow> jget r ''kind'' = JStr ''question''"

datatype request_class = Dismissable | Required

datatype input_error = DuplicateRequestId string | MixedSessionLimit | UnhandledKind

definition classify_input_request :: "json \<Rightarrow> input_error + request_class" where
  "classify_input_request r =
     (if is_approval_request r \<or> is_session_limit_request r then Inr Required
      else if is_question_request r then Inr Dismissable else Inl UnhandledKind)"

section \<open>Batches\<close>

record batch =
  batch_event :: json \<comment> \<open>\<open>undefined\<close> when absent\<close>
  batch_requests :: "json list"
  batch_auth_required :: json
  batch_messages :: "json list"

definition batch_ids :: "batch \<Rightarrow> string list" where
  "batch_ids b = map request_id (batch_requests b)"

definition pending_batches_key :: string where
  "pending_batches_key = ''eve.runtime.pendingInputBatches''"

definition legacy_batch_key :: string where
  "legacy_batch_key = ''eve.runtime.pendingInputBatch''"

definition deferred_input_key :: string where
  "deferred_input_key = ''eve.runtime.deferredStepInput''"

definition coerce_pending_input_batch :: "json \<Rightarrow> batch option" where
  "coerce_pending_input_batch j = (case (jget j ''requests'', jget j ''responseMessages'') of
     (JArr rs, JArr ms) \<Rightarrow> Some \<lparr>batch_event = jget j ''event'', batch_requests = rs,
       batch_auth_required = jget j ''responseAuthRequiredRequestIds'', batch_messages = ms\<rparr>
   | _ \<Rightarrow> None)"

fun first_duplicate :: "string list \<Rightarrow> string list \<Rightarrow> string option" where
  "first_duplicate seen [] = None"
| "first_duplicate seen (x # xs) = (if x \<in> set seen then Some x else first_duplicate (x # seen) xs)"

definition assert_unique_request_ids :: "batch list \<Rightarrow> input_error + batch list" where
  \<comment> \<open>The batches, when no request id occurs twice in them.\<close>
  "assert_unique_request_ids bs = (case first_duplicate [] (concat (map batch_ids bs)) of
     Some i \<Rightarrow> Inl (DuplicateRequestId i) | None \<Rightarrow> Inr bs)"

definition get_pending_input_batches :: "state_map option \<Rightarrow> input_error + batch list" where
  "get_pending_input_batches s = (case state_get s pending_batches_key of
     JArr xs \<Rightarrow> assert_unique_request_ids (List.map_filter coerce_pending_input_batch xs)
   | _ \<Rightarrow> assert_unique_request_ids
       (case coerce_pending_input_batch (state_get s legacy_batch_key) of None \<Rightarrow> [] | Some b \<Rightarrow> [b]))"

definition has_pending_input_batch :: "state_map option \<Rightarrow> input_error + bool" where
  "has_pending_input_batch s = bindR (get_pending_input_batches s) (\<lambda>bs. Inr (bs \<noteq> []))"

definition get_pending_input_request_ids :: "state_map option \<Rightarrow> input_error + string list" where
  "get_pending_input_request_ids s =
     bindR (get_pending_input_batches s) (\<lambda>bs. Inr (js_set (concat (map batch_ids bs))))"

definition batch_json :: "batch \<Rightarrow> json" where
  "batch_json b = JObj [(''event'', batch_event b),
     (''responseAuthRequiredRequestIds'', batch_auth_required b),
     (''requests'', JArr (batch_requests b)), (''responseMessages'', JArr (batch_messages b))]"

definition set_pending_input_batches ::
  "'a stateful_scheme \<Rightarrow> batch list \<Rightarrow> input_error + 'a stateful_scheme" where
  "set_pending_input_batches session bs =
     bindR (assert_unique_request_ids bs) (\<lambda>bs.
       let st = AList.delete legacy_batch_key (own_state (state session));
           st' = (if bs = [] then AList.delete pending_batches_key st
                  else AList.update pending_batches_key (JArr (map batch_json bs)) st)
       in Inr (session\<lparr>state := state_or_undefined st'\<rparr>))"

type_synonym pending = "nat \<times> batch"
  \<comment> \<open>a batch with its identity: the position in the read it comes from\<close>

definition pending_of :: "batch list \<Rightarrow> pending list" where
  "pending_of bs = enumerate 0 bs"

definition remove_pending_input_batches ::
  "'a stateful_scheme \<Rightarrow> pending list \<Rightarrow> input_error + 'a stateful_scheme" where
  "remove_pending_input_batches session removed =
     bindR (get_pending_input_batches (state session)) (\<lambda>bs.
       set_pending_input_batches session
         (map snd (filter (\<lambda>p. fst p \<notin> set (map fst removed)) (pending_of bs))))"

definition append_pending_input_batch ::
  "'a stateful_scheme \<Rightarrow> batch \<Rightarrow> input_error + 'a stateful_scheme" where
  "append_pending_input_batch session b =
     bindR (get_pending_input_batches (state session)) (\<lambda>bs.
       set_pending_input_batches session (bs @ [b]))"

section \<open>Deferred step input\<close>

fun content_json :: "user_content \<Rightarrow> json" where
  "content_json (Text s) = JStr s"
| "content_json (Parts ps) = JArr ps"

definition step_input_json :: "step_input \<Rightarrow> json" where
  "step_input_json i = JObj (
     opt_json ''inputResponses'' JArr (input_responses i) @
     opt_json ''message'' content_json (message i) @
     opt_json ''context'' (\<lambda>xs. JArr (map JStr xs)) (context_lines i) @
     opt_json ''outputSchema'' id (output_schema i) @
     opt_json ''messageConsumed'' JBool (if message_consumed i then Some True else None) @
     opt_json ''__eveClientContext'' (\<lambda>xs. JArr (map JStr xs)) (client_context i))"

definition strings_of :: "json \<Rightarrow> string list option" where
  "strings_of j = (case j of
     JArr xs \<Rightarrow> Some (map (\<lambda>x. case x of JStr s \<Rightarrow> s | _ \<Rightarrow> []) xs) | _ \<Rightarrow> None)"

definition read_step_input :: "json \<Rightarrow> step_input" where
  "read_step_input j = \<lparr>
     input_responses = (case jget j ''inputResponses'' of JArr xs \<Rightarrow> Some xs | _ \<Rightarrow> None),
     message = (case jget j ''message'' of JStr s \<Rightarrow> Some (Text s) | JArr ps \<Rightarrow> Some (Parts ps) | _ \<Rightarrow> None),
     context_lines = strings_of (jget j ''context''),
     client_context = strings_of (jget j ''__eveClientContext''),
     output_schema = (case jget j ''outputSchema'' of JUndef \<Rightarrow> None | v \<Rightarrow> Some v),
     message_consumed = (jget j ''messageConsumed'' = JBool True)\<rparr>"

definition get_deferred_step_input :: "'a stateful_scheme \<Rightarrow> step_input option" where
  "get_deferred_step_input session =
     (let j = state_get (state session) deferred_input_key in
      if j = JUndef then None else Some (read_step_input j))"

definition has_deferred_step_input :: "'a stateful_scheme \<Rightarrow> bool" where
  "has_deferred_step_input session \<longleftrightarrow> get_deferred_step_input session \<noteq> None"

definition queue_deferred_step_input :: "'a stateful_scheme \<Rightarrow> step_input \<Rightarrow> 'a stateful_scheme" where
  "queue_deferred_step_input session i =
     (let deferred = (case get_deferred_step_input session of
            None \<Rightarrow> i | Some e \<Rightarrow> coalesce_turn_inputs e i)
      in session\<lparr>state := Some (state_put deferred_input_key (step_input_json deferred) (state session))\<rparr>)"

definition clear_deferred_step_input :: "'a stateful_scheme \<Rightarrow> 'a stateful_scheme" where
  "clear_deferred_step_input session =
     (if state_get (state session) deferred_input_key = JUndef then session
      else session\<lparr>state := state_or_undefined
        (AList.delete deferred_input_key (own_state (state session)))\<rparr>)"

definition consume_deferred_step_input ::
  "step_input option \<Rightarrow> bool \<Rightarrow> 'a stateful_scheme \<Rightarrow> step_input option \<times> 'a stateful_scheme" where
  "consume_deferred_step_input current prefer_current session =
     (case get_deferred_step_input session of
        None \<Rightarrow> (current, session)
      | Some deferred \<Rightarrow>
          if prefer_current \<and> current \<noteq> None then (current, session)
          else (case current of
              None \<Rightarrow> (Some deferred, clear_deferred_step_input session)
            | Some i \<Rightarrow> (Some (coalesce_turn_inputs deferred i), clear_deferred_step_input session)))"

section \<open>Unique request ids\<close>

definition unique_requests :: "batch list \<Rightarrow> bool" where
  "unique_requests bs \<longleftrightarrow> distinct (concat (map batch_ids bs))"

lemma first_duplicate_None:
  "first_duplicate seen xs = None \<longleftrightarrow> distinct xs \<and> set xs \<inter> set seen = {}"
  by (induction xs arbitrary: seen) auto

lemma assert_unique_eq:
  "assert_unique_request_ids bs = Inr bs' \<longleftrightarrow> unique_requests bs \<and> bs' = bs"
  using first_duplicate_None [of "[]" "concat (map batch_ids bs)"]
  by (auto simp: assert_unique_request_ids_def unique_requests_def split: option.split)

lemma assert_unique_ok [simp]: "unique_requests bs \<Longrightarrow> assert_unique_request_ids bs = Inr bs"
  by (simp add: assert_unique_eq)

lemma get_pending_unique: "get_pending_input_batches s = Inr bs \<Longrightarrow> unique_requests bs"
  by (auto simp: get_pending_input_batches_def assert_unique_eq split: json.splits)

lemma input_keys_differ [simp]:
  "pending_batches_key \<noteq> legacy_batch_key" "legacy_batch_key \<noteq> pending_batches_key"
  "pending_batches_key \<noteq> deferred_input_key" "deferred_input_key \<noteq> pending_batches_key"
  "legacy_batch_key \<noteq> deferred_input_key" "deferred_input_key \<noteq> legacy_batch_key"
  by (simp_all add: pending_batches_key_def legacy_batch_key_def deferred_input_key_def)

lemma coerce_batch_json [simp]: "coerce_pending_input_batch (batch_json b) = Some b"
  by (cases b) (simp add: coerce_pending_input_batch_def batch_json_def)

lemma map_filter_batch_json [simp]:
  "List.map_filter coerce_pending_input_batch (map batch_json bs) = bs"
  by (induction bs) (simp_all add: List.map_filter_simps)

lemma state_get_update [simp]:
  "state_get (Some (AList.update k v m)) k' = (if k = k' then v else state_get (Some m) k')"
  by (simp add: state_get_def update_conv')

lemma coerce_undef [simp]: "coerce_pending_input_batch JUndef = None"
  by (simp add: coerce_pending_input_batch_def jget_def)

lemma set_pending_reads_back:
  assumes "set_pending_input_batches session bs = Inr session'"
  shows "get_pending_input_batches (state session') = Inr bs" and "unique_requests bs"
    and "get_deferred_step_input session' = get_deferred_step_input session"
    and "k \<notin> {pending_batches_key, legacy_batch_key} \<Longrightarrow> state_get (state session') k = state_get (state session) k"
  using assms
  by (auto simp: set_pending_input_batches_def assert_unique_eq Let_def get_pending_input_batches_def
      get_deferred_step_input_def split: if_splits)

lemma get_pending_cong:
  "state_get s pending_batches_key = state_get t pending_batches_key \<Longrightarrow>
   state_get s legacy_batch_key = state_get t legacy_batch_key \<Longrightarrow>
     get_pending_input_batches s = get_pending_input_batches t"
  by (simp add: get_pending_input_batches_def split: json.split)

lemma get_pending_put [simp]:
  "k \<noteq> pending_batches_key \<Longrightarrow> k \<noteq> legacy_batch_key \<Longrightarrow>
     get_pending_input_batches (Some (state_put k v s)) = get_pending_input_batches s"
  by (rule get_pending_cong) simp_all

lemma set_pending_ok:
  "unique_requests bs \<Longrightarrow> \<exists>session'. set_pending_input_batches session bs = Inr session'"
  by (simp add: set_pending_input_batches_def Let_def)

lemma unique_requests_filter:
  "unique_requests bs \<Longrightarrow> unique_requests (map snd (filter P (enumerate n bs)))"
proof (induction bs arbitrary: n)
  case (Cons b bs)
  have sub: "set (concat (map batch_ids (map snd (filter P (enumerate m bs))))) \<subseteq> set (concat (map batch_ids bs))" for m
    by (induction bs arbitrary: m) auto
  from Cons.prems have "unique_requests bs" "distinct (batch_ids b)"
    "set (batch_ids b) \<inter> set (concat (map batch_ids bs)) = {}"
    by (simp_all add: unique_requests_def)
  with Cons.IH [of "Suc n"] sub [of "Suc n"] show ?case by (auto simp: unique_requests_def)
qed (simp add: unique_requests_def)

lemma remove_pending_reads_back:
  assumes "get_pending_input_batches (state session) = Inr bs"
  shows "\<exists>session'. remove_pending_input_batches session removed = Inr session' \<and>
    get_pending_input_batches (state session') =
      Inr (map snd (filter (\<lambda>p. fst p \<notin> set (map fst removed)) (pending_of bs))) \<and>
    get_deferred_step_input session' = get_deferred_step_input session"
proof -
  let ?bs = "map snd (filter (\<lambda>p. fst p \<notin> set (map fst removed)) (pending_of bs))"
  have "unique_requests ?bs"
    unfolding pending_of_def using get_pending_unique [OF assms] by (rule unique_requests_filter)
  from set_pending_ok [OF this] obtain session' where "set_pending_input_batches session ?bs = Inr session'"
    by blast
  with set_pending_reads_back [OF this] assms show ?thesis
    by (auto simp: remove_pending_input_batches_def)
qed

lemma append_pending_spec:
  assumes "get_pending_input_batches (state session) = Inr bs"
  shows "(\<exists>session'. append_pending_input_batch session b = Inr session') \<longleftrightarrow>
      distinct (batch_ids b) \<and> set (batch_ids b) \<inter> set (concat (map batch_ids bs)) = {}"
    and "append_pending_input_batch session b = Inr session' \<Longrightarrow>
      get_pending_input_batches (state session') = Inr (bs @ [b])"
proof -
  have u: "unique_requests (bs @ [b]) \<longleftrightarrow>
      distinct (batch_ids b) \<and> set (batch_ids b) \<inter> set (concat (map batch_ids bs)) = {}"
    using get_pending_unique [OF assms] by (auto simp: unique_requests_def)
  show "(\<exists>session'. append_pending_input_batch session b = Inr session') \<longleftrightarrow>
      distinct (batch_ids b) \<and> set (batch_ids b) \<inter> set (concat (map batch_ids bs)) = {}"
    unfolding u [symmetric] using assms set_pending_ok [of "bs @ [b]" session] set_pending_reads_back(2) [of session "bs @ [b]"]
    by (auto simp: append_pending_input_batch_def)
  show "append_pending_input_batch session b = Inr session' \<Longrightarrow>
      get_pending_input_batches (state session') = Inr (bs @ [b])"
    using assms set_pending_reads_back(1) by (auto simp: append_pending_input_batch_def)
qed

section \<open>The deferred slot\<close>

definition storable :: "step_input \<Rightarrow> bool" where
  "storable i \<longleftrightarrow> output_schema i \<noteq> Some JUndef"

lemma strings_of_map [simp]: "strings_of (JArr (map JStr xs)) = Some xs"
  by (simp add: strings_of_def comp_def)

lemma strings_of_undef [simp]: "strings_of JUndef = None"
  by (simp add: strings_of_def)

lemma read_step_input_json [simp]: "storable i \<Longrightarrow> read_step_input (step_input_json i) = i"
proof -
  assume s: "storable i"
  let ?j = "step_input_json i"
  have "jget ?j ''inputResponses'' = (case input_responses i of None \<Rightarrow> JUndef | Some xs \<Rightarrow> JArr xs)"
    "jget ?j ''message'' = (case message i of None \<Rightarrow> JUndef | Some c \<Rightarrow> content_json c)"
    "jget ?j ''context'' = (case context_lines i of None \<Rightarrow> JUndef | Some xs \<Rightarrow> JArr (map JStr xs))"
    "jget ?j ''__eveClientContext'' = (case client_context i of None \<Rightarrow> JUndef | Some xs \<Rightarrow> JArr (map JStr xs))"
    "jget ?j ''outputSchema'' = (case output_schema i of None \<Rightarrow> JUndef | Some v \<Rightarrow> v)"
    "jget ?j ''messageConsumed'' = (if message_consumed i then JBool True else JUndef)"
    by (simp_all add: step_input_json_def opt_json_def split: option.split)
  note fields = this
  have c: "(case content_json x of JStr s \<Rightarrow> Some (Text s) | JArr ps \<Rightarrow> Some (Parts ps) | _ \<Rightarrow> None) = Some x" for x
    by (cases x) simp_all
  show ?thesis
    using s unfolding read_step_input_def fields
    by (cases i) (auto simp: storable_def c split: option.split json.split)
qed

lemma step_input_json_defined [simp]: "step_input_json i \<noteq> JUndef"
  by (simp add: step_input_json_def)

interpretation deferred_slot:
  state_slot deferred_input_key "\<lambda>i m. state_put deferred_input_key (step_input_json i) (Some m)"
    "\<lambda>m. get_deferred_step_input \<lparr>state = Some m\<rparr>" Some storable
proof unfold_locales
  fix s t :: state_map
  assume "map_of s deferred_input_key = map_of t deferred_input_key"
  then have "state_get (Some s) deferred_input_key = state_get (Some t) deferred_input_key"
    by (intro state_get_cong) simp
  then show "get_deferred_step_input \<lparr>state = Some s\<rparr> = get_deferred_step_input \<lparr>state = Some t\<rparr>"
    by (simp add: get_deferred_step_input_def)
next
  show "map_of (state_put deferred_input_key (step_input_json v) (Some m)) k = map_of m k"
    if "k \<noteq> deferred_input_key" for k v m
    using that by (simp add: state_put_def update_conv')
qed (simp add: get_deferred_step_input_def)

definition merged_deferred :: "step_input option \<Rightarrow> step_input \<Rightarrow> step_input" where
  "merged_deferred e i = (case e of None \<Rightarrow> i | Some d \<Rightarrow> coalesce_turn_inputs d i)"

lemma queue_reads_back:
  assumes "storable (merged_deferred (get_deferred_step_input session) i)"
  shows "get_deferred_step_input (queue_deferred_step_input session i) =
      Some (merged_deferred (get_deferred_step_input session) i)"
    and "get_pending_input_batches (state (queue_deferred_step_input session i)) =
      get_pending_input_batches (state session)"
  using assms
  by (simp_all add: queue_deferred_step_input_def Let_def get_deferred_step_input_def [of "state_update _ _"]
      merged_deferred_def)

end
