(* ===== verification/Session_Limit_Prompt.thy ===== *)
theory Session_Limit_Prompt
  imports Usage_Limits Pending_Input
begin

text \<open>
  The prompt that a session over its usage limit parks on (\<open>harness/session-limit-continuation.ts\<close>).
  The decimal text of a number is the parameter \<open>num\<close>, and so is its rounding to one or six
  fraction digits (\<open>toFixed\<close>).
\<close>

fun violation_kind :: "violation \<Rightarrow> string" where
  "violation_kind (InputViolation l u) = ''input''"
| "violation_kind (OutputViolation l u) = ''output''"
| "violation_kind (CostViolation l u) = ''token-cost''"

fun violation_limit :: "violation \<Rightarrow> rat" where
  "violation_limit (InputViolation l u) = l"
| "violation_limit (OutputViolation l u) = l"
| "violation_limit (CostViolation l u) = l"

fun violation_used :: "violation \<Rightarrow> rat" where
  "violation_used (InputViolation l u) = u"
| "violation_used (OutputViolation l u) = u"
| "violation_used (CostViolation l u) = u"

definition is_cost_violation :: "violation \<Rightarrow> bool" where
  "is_cost_violation v \<longleftrightarrow> violation_kind v = ''token-cost''"

definition continuation_tool_name :: string where
  "continuation_tool_name = ''session_limit_continuation''"

definition trim_trailing_zero :: "(nat \<Rightarrow> rat \<Rightarrow> string) \<Rightarrow> rat \<Rightarrow> string" where
  "trim_trailing_zero fixed v =
     (let rounded = fixed 1 v in
      if suffix ''.0'' rounded then take (length rounded - 2) rounded else rounded)"

definition format_compact_token_count ::
  "(rat \<Rightarrow> string) \<Rightarrow> (nat \<Rightarrow> rat \<Rightarrow> string) \<Rightarrow> rat \<Rightarrow> string" where
  "format_compact_token_count num fixed n =
     (if n \<ge> 1000000 then trim_trailing_zero fixed (n / 1000000) @ ''M''
      else if n \<ge> 1000 then trim_trailing_zero fixed (n / 1000) @ ''K''
      else num n)"

definition strip_zeros :: "string \<Rightarrow> string" where
  \<comment> \<open>\<open>replace(/0+$/u, "").replace(/\.$/u, "")\<close>\<close>
  "strip_zeros s =
     (let t = rev (dropWhile (\<lambda>c. c = CHR ''0'') (rev s)) in
      if t \<noteq> [] \<and> last t = CHR ''.'' then butlast t else t)"

definition format_usd :: "(rat \<Rightarrow> string) \<Rightarrow> (nat \<Rightarrow> rat \<Rightarrow> string) \<Rightarrow> rat \<Rightarrow> string" where
  "format_usd num fixed c =
     ''$'' @ strip_zeros (if c < 1 / 1000000 then num c else fixed 6 c)"

definition format_session_limit_prompt ::
  "(rat \<Rightarrow> string) \<Rightarrow> (nat \<Rightarrow> rat \<Rightarrow> string) \<Rightarrow> violation \<Rightarrow> string" where
  "format_session_limit_prompt num fixed v =
     ''This session has hit the '' @
     (if is_cost_violation v
      then format_usd num fixed (violation_limit v) @ '' model token-cost limit per session''
      else violation_kind v @ ''-token limit ('' @ format_compact_token_count num fixed (violation_limit v) @
        '') per session'') @
     ''. This is a guardrail against defective long-running sessions. If session activity looks fine, just approve to keep going.''"

definition continuation_request_id :: "(rat \<Rightarrow> string) \<Rightarrow> string \<Rightarrow> violation \<Rightarrow> string" where
  "continuation_request_id num sid v =
     sid @ '':limit:'' @ violation_kind v @ '':'' @ num (violation_used v)"

definition create_session_limit_continuation_request ::
  "(rat \<Rightarrow> string) \<Rightarrow> (nat \<Rightarrow> rat \<Rightarrow> string) \<Rightarrow> string \<Rightarrow> violation \<Rightarrow> json" where
  "create_session_limit_continuation_request num fixed sid v =
     (let rid = continuation_request_id num sid v;
          action_input = (if is_cost_violation v
            then JObj [(''kind'', JStr (violation_kind v)), (''limitUsd'', JNum (violation_limit v)),
              (''usedCostUsd'', JNum (violation_used v))]
            else JObj [(''kind'', JStr (violation_kind v)), (''limit'', JNum (violation_limit v)),
              (''usedTokens'', JNum (violation_used v))])
      in JObj [
        (''action'', JObj [(''callId'', JStr rid), (''input'', action_input), (''kind'', JStr ''tool-call''),
           (''toolName'', JStr continuation_tool_name)]),
        (''allowFreeform'', JBool False),
        (''display'', JStr ''confirmation''),
        (''kind'', JStr ''session-limit''),
        (''options'', JArr [
           JObj [(''description'', JStr (if is_cost_violation v then ''Grant a fresh model token-cost budget''
                    else ''Grant a fresh token budget'')),
             (''id'', JStr ''continue''), (''label'', JStr ''Approve''), (''style'', JStr ''primary'')],
           JObj [(''description'', JStr ''Stop now''), (''id'', JStr ''stop''), (''label'', JStr ''Stop''),
             (''style'', JStr ''danger'')]]),
        (''prompt'', JStr (format_session_limit_prompt num fixed v)),
        (''requestId'', JStr rid)])"

section \<open>Recognising a minted id\<close>

definition is_digit :: "char \<Rightarrow> bool" where
  "is_digit c \<longleftrightarrow> c \<in> set ''0123456789''"

definition lower_ascii :: "char \<Rightarrow> char" where
  "lower_ascii c =
     (case map_of (zip ''ABCDEFGHIJKLMNOPQRSTUVWXYZ'' ''abcdefghijklmnopqrstuvwxyz'') c of
        Some d \<Rightarrow> d | None \<Rightarrow> c)"

definition digits :: "string \<Rightarrow> bool" where
  \<comment> \<open>\<open>\d+\<close>\<close>
  "digits s \<longleftrightarrow> s \<noteq> [] \<and> list_all is_digit s"

definition exponent :: "string \<Rightarrow> bool" where
  \<comment> \<open>\<open>[+-]?\d+\<close>\<close>
  "exponent s = (case s of c # cs \<Rightarrow> if c = CHR ''+'' \<or> c = CHR ''-'' then digits cs else digits s
     | [] \<Rightarrow> False)"

definition fraction_and_exponent :: "string \<Rightarrow> bool" where
  \<comment> \<open>\<open>(?:\.\d+)?(?:e[+-]?\d+)?\<close>, lower case\<close>
  "fraction_and_exponent s =
     (let r = (case s of c # cs \<Rightarrow>
                 if c = CHR ''.'' \<and> takeWhile is_digit cs \<noteq> [] then dropWhile is_digit cs else s
               | [] \<Rightarrow> s)
      in (case r of [] \<Rightarrow> True | c # cs \<Rightarrow> c = CHR ''e'' \<and> exponent cs))"

definition decimal :: "string \<Rightarrow> bool" where
  "decimal s \<longleftrightarrow> takeWhile is_digit s \<noteq> [] \<and> fraction_and_exponent (dropWhile is_digit s)"

definition last_field :: "string \<Rightarrow> string \<times> string" where
  \<comment> \<open>What precedes the last colon, with it, and what follows.\<close>
  "last_field s = (let t = rev (takeWhile (\<lambda>c. c \<noteq> CHR '':'') (rev s)) in (take (length s - length t) s, t))"

definition is_session_limit_continuation_request_id :: "string \<Rightarrow> bool" where
  \<comment> \<open>Neither alternative of the tail contains a colon, so the tail starts at the last one.\<close>
  "is_session_limit_continuation_request_id rid =
     ((let (pre, tail) = last_field rid in
        (suffix '':limit:input:'' pre \<or> suffix '':limit:output:'' pre) \<and> digits tail) \<or>
      (let (pre, tail) = last_field (map lower_ascii rid) in
        suffix '':limit:token-cost:'' pre \<and> decimal tail))"

definition resolve_session_limit_continuation :: "json list \<Rightarrow> json list \<Rightarrow> bool option" where
  \<comment> \<open>\<open>Some granted\<close>, or nothing when there is no request or no answer to it.\<close>
  "resolve_session_limit_continuation requests responses =
     (case find is_session_limit_request requests of
        None \<Rightarrow> None
      | Some q \<Rightarrow>
          (case find (\<lambda>r. request_id r = request_id q) responses of
             None \<Rightarrow> None
           | Some r \<Rightarrow>
               if jget r ''optionId'' = JStr ''continue'' then Some True
               else if jget r ''optionId'' = JStr ''stop'' then Some False else None))"

section \<open>Minted ids are recognised\<close>

lemma last_field_append: "CHR '':'' \<notin> set t \<Longrightarrow> last_field (s @ CHR '':'' # t) = (s @ '':'', t)"
proof -
  assume "CHR '':'' \<notin> set t"
  then have "\<forall>c \<in> set (rev t). c \<noteq> CHR '':''" by auto
  then have "takeWhile (\<lambda>c. c \<noteq> CHR '':'') (rev (s @ CHR '':'' # t)) = rev t"
    by (simp add: takeWhile_stop)
  then show ?thesis by (simp add: last_field_def)
qed

lemma lower_ascii_colon [simp]: "lower_ascii c = CHR '':'' \<longleftrightarrow> c = CHR '':''"
proof -
  have "d \<noteq> CHR '':''"
    if "map_of (zip ''ABCDEFGHIJKLMNOPQRSTUVWXYZ'' ''abcdefghijklmnopqrstuvwxyz'') c = Some d" for d
    using map_of_SomeD [OF that] by (auto dest!: set_zip_rightD)
  then show ?thesis by (auto simp: lower_ascii_def split: option.split_asm)
qed

text \<open>
  What the text of a used amount looks like: decimal digits for a token count; for a cost digits with
  an optional fraction and exponent.
\<close>

definition number_text_ok :: "(rat \<Rightarrow> string) \<Rightarrow> violation \<Rightarrow> bool" where
  "number_text_ok num v \<longleftrightarrow>
     (if is_cost_violation v then decimal (num (violation_used v)) \<and> map lower_ascii (num (violation_used v)) = num (violation_used v)
      else digits (num (violation_used v)))"

lemma colon_not_digit [simp]: "\<not> is_digit CHR '':''"
  by (simp add: is_digit_def)

lemma digits_no_colon: "digits s \<Longrightarrow> CHR '':'' \<notin> set s"
  unfolding digits_def list_all_iff using colon_not_digit by blast

lemma take_drop_while_set: "x \<in> set s \<Longrightarrow> x \<in> set (takeWhile P s) \<or> x \<in> set (dropWhile P s)"
  by (induction s) auto

lemma exponent_no_colon: "exponent s \<Longrightarrow> CHR '':'' \<notin> set s"
  by (auto simp: exponent_def split: list.splits if_splits dest!: digits_no_colon)

lemma decimal_no_colon:
  assumes "decimal s"
  shows "CHR '':'' \<notin> set s"
proof
  assume c: "CHR '':'' \<in> set s"
  have t: "CHR '':'' \<notin> set (takeWhile is_digit xs)" for xs
    by (auto dest!: set_takeWhileD simp: is_digit_def)
  define r where "r = dropWhile is_digit s"
  have d: "CHR '':'' \<in> set r" using take_drop_while_set [OF c, of is_digit] t by (auto simp: r_def)
  have f: "fraction_and_exponent r" using assms by (simp add: decimal_def r_def)
  define q where "q = (case r of c # cs \<Rightarrow>
      if c = CHR ''.'' \<and> takeWhile is_digit cs \<noteq> [] then dropWhile is_digit cs else r | [] \<Rightarrow> r)"
  have "CHR '':'' \<in> set q"
  proof (cases r)
    case (Cons c cs)
    then show ?thesis
      using d t [of cs] take_drop_while_set [of "CHR '':''" cs is_digit] by (auto simp: q_def)
  qed (use d in simp)
  moreover have "case q of [] \<Rightarrow> True | c # cs \<Rightarrow> c = CHR ''e'' \<and> exponent cs"
    using f by (simp add: fraction_and_exponent_def q_def Let_def)
  ultimately show False
    using exponent_no_colon by (cases q) auto
qed

lemma minted_id_recognised:
  assumes "number_text_ok num v"
  shows "is_session_limit_continuation_request_id (continuation_request_id num sid v)"
proof (cases "is_cost_violation v")
  case False
  let ?t = "num (violation_used v)"
  have t: "digits ?t" using assms False by (simp add: number_text_ok_def)
  have id: "continuation_request_id num sid v = (sid @ '':limit:'' @ violation_kind v) @ CHR '':'' # ?t"
    by (simp add: continuation_request_id_def)
  have "last_field (continuation_request_id num sid v) = ((sid @ '':limit:'' @ violation_kind v) @ '':'', ?t)"
    unfolding id by (rule last_field_append) (rule digits_no_colon [OF t])
  moreover have "suffix '':limit:input:'' ((sid @ '':limit:'' @ violation_kind v) @ '':'') \<or>
      suffix '':limit:output:'' ((sid @ '':limit:'' @ violation_kind v) @ '':'')"
    using False by (cases v) (simp_all add: is_cost_violation_def suffix_def)
  ultimately show ?thesis using t by (simp add: is_session_limit_continuation_request_id_def)
next
  case True
  let ?t = "num (violation_used v)"
  have t: "decimal ?t" "map lower_ascii ?t = ?t" using assms True by (simp_all add: number_text_ok_def)
  have lower: "map lower_ascii (violation_kind v) = ''token-cost''" "map lower_ascii '':limit:'' = '':limit:''"
    using True by (simp_all add: is_cost_violation_def lower_ascii_def)
  have id: "map lower_ascii (continuation_request_id num sid v) =
      (map lower_ascii sid @ '':limit:token-cost'') @ CHR '':'' # ?t"
    using lower t(2) by (simp add: continuation_request_id_def)
  have "last_field (map lower_ascii (continuation_request_id num sid v)) =
      ((map lower_ascii sid @ '':limit:token-cost'') @ '':'', ?t)"
    unfolding id by (rule last_field_append) (rule decimal_no_colon [OF t(1)])
  moreover have "suffix '':limit:token-cost:'' ((map lower_ascii sid @ '':limit:token-cost'') @ '':'')"
    by (simp add: suffix_def)
  ultimately show ?thesis using t(1) by (simp add: is_session_limit_continuation_request_id_def)
qed

lemma created_request [simp]:
  "request_id (create_session_limit_continuation_request num fixed sid v) = continuation_request_id num sid v"
  "is_session_limit_request (create_session_limit_continuation_request num fixed sid v)"
  by (simp_all add: create_session_limit_continuation_request_def request_id_def jstr_def
      is_session_limit_request_def Let_def)

end
