(* ===== verification/Input_Resolution.thy ===== *)
theory Input_Resolution
  imports Session_Limit_Prompt
begin

text \<open>
  How a harness step resolves pending human input: \<open>harness/input-requests.ts\<close>,
  \<open>harness/input-request-resolution.ts\<close>, the three resolvers of \<open>harness/hitl/\<close> and the text
  matcher \<open>channel/resolve-text.ts\<close>. A batch is carried with its identity (\<open>pending\<close>), so membership
  in a set of batches is membership of the pair. The approval key resolver is the parameter \<open>key\<close>.
\<close>

section \<open>Text answers\<close>

definition digit_value :: "char \<Rightarrow> nat option" where
  "digit_value c = map_of (zip ''0123456789abcdef'' [0..<16]) c"

definition number_in_base :: "nat \<Rightarrow> string \<Rightarrow> nat option" where
  "number_in_base b s =
     (if s = [] then None
      else foldl (\<lambda>acc c. case (acc, digit_value c) of
          (Some n, Some d) \<Rightarrow> if d < b then Some (n * b + d) else None | _ \<Rightarrow> None) (Some 0) s)"

definition signed_part :: "string \<Rightarrow> bool \<times> string" where
  "signed_part s = (case s of c # cs \<Rightarrow> if c = CHR ''-'' then (True, cs) else if c = CHR ''+'' then (False, cs)
     else (False, s) | [] \<Rightarrow> (False, s))"

definition js_number :: "string \<Rightarrow> rat option" where
  \<comment> \<open>\<open>Number\<close> on a trimmed lower-case text, exactly; \<open>None\<close> is \<open>NaN\<close>.\<close>
  "js_number s =
     (if prefix ''0x'' s then map_option of_nat (number_in_base 16 (drop 2 s))
      else if prefix ''0o'' s then map_option of_nat (number_in_base 8 (drop 2 s))
      else if prefix ''0b'' s then map_option of_nat (number_in_base 2 (drop 2 s))
      else
        (let (negative, body) = signed_part s;
             mantissa = takeWhile (\<lambda>c. c \<noteq> CHR ''e'') body;
             rest = drop (length mantissa) body;
             whole = takeWhile (\<lambda>c. c \<noteq> CHR ''.'') mantissa;
             frac = drop (Suc (length whole)) mantissa
         in do {
           m \<leftarrow> number_in_base 10 (whole @ frac);
           e \<leftarrow> (if rest = [] then Some (False, 0)
                 else (let (n, ds) = signed_part (tl rest) in
                   map_option (\<lambda>k. (n, k)) (number_in_base 10 ds)));
           let v = of_nat m / 10 ^ length frac;
               w = (if fst e then v / 10 ^ snd e else v * 10 ^ snd e)
           in Some (if negative then - w else w) }))"

definition option_text :: "json \<Rightarrow> string \<Rightarrow> string" where
  "option_text opt k = (case jstr opt k of Some t \<Rightarrow> t | None \<Rightarrow> [])"

definition match_option :: "string \<Rightarrow> json list \<Rightarrow> json option" where
  "match_option normalized options =
     (case find (\<lambda>opt. lower_case (option_text opt ''id'') = normalized) options of
        Some opt \<Rightarrow> Some opt
      | None \<Rightarrow>
     (case find (\<lambda>opt. lower_case (option_text opt ''label'') = normalized) options of
        Some opt \<Rightarrow> Some opt
      | None \<Rightarrow>
     (case js_number normalized of
        None \<Rightarrow> None
      | Some n \<Rightarrow>
          if of_int \<lfloor>n\<rfloor> = n \<and> 0 < n \<and> n \<le> of_nat (length options)
          then Some (options ! (nat \<lfloor>n\<rfloor> - 1)) else None)))"

definition resolve_text_to_response :: "string \<Rightarrow> json \<Rightarrow> json option" where
  "resolve_text_to_response text r =
     (let trimmed = trim text;
          options = (case jget r ''options'' of JArr os \<Rightarrow> os | _ \<Rightarrow> [])
      in if trimmed = [] then None
      else case (if options = [] then None else match_option (lower_case trimmed) options) of
          Some opt \<Rightarrow> Some (JObj [(''requestId'', jget r ''requestId''), (''optionId'', jget opt ''id'')])
        | None \<Rightarrow>
            if jget r ''allowFreeform'' = JBool True \<or> options = []
            then Some (JObj [(''requestId'', jget r ''requestId''), (''text'', JStr trimmed)])
            else None)"

definition resolve_text_to_responses :: "string \<Rightarrow> json list \<Rightarrow> json list" where
  "resolve_text_to_responses text rs = List.map_filter (resolve_text_to_response text) rs"

section \<open>Outcomes\<close>

datatype approval_status = Approved | Denied | Ignored | Invalid

fun status_text :: "approval_status \<Rightarrow> string" where
  "status_text Approved = ''approved''"
| "status_text Denied = ''denied''"
| "status_text Ignored = ''ignored''"
| "status_text Invalid = ''invalid''"

definition resolve_approval_outcome :: "json option \<Rightarrow> approval_status" where
  "resolve_approval_outcome r = (case r of
     None \<Rightarrow> Ignored
   | Some x \<Rightarrow>
       if jget x ''optionId'' = JStr ''approve'' then Approved
       else if jget x ''optionId'' = JStr ''cancel'' \<or> jget x ''optionId'' = JStr ''deny'' then Denied
       else Invalid)"

fun outcome_reason :: "approval_status \<Rightarrow> json" where
  "outcome_reason Approved = JUndef"
| "outcome_reason Denied = JStr ''Tool execution was denied.''"
| "outcome_reason Ignored = JStr ''Ignored because the user continued without responding.''"
| "outcome_reason Invalid = JStr ''Invalid approval response.''"

definition response_map :: "json list \<Rightarrow> (string \<times> json) list" where
  "response_map rs = entries_map (map (\<lambda>r. (request_id r, r)) rs)"

definition response_to :: "json list \<Rightarrow> json \<Rightarrow> json option" where
  "response_to rs q = map_of (response_map rs) (request_id q)"

definition answers :: "json list \<Rightarrow> json \<Rightarrow> bool" where
  \<comment> \<open>\<open>responseIds.has(request.requestId)\<close>\<close>
  "answers rs q \<longleftrightarrow> request_id q \<in> set (map request_id rs)"

datatype input_outcome = Answered_Input | Ignored_Input | Approval_Outcome approval_status

record resolved_input =
  input_outcome :: input_outcome
  input_request :: json
  input_response :: "json option"

record resolved_batch =
  resolved_event :: json
  resolved_entries :: "resolved_input list"

definition build_resolved_input_batch :: "batch \<Rightarrow> json list \<Rightarrow> resolved_batch option" where
  "build_resolved_input_batch b rs =
     (if batch_event b = JUndef then None
      else Some \<lparr>resolved_event = batch_event b, resolved_entries = map (\<lambda>q.
        \<lparr>input_outcome = (if is_approval_request q then Approval_Outcome (resolve_approval_outcome (response_to rs q))
           else if response_to rs q = None then Ignored_Input else Answered_Input),
         input_request = q, input_response = response_to rs q\<rparr>) (batch_requests b)\<rparr>)"

section \<open>Shared parts of the resolvers\<close>

datatype resolution = Resolved | Continue | Unresolved

record action_batch =
  action_event :: json
  action_results :: "json list"

record 's resolve_result =
  outcome :: resolution
  result_messages :: "json list"
  consumed_message :: bool
  deferred_context :: bool
  deferred_message :: bool
  limit_continuation :: "bool option"
  rejected_actions :: "action_batch list"
  resolved_inputs :: "resolved_batch list"
  result_session :: 's

definition compact_step_input :: "step_input option \<Rightarrow> step_input" where
  "compact_step_input i = (case i of
     None \<Rightarrow> empty_input
   | Some s \<Rightarrow> s\<lparr>context_lines := (if or_empty (context_lines s) = [] then None else context_lines s),
       input_responses := (if or_empty (input_responses s) = [] then None else input_responses s)\<rparr>)"

definition responses_for_batches :: "json list \<Rightarrow> pending list \<Rightarrow> json list" where
  "responses_for_batches rs bs =
     filter (\<lambda>r. list_ex (\<lambda>b. list_ex (\<lambda>q. request_id q = request_id r) (batch_requests (snd b))) bs) rs"

definition tool_message :: "json list \<Rightarrow> json" where
  "tool_message parts = JObj [(''content'', JArr parts), (''role'', JStr ''tool'')]"

definition append_resolved_batch_transcript :: "json list \<Rightarrow> batch \<Rightarrow> json list \<Rightarrow> json list" where
  "append_resolved_batch_transcript ms b parts =
     ms @ batch_messages b @ (if parts \<noteq> [] then [tool_message parts] else [])"

definition message_of :: "step_input option \<Rightarrow> user_content option" where
  "message_of i = (case i of None \<Rightarrow> None | Some s \<Rightarrow> message s)"

definition consumed_of :: "step_input option \<Rightarrow> bool" where
  "consumed_of i = (case i of None \<Rightarrow> False | Some s \<Rightarrow> message_consumed s)"

definition replayed_input :: "bool \<Rightarrow> json list \<Rightarrow> step_input option \<Rightarrow> step_input" where
  \<comment> \<open>\<open>deferredInput\<close> of \<open>finishResolvedInput\<close>.\<close>
  "replayed_input defer_turn leftover i = empty_input\<lparr>
     input_responses := (if leftover \<noteq> [] then Some leftover else None),
     context_lines := (if defer_turn then (case i of None \<Rightarrow> None
       | Some s \<Rightarrow> if or_empty (context_lines s) = [] then None else context_lines s) else None),
     client_context := (if defer_turn then (case i of None \<Rightarrow> None
       | Some s \<Rightarrow> if or_empty (client_context s) = [] then None else client_context s) else None),
     message := (if defer_turn then message_of i else None)\<rparr>"

definition finish_resolved_input ::
  "bool \<Rightarrow> json list \<Rightarrow> bool option \<Rightarrow> json list \<Rightarrow> action_batch list \<Rightarrow> resolved_batch list \<Rightarrow>
     step_input option \<Rightarrow> 'a stateful_scheme \<Rightarrow> 'a stateful_scheme resolve_result" where
  "finish_resolved_input defer_turn leftover granted ms rejected resolved i session =
     (let d = replayed_input defer_turn leftover i;
          base = \<lparr>outcome = Resolved, result_messages = ms, consumed_message = consumed_of i,
            deferred_context = False, deferred_message = False, limit_continuation = granted,
            rejected_actions = rejected, resolved_inputs = resolved, result_session = session\<rparr>
      in if d \<noteq> empty_input
         then base\<lparr>deferred_context := (context_lines d \<noteq> None \<or> client_context d \<noteq> None),
                deferred_message := (message d \<noteq> None),
                result_session := queue_deferred_step_input session d\<rparr>
         else base)"

definition plain_result ::
  "resolution \<Rightarrow> json list \<Rightarrow> bool \<Rightarrow> bool \<Rightarrow> 's \<Rightarrow> 's resolve_result" where
  \<comment> \<open>An outcome without resolved batches: consumed flag, deferred flag, session.\<close>
  "plain_result oc ms consumed deferred session = \<lparr>outcome = oc, result_messages = ms,
     consumed_message = consumed, deferred_context = False, deferred_message = deferred,
     limit_continuation = None, rejected_actions = [], resolved_inputs = [], result_session = session\<rparr>"

definition resolved_batches_of :: "batch list \<Rightarrow> json list \<Rightarrow> resolved_batch list" where
  "resolved_batches_of bs rs = List.map_filter (\<lambda>b. build_resolved_input_batch b rs) bs"

section \<open>Questions\<close>

definition call_id_of :: "json \<Rightarrow> json" where
  "call_id_of q = jget (jget q ''action'') ''callId''"

definition tool_name_of :: "json \<Rightarrow> json" where
  "tool_name_of q = jget (jget q ''action'') ''toolName''"

definition build_question_tool_response_part :: "json \<Rightarrow> json option \<Rightarrow> json" where
  "build_question_tool_response_part q r = JObj [
     (''output'', JObj [(''type'', JStr ''json''), (''value'', (case r of
        Some x \<Rightarrow> JObj [(''optionId'', jget x ''optionId''), (''text'', jget x ''text''),
          (''status'', JStr ''answered'')]
      | None \<Rightarrow> JObj [(''status'', JStr ''ignored'')]))]),
     (''toolCallId'', call_id_of q), (''toolName'', tool_name_of q), (''type'', JStr ''tool-result'')]"

definition find_answered_question_batches :: "pending list \<Rightarrow> json list \<Rightarrow> pending list" where
  "find_answered_question_batches bs rs = filter (\<lambda>b. list_ex (answers rs) (batch_requests (snd b))) bs"

fun resolve_question_batches :: "batch list \<Rightarrow> json list \<Rightarrow> json list \<Rightarrow> json list" where
  "resolve_question_batches [] ms rs = ms"
| "resolve_question_batches (b # bs) ms rs =
     resolve_question_batches bs (append_resolved_batch_transcript ms b
       (map (\<lambda>q. build_question_tool_response_part q (response_to rs q)) (batch_requests b))) rs"

definition queue_leftover :: "json list \<Rightarrow> 'a stateful_scheme \<Rightarrow> 'a stateful_scheme" where
  "queue_leftover leftover session = (if leftover = [] then session
     else queue_deferred_step_input session (empty_input\<lparr>input_responses := Some leftover\<rparr>))"

definition resolve_question_only_input_batches ::
  "json list \<Rightarrow> pending list \<Rightarrow> bool \<Rightarrow> step_input option \<Rightarrow> json list \<Rightarrow> 'a stateful_scheme \<Rightarrow>
     input_error + 'a stateful_scheme resolve_result" where
  "resolve_question_only_input_batches base batches defer_turn i rs session =
     (let resolved = find_answered_question_batches batches rs;
          open_batches = filter (\<lambda>b. b \<notin> set resolved) batches;
          leftover = responses_for_batches rs open_batches
      in if resolved = [] then
           (if message_of i = None then
              Inr (plain_result Unresolved base False False
                (queue_deferred_step_input session (compact_step_input i)))
            else case batches of
              [sole] \<Rightarrow>
                bindR (remove_pending_input_batches session [sole]) (\<lambda>s.
                  Inr ((plain_result Resolved (resolve_question_batches [snd sole] base [])
                    (consumed_of i) False s)\<lparr>resolved_inputs := resolved_batches_of [snd sole] []\<rparr>))
            | _ \<Rightarrow> Inr (plain_result Continue base (consumed_of i) False (queue_leftover leftover session)))
         else
           bindR (remove_pending_input_batches session resolved) (\<lambda>s.
             Inr (finish_resolved_input defer_turn leftover None
               (resolve_question_batches (map snd resolved) base rs) []
               (resolved_batches_of (map snd resolved) rs) i s)))"

section \<open>Session-limit prompts\<close>

definition is_session_limit_input_batch :: "batch \<Rightarrow> input_error + bool" where
  "is_session_limit_input_batch b =
     (let has = list_ex is_session_limit_request (batch_requests b) in
      if has \<and> list_ex (\<lambda>q. \<not> is_session_limit_request q) (batch_requests b) then Inl MixedSessionLimit
      else Inr has)"

definition resolve_session_limit_input ::
  "json list \<Rightarrow> pending list \<Rightarrow> pending \<Rightarrow> bool \<Rightarrow> step_input option \<Rightarrow> json list \<Rightarrow>
     'a stateful_scheme \<Rightarrow> input_error + 'a stateful_scheme resolve_result" where
  "resolve_session_limit_input base batches prompt defer_turn i rs session =
     (let answered = list_ex (answers rs) (batch_requests (snd prompt)) \<and>
            list_all (answers rs) (batch_requests (snd prompt));
          open_batches = filter (\<lambda>b. b \<noteq> prompt) batches;
          leftover = responses_for_batches rs open_batches;
          limit_blocked = list_ex (\<lambda>b. list_ex is_session_limit_request (batch_requests (snd b))) open_batches
      in if \<not> answered then
           Inr (plain_result Unresolved base False True
             (queue_deferred_step_input session (compact_step_input i)))
         else
           bindR (remove_pending_input_batches session [prompt]) (\<lambda>s.
             Inr (finish_resolved_input (defer_turn \<or> limit_blocked) leftover
               (resolve_session_limit_continuation (batch_requests (snd prompt)) rs)
               (append_resolved_batch_transcript base (snd prompt) []) []
               (resolved_batches_of [snd prompt] rs) i s)))"

definition clear_pending_session_limit_prompt ::
  "'a stateful_scheme \<Rightarrow> input_error + 'a stateful_scheme" where
  "clear_pending_session_limit_prompt session =
     bindR (get_pending_input_batches (state session)) (\<lambda>bs.
       let dropped = filter (\<lambda>b. batch_requests (snd b) \<noteq> [] \<and>
             list_all is_session_limit_request (batch_requests (snd b))) (pending_of bs)
       in if dropped = [] then Inr session else remove_pending_input_batches session dropped)"

section \<open>Approvals\<close>

definition approved_tools_key :: string where
  "approved_tools_key = ''eve.runtime.hitl.approvedTools''"

definition has_approval :: "batch \<Rightarrow> bool" where
  "has_approval b = list_ex is_approval_request (batch_requests b)"

definition approvals_answered :: "json list \<Rightarrow> batch \<Rightarrow> bool" where
  "approvals_answered rs b = list_all (\<lambda>q. \<not> is_approval_request q \<or> answers rs q) (batch_requests b)"

definition has_answered_approval_batch :: "pending list \<Rightarrow> json list \<Rightarrow> bool" where
  "has_answered_approval_batch bs rs = list_ex (\<lambda>b. approvals_answered rs (snd b)) bs"

definition read_recorded_approved_tools :: "'a stateful_scheme \<Rightarrow> string list" where
  "read_recorded_approved_tools session = (case strings_of (state_get (state session) approved_tools_key) of
     Some xs \<Rightarrow> js_set xs | None \<Rightarrow> [])"

definition approval_key :: "(json \<Rightarrow> string option) \<Rightarrow> json \<Rightarrow> string" where
  "approval_key key q = (case key q of Some k \<Rightarrow> k | None \<Rightarrow>
     (case tool_name_of q of JStr n \<Rightarrow> n | _ \<Rightarrow> []))"

definition get_approved_tools ::
  "(json \<Rightarrow> string option) \<Rightarrow> 'a stateful_scheme \<Rightarrow> input_error + string list" where
  "get_approved_tools key session =
     bindR (get_pending_input_batches (state session)) (\<lambda>bs.
       let waiting = map (approval_key key) (filter is_approval_request (concat (map batch_requests bs)))
       in Inr (filter (\<lambda>t. t \<notin> set waiting) (read_recorded_approved_tools session)))"

definition record_approved_tools ::
  "(json \<Rightarrow> string option) \<Rightarrow> batch \<Rightarrow> json list \<Rightarrow> 'a stateful_scheme \<Rightarrow> 'a stateful_scheme" where
  "record_approved_tools key b rs session =
     (let approved = map request_id (filter (\<lambda>r. jget r ''optionId'' = JStr ''approve'') rs);
          new_keys = map (approval_key key)
            (filter (\<lambda>q. is_approval_request q \<and> request_id q \<in> set approved) (batch_requests b))
      in if new_keys = [] then session
         else session\<lparr>state := Some (state_put approved_tools_key
           (JArr (map JStr (js_set (read_recorded_approved_tools session @ new_keys)))) (state session))\<rparr>)"

definition rejected_result :: "json list \<Rightarrow> json \<Rightarrow> json" where
  "rejected_result rs q =
     (let st = resolve_approval_outcome (response_to rs q) in JObj [
       (''callId'', call_id_of q), (''isError'', JBool True), (''kind'', JStr ''tool-result''),
       (''output'', JObj [
          (''approval'', JObj [(''requestId'', JStr (request_id q)), (''status'', JStr (status_text st))]),
          (''code'', JStr ''TOOL_EXECUTION_DENIED''), (''message'', outcome_reason st),
          (''tool'', JObj [(''result'', JStr ''not_run'')])]),
       (''toolName'', tool_name_of q)])"

definition build_rejected_action_batch :: "batch \<Rightarrow> json list \<Rightarrow> action_batch option" where
  "build_rejected_action_batch b rs =
     (let results = map (rejected_result rs) (filter (\<lambda>q. is_approval_request q \<and>
            resolve_approval_outcome (response_to rs q) \<noteq> Approved) (batch_requests b))
      in if batch_event b = JUndef \<or> results = [] then None
         else Some \<lparr>action_event = batch_event b, action_results = results\<rparr>)"

definition build_approval_tool_response_parts :: "json \<Rightarrow> json option \<Rightarrow> json list" where
  "build_approval_tool_response_parts q r =
     (let st = resolve_approval_outcome r;
          part = JObj [(''approvalId'', JStr (request_id q)), (''approved'', JBool (st = Approved)),
            (''reason'', outcome_reason st), (''type'', JStr ''tool-approval-response'')]
      in if st = Approved then [part]
         else [part, JObj [(''output'', JObj [(''type'', JStr ''execution-denied''), (''reason'', outcome_reason st)]),
           (''toolCallId'', call_id_of q), (''toolName'', tool_name_of q), (''type'', JStr ''tool-result'')]])"

fun approval_batch_parts :: "json list \<Rightarrow> json list \<Rightarrow> input_error + json list" where
  "approval_batch_parts rs [] = Inr []"
| "approval_batch_parts rs (q # qs) =
     (if is_approval_request q then
        bindR (approval_batch_parts rs qs) (\<lambda>ps. Inr (build_approval_tool_response_parts q (response_to rs q) @ ps))
      else if is_question_request q then
        bindR (approval_batch_parts rs qs) (\<lambda>ps. Inr (build_question_tool_response_part q (response_to rs q) # ps))
      else if is_session_limit_request q then Inl MixedSessionLimit
      else Inl UnhandledKind)"

definition slice_after_first :: "('a \<Rightarrow> bool) \<Rightarrow> 'a list \<Rightarrow> 'a list" where
  \<comment> \<open>\<open>slice(0, index + 1)\<close> at the first element that satisfies the predicate, if any.\<close>
  "slice_after_first P xs = takeWhile (\<lambda>x. \<not> P x) xs @ take 1 (dropWhile (\<lambda>x. \<not> P x) xs)"

definition resolve_approval_input_batches ::
  "(json \<Rightarrow> string option) \<Rightarrow> json list \<Rightarrow> pending list \<Rightarrow> pending list \<Rightarrow> pending list \<Rightarrow> bool \<Rightarrow>
     step_input option \<Rightarrow> json list \<Rightarrow> 'a stateful_scheme \<Rightarrow> input_error + 'a stateful_scheme resolve_result" where
  "resolve_approval_input_batches key base batches approvals questions defer_turn i rs session =
     (let answered_approvals = filter (\<lambda>b. approvals_answered rs (snd b)) approvals;
          answered_questions = find_answered_question_batches questions rs;
          resolved = slice_after_first (\<lambda>b. has_approval (snd b))
            (filter (\<lambda>b. b \<in> set answered_approvals \<or> b \<in> set answered_questions) batches);
          open_batches = filter (\<lambda>b. b \<notin> set resolved) batches;
          leftover = responses_for_batches rs open_batches
      in if resolved = [] then
           (if message_of i = None then
              Inr (plain_result Unresolved base False False
                (queue_deferred_step_input session (compact_step_input i)))
            else Inr (plain_result Continue base (consumed_of i) False (queue_leftover leftover session)))
         else
           (let approval = find (\<lambda>b. has_approval (snd b)) resolved;
                question_batches = filter (\<lambda>b. Some b \<noteq> approval) resolved;
                answered = resolve_question_batches (map snd question_batches) base rs
            in case approval of
                 None \<Rightarrow>
                   bindR (remove_pending_input_batches session resolved) (\<lambda>s.
                     Inr (finish_resolved_input defer_turn leftover None answered []
                       (resolved_batches_of (map snd resolved) rs) i s))
               | Some b \<Rightarrow>
                   bindR (approval_batch_parts rs (batch_requests (snd b))) (\<lambda>parts.
                   bindR (remove_pending_input_batches (record_approved_tools key (snd b) rs session) resolved) (\<lambda>s.
                     Inr (finish_resolved_input True leftover None
                       (append_resolved_batch_transcript answered (snd b) parts)
                       (case build_rejected_action_batch (snd b) rs of None \<Rightarrow> [] | Some r \<Rightarrow> [r])
                       (resolved_batches_of (map snd resolved) rs) i s)))))"

section \<open>Routing\<close>

datatype domain = ApprovalDomain | QuestionDomain | SessionLimitDomain

definition classify_pending_input_batch :: "batch \<Rightarrow> input_error + domain" where
  "classify_pending_input_batch b =
     (if list_ex (\<lambda>q. \<not> is_question_request q \<and> \<not> is_session_limit_request q \<and> \<not> is_approval_request q)
           (batch_requests b) then Inl UnhandledKind
      else bindR (is_session_limit_input_batch b) (\<lambda>limit.
        Inr (if limit then SessionLimitDomain else if has_approval b then ApprovalDomain else QuestionDomain)))"

fun classify_all :: "pending list \<Rightarrow> input_error + (pending \<times> domain) list" where
  "classify_all [] = Inr []"
| "classify_all (b # bs) =
     bindR (classify_pending_input_batch (snd b)) (\<lambda>d. bindR (classify_all bs) (\<lambda>r. Inr ((b, d) # r)))"

datatype route = LimitRoute pending | ApprovalRoute "pending list" "pending list" | QuestionRoute

definition route_pending_input :: "pending list \<Rightarrow> input_error + route" where
  "route_pending_input bs = bindR (classify_all bs) (\<lambda>classified.
     case find (\<lambda>(b, d). d = SessionLimitDomain) classified of
       Some (b, _) \<Rightarrow> Inr (LimitRoute b)
     | None \<Rightarrow>
         (let approvals = map fst (filter (\<lambda>(b, d). d = ApprovalDomain) classified) in
          if approvals \<noteq> [] then Inr (ApprovalRoute approvals (filter (\<lambda>b. b \<notin> set approvals) bs))
          else Inr QuestionRoute))"

definition canonicalize_input_responses :: "json list \<Rightarrow> json list" where
  "canonicalize_input_responses rs = map snd (response_map rs)"

definition resolve_text_message_input :: "batch \<Rightarrow> step_input option \<Rightarrow> step_input option" where
  "resolve_text_message_input b i = (case i of
     Some s \<Rightarrow>
       (case message s of
          Some (Text t) \<Rightarrow>
            if list_ex (\<lambda>r. request_id r \<in> set (batch_ids b)) (or_empty (input_responses s)) then i
            else
              (let required = (case strings_of (batch_auth_required b) of Some xs \<Rightarrow> xs | None \<Rightarrow> []);
                   responses = resolve_text_to_responses t
                     (filter (\<lambda>q. request_id q \<notin> set required) (batch_requests b))
               in if responses = [] then i
                  else Some (compact_step_input (Some (s\<lparr>
                    input_responses := Some (or_empty (input_responses s) @ responses),
                    message_consumed := True, message := None\<rparr>))))
        | _ \<Rightarrow> i)
   | None \<Rightarrow> None)"

definition text_resolution_batch :: "route \<Rightarrow> pending list \<Rightarrow> pending option" where
  "text_resolution_batch route batches = (case route of
     LimitRoute b \<Rightarrow> Some b
   | _ \<Rightarrow> (if length batches = 1 then Some (hd batches) else None))"

definition resolved_step_input :: "route \<Rightarrow> pending list \<Rightarrow> step_input option \<Rightarrow> step_input option" where
  "resolved_step_input route batches i = (case text_resolution_batch route batches of
     None \<Rightarrow> i | Some b \<Rightarrow> resolve_text_message_input (snd b) i)"

definition has_step_input :: "step_input option \<Rightarrow> bool" where
  "has_step_input i = (case i of None \<Rightarrow> False
     | Some s \<Rightarrow> message s \<noteq> None \<or> length (or_empty (input_responses s)) > 0)"

definition has_pending_approval_batch :: "'a stateful_scheme \<Rightarrow> input_error + bool" where
  "has_pending_approval_batch session =
     bindR (get_pending_input_batches (state session)) (\<lambda>bs. Inr (list_ex has_approval bs))"

definition responses_of :: "step_input option \<Rightarrow> json list" where
  "responses_of i = (case i of None \<Rightarrow> [] | Some s \<Rightarrow> or_empty (input_responses s))"

definition resolve_pending_input ::
  "bool \<Rightarrow> (json \<Rightarrow> string option) \<Rightarrow> json list \<Rightarrow> 'a stateful_scheme \<Rightarrow> step_input option \<Rightarrow>
     input_error + 'a stateful_scheme resolve_result" where
  \<comment> \<open>\<open>base\<close> is \<open>input.history ?? input.session.history\<close>.\<close>
  "resolve_pending_input defer_while_approvals key base session i =
     bindR (get_pending_input_batches (state session)) (\<lambda>stored.
       let batches = pending_of stored in
       if batches = [] then Inr (plain_result Continue base False False session)
       else bindR (route_pending_input batches) (\<lambda>route.
         let defer_turn = has_tail_approval_response base;
             ri = resolved_step_input route batches i;
             rs = canonicalize_input_responses (responses_of ri)
         in if (case route of ApprovalRoute approvals questions \<Rightarrow>
                  defer_while_approvals \<and> message_of ri \<noteq> None \<and> \<not> has_answered_approval_batch approvals rs
                | _ \<Rightarrow> False) then
              Inr (plain_result Unresolved base False True
                (queue_deferred_step_input session (compact_step_input ri)))
            else if rs = [] \<and> message_of ri = None then
              (let d = compact_step_input ri in
               Inr (plain_result Unresolved base False False
                 (if context_lines d \<noteq> None \<or> client_context d \<noteq> None \<or> output_schema d \<noteq> None
                  then queue_deferred_step_input session d else session)))
            else (case route of
                LimitRoute b \<Rightarrow> resolve_session_limit_input base batches b defer_turn ri rs session
              | ApprovalRoute approvals questions \<Rightarrow>
                  resolve_approval_input_batches key base batches approvals questions defer_turn ri rs session
              | QuestionRoute \<Rightarrow>
                  resolve_question_only_input_batches base batches defer_turn ri rs session)))"

end
