(* ===== verification/Stale_Responses.thy ===== *)
theory Stale_Responses
  imports Step_Input Pending_Input Session_Limit_Prompt
begin

text \<open>
  Answers to prompts that are no longer pending: what is known of their requests from the history
  (\<open>harness/input-extraction.ts\<close>, \<open>harness/tool-call-action.ts\<close>, the arguments of a tool call in
  \<open>harness/coordination.ts\<close>) and the two passes that drop them or turn them into text
  (\<open>harness/stale-input-responses.ts\<close>). The record \<open>extraction\<close> has what the code is given: the tools
  that ask questions, \<open>JSON.parse\<close> and the decimal text of a number. History is persisted JSON, so
  values are trees here.
\<close>

section \<open>Tool calls\<close>

record extraction =
  asks_question :: "string \<Rightarrow> bool"
  json_parse :: "string \<Rightarrow> json option"
  number_text :: "rat \<Rightarrow> string"

datatype extraction_error = Bad_Arguments string string

record call_descriptor =
  descriptor_input :: json
  descriptor_id :: string
  descriptor_tool :: string

definition tool_call_descriptor :: "json \<Rightarrow> call_descriptor option" where
  "tool_call_descriptor j = (case j of
     JObj _ \<Rightarrow> (case (jstr j ''toolCallId'', jstr j ''toolName'') of
         (Some i, Some n) \<Rightarrow> Some \<lparr>descriptor_input = jget j ''input'', descriptor_id = i, descriptor_tool = n\<rparr>
       | _ \<Rightarrow> None)
   | _ \<Rightarrow> None)"

definition persisted_tool_call :: "json \<Rightarrow> call_descriptor option" where
  "persisted_tool_call j = (if jget j ''type'' = JStr ''tool-call'' then tool_call_descriptor j else None)"

record approval_part =
  approval_id :: string
  is_automatic :: bool
  approval_call :: "call_descriptor option"
  approval_call_id :: "string option"

definition tool_approval_request :: "json \<Rightarrow> approval_part option" where
  \<comment> \<open>Malformed optional members count as absent.\<close>
  "tool_approval_request j =
     (if jget j ''type'' \<noteq> JStr ''tool-approval-request'' then None
      else map_option (\<lambda>i. \<lparr>approval_id = i, is_automatic = (jget j ''isAutomatic'' = JBool True),
        approval_call = tool_call_descriptor (jget j ''toolCall''), approval_call_id = jstr j ''toolCallId''\<rparr>)
        (jstr j ''approvalId''))"

fun plain_json :: "json \<Rightarrow> json option" where
  \<comment> \<open>The normaliser of \<open>shared/json.ts\<close> on a tree.\<close>
  "plain_json JUndef = None"
| "plain_json (JNonFinite n) = None"
| "plain_json (JArr xs) = map_option JArr (those (map plain_json xs))"
| "plain_json (JObj ps) = map_option (\<lambda>qs. JObj (filter (\<lambda>q. fst q \<noteq> ''__proto__'') qs))
     (those (map (\<lambda>(k, v). map_option (Pair k) (plain_json v)) (filter (\<lambda>p. snd p \<noteq> JUndef) ps)))"
| "plain_json j = Some j"

definition resolve_tool_call_input :: "extraction \<Rightarrow> call_descriptor \<Rightarrow> extraction_error + json" where
  "resolve_tool_call_input x c =
     (if descriptor_input c \<in> {JUndef, JNull} then Inr (JObj [])
      else if (case descriptor_input c of JStr s \<Rightarrow> blank s | _ \<Rightarrow> False) then Inr (JObj [])
      else (case (case descriptor_input c of JStr s \<Rightarrow> json_parse x s | v \<Rightarrow> Some v) of
          Some v \<Rightarrow> (case plain_json v of Some (JObj ps) \<Rightarrow> Inr (JObj ps) | _ \<Rightarrow> Inl (Bad_Arguments (descriptor_tool c) (descriptor_id c)))
        | None \<Rightarrow> Inl (Bad_Arguments (descriptor_tool c) (descriptor_id c))))"

definition create_tool_call_action :: "extraction \<Rightarrow> call_descriptor \<Rightarrow> extraction_error + json" where
  "create_tool_call_action x c = bindR (resolve_tool_call_input x c) (\<lambda>input. Inr (JObj [
     (''callId'', JStr (descriptor_id c)), (''input'', input), (''kind'', JStr ''tool-call''),
     (''toolName'', JStr (descriptor_tool c))]))"

section \<open>Requests in the history\<close>

fun js_text :: "(rat \<Rightarrow> string) \<Rightarrow> json \<Rightarrow> string" where
  \<comment> \<open>\<open>String(value)\<close>\<close>
  "js_text num JUndef = ''undefined''"
| "js_text num JNull = ''null''"
| "js_text num (JBool b) = (if b then ''true'' else ''false'')"
| "js_text num (JNum n) = num n"
| "js_text num (JNonFinite n) = ''NaN''"
| "js_text num (JStr s) = s"
| "js_text num (JArr xs) = join_with '','' (map (\<lambda>x. if x \<in> {JUndef, JNull} then [] else js_text num x) xs)"
| "js_text num (JObj ps) = ''[object Object]''"

fun extract_question_requests :: "extraction \<Rightarrow> string list \<Rightarrow> call_descriptor list \<Rightarrow> extraction_error + json list" where
  "extract_question_requests x excluded [] = Inr []"
| "extract_question_requests x excluded (c # cs) =
     (if \<not> asks_question x (descriptor_tool c) \<or> descriptor_id c \<in> set excluded then extract_question_requests x excluded cs
      else bindR (create_tool_call_action x c) (\<lambda>action.
        (let args = jget action ''input''; options = jget args ''options''; free = jget args ''allowFreeform'';
             request = JObj ([(''action'', action), (''display'', JStr (if options \<noteq> JUndef then ''select'' else ''text'')),
               (''kind'', JStr ''question''), (''prompt'', JStr (js_text (number_text x) (jget args ''prompt''))),
               (''requestId'', JStr (descriptor_id c))] @
               (if free \<noteq> JUndef then [(''allowFreeform'', free)] else []) @
               (if options \<noteq> JUndef then [(''options'', options)] else []))
         in bindR (extract_question_requests x excluded cs) (\<lambda>rs. Inr (request # rs)))))"

definition calls_by_id :: "json list \<Rightarrow> (string \<times> call_descriptor) list" where
  "calls_by_id content = entries_map (List.map_filter (\<lambda>p. map_option (\<lambda>c. (descriptor_id c, c)) (persisted_tool_call p)) content)"

definition approval_options :: json where
  "approval_options = JArr [JObj [(''id'', JStr ''approve''), (''label'', JStr ''Approve'')],
     JObj [(''id'', JStr ''cancel''), (''label'', JStr ''Cancel'')]]"

definition approval_request_of :: "extraction \<Rightarrow> approval_part \<Rightarrow> call_descriptor \<Rightarrow> extraction_error + json" where
  "approval_request_of x a c = bindR (create_tool_call_action x c) (\<lambda>action. Inr (JObj [(''action'', action),
     (''allowFreeform'', JBool False), (''display'', JStr ''confirmation''), (''kind'', JStr ''tool-approval''),
     (''options'', approval_options), (''prompt'', JStr (''Approve tool call: '' @ descriptor_tool c)),
     (''requestId'', JStr (approval_id a))]))"

definition approval_target ::
  "string list \<Rightarrow> string list option \<Rightarrow> (string \<times> call_descriptor) list \<Rightarrow> json \<Rightarrow> (approval_part \<times> call_descriptor) option" where
  \<comment> \<open>The approval and the call it is about, unless the loop skips the part.\<close>
  "approval_target excluded included calls part = (case tool_approval_request part of
     None \<Rightarrow> None
   | Some a \<Rightarrow>
       if (\<exists>ids. included = Some ids \<and> approval_id a \<notin> set ids) \<or> is_automatic a then None
       else (case (case approval_call a of Some c \<Rightarrow> Some c
           | None \<Rightarrow> (case approval_call_id a of None \<Rightarrow> None | Some i \<Rightarrow> map_of calls i)) of
         None \<Rightarrow> None
       | Some c \<Rightarrow> if descriptor_id c \<in> set excluded then None else Some (a, c)))"

fun collect_results :: "('a \<Rightarrow> 'e + 'b) \<Rightarrow> 'a list \<Rightarrow> 'e + 'b list" where
  "collect_results f [] = Inr []"
| "collect_results f (a # as) = bindR (f a) (\<lambda>b. bindR (collect_results f as) (\<lambda>bs. Inr (b # bs)))"

definition extract_approval_requests ::
  "extraction \<Rightarrow> string list \<Rightarrow> string list option \<Rightarrow> json list \<Rightarrow> extraction_error + json list" where
  "extract_approval_requests x excluded included content =
     collect_results (\<lambda>(a, c). approval_request_of x a c)
       (List.map_filter (approval_target excluded included (calls_by_id content)) content)"

definition message_candidates :: "extraction \<Rightarrow> string list \<Rightarrow> json \<Rightarrow> extraction_error + json list" where
  "message_candidates x ids m = (case (jget m ''role'', jget m ''content'') of
     (JStr r, JArr content) \<Rightarrow>
       if r \<noteq> ''assistant'' then Inr []
       else bindR (extract_question_requests x [] (filter (\<lambda>c. descriptor_id c \<in> set ids) (List.map_filter persisted_tool_call content)))
         (\<lambda>qs. bindR (extract_approval_requests x [] (Some ids) content) (\<lambda>as. Inr (qs @ as)))
   | _ \<Rightarrow> Inr [])"

definition add_requests :: "string list \<Rightarrow> (string \<times> json) list \<Rightarrow> json list \<Rightarrow> (string \<times> json) list" where
  "add_requests ids found candidates = foldl (\<lambda>m q.
     if request_id q \<notin> set ids \<or> request_id q \<in> set (map fst m) then m else AList.update (request_id q) q m) found candidates"

fun history_loop :: "extraction \<Rightarrow> string list \<Rightarrow> json list \<Rightarrow> (string \<times> json) list \<Rightarrow> extraction_error + (string \<times> json) list" where
  \<comment> \<open>The messages are given newest first.\<close>
  "history_loop x ids [] found = Inr found"
| "history_loop x ids (m # ms) found = bindR (message_candidates x ids m) (\<lambda>candidates.
     (let found' = add_requests ids found candidates
      in if length found' = length ids \<and> jget m ''role'' = JStr ''assistant'' \<and> (\<exists>xs. jget m ''content'' = JArr xs)
         then Inr found' else history_loop x ids ms found'))"

definition extract_historical_input_requests ::
  "extraction \<Rightarrow> json list \<Rightarrow> string list \<Rightarrow> extraction_error + (string \<times> json) list" where
  "extract_historical_input_requests x messages ids = history_loop x (js_set ids) (rev messages) []"

section \<open>Dropping stale limit answers\<close>

record attributed_input = step_input +
  attributed_responses :: "json list option"

definition attributed_of :: "json \<Rightarrow> json" where
  "attributed_of entry = jget entry ''response''"

definition without_responses :: "attributed_input \<Rightarrow> json list \<Rightarrow> json list \<Rightarrow> attributed_input" where
  \<comment> \<open>The remaining fields, with the retained responses where there are any.\<close>
  "without_responses i rs as = i\<lparr>input_responses := (if rs = [] then None else Some rs),
     attributed_responses := (if as = [] then None else Some as)\<rparr>"

definition keeps_limit_answer :: "string list \<Rightarrow> string \<Rightarrow> bool" where
  "keeps_limit_answer pending i \<longleftrightarrow> i \<in> set pending \<or> \<not> is_session_limit_continuation_request_id i"

definition drop_stale_limit_responses :: "string list \<Rightarrow> attributed_input option \<Rightarrow> attributed_input option" where
  "drop_stale_limit_responses pending input = (case input of
     None \<Rightarrow> None
   | Some i \<Rightarrow>
       (let rs = or_empty (input_responses i); as = or_empty (attributed_responses i);
            kept = filter (\<lambda>r. keeps_limit_answer pending (request_id r)) rs;
            kept_as = filter (\<lambda>a. keeps_limit_answer pending (request_id (attributed_of a))) as
        in if length kept = length rs \<and> length kept_as = length as then Some i
           else Some (without_responses i kept kept_as)))"

section \<open>Stale answers as text\<close>

fun pretty_json :: "(rat \<Rightarrow> string) \<Rightarrow> string \<Rightarrow> json \<Rightarrow> string option" where
  \<comment> \<open>\<open>JSON.stringify(value, null, 2)\<close>, at an indentation.\<close>
  "pretty_json num ind JUndef = None"
| "pretty_json num ind (JArr xs) = Some (if xs = [] then ''[]''
     else ''['' @ [CHR 0x0A] @ join_with ('','' @ [CHR 0x0A]) (map (\<lambda>x. (ind @ ''  '') @
       (case pretty_json num (ind @ ''  '') x of None \<Rightarrow> ''null'' | Some t \<Rightarrow> t)) xs) @ [CHR 0x0A] @ ind @ '']'')"
| "pretty_json num ind (JObj ps) =
     (let members = concat (map (\<lambda>(k, v). case pretty_json num (ind @ ''  '') v of
        None \<Rightarrow> [] | Some t \<Rightarrow> [(ind @ ''  '') @ quote_string k @ '': '' @ t]) ps)
      in Some (if members = [] then ''{}''
        else ''{'' @ [CHR 0x0A] @ join_with ('','' @ [CHR 0x0A]) members @ [CHR 0x0A] @ ind @ ''}''))"
| "pretty_json num ind j = json_text num j"

definition selected_option :: "(string \<times> json) list \<Rightarrow> json \<Rightarrow> json option" where
  \<comment> \<open>The option of the request that the response chose.\<close>
  "selected_option requests r = (case map_of requests (request_id r) of
     None \<Rightarrow> None
   | Some q \<Rightarrow> (case jget q ''options'' of JArr os \<Rightarrow> find (\<lambda>c. jget c ''id'' = jget r ''optionId'') os | _ \<Rightarrow> None))"

definition response_details :: "(string \<times> json) list \<Rightarrow> json \<Rightarrow> json" where
  "response_details requests r = JObj (
     (if jget r ''optionId'' \<noteq> JUndef then [(''optionId'', jget r ''optionId'')] else []) @
     (case selected_option requests r of None \<Rightarrow> [] | Some c \<Rightarrow> [(''selectedOption'', JObj (
        [(''id'', jget c ''id''), (''label'', jget c ''label'')] @
        (if jget c ''description'' \<noteq> JUndef then [(''description'', jget c ''description'')] else [])))]) @
     (if jget r ''text'' \<noteq> JUndef then [(''text'', jget r ''text'')] else []))"

definition resolved_response :: "(string \<times> json) list \<Rightarrow> json \<Rightarrow> json" where
  "resolved_response requests r = JObj ([(''requestId'', jget r ''requestId''), (''response'', response_details requests r)] @
     (case map_of requests (request_id r) of
        None \<Rightarrow> []
      | Some q \<Rightarrow> [(''prompt'', jget q ''prompt''),
          (''requestType'', JStr (if is_approval_request q then ''approval'' else ''question''))]))"

definition may_include_approval :: "(string \<times> json) list \<Rightarrow> json list \<Rightarrow> bool" where
  "may_include_approval requests rs = list_ex (\<lambda>r. case map_of requests (request_id r) of
     None \<Rightarrow> True | Some q \<Rightarrow> is_approval_request q) rs"

definition approval_notice :: string where
  "approval_notice = '' This does not authorize an earlier action; request approval again if that action is still needed.''"

definition format_model_message :: "extraction \<Rightarrow> json list \<Rightarrow> (string \<times> json) list \<Rightarrow> string" where
  "format_model_message x rs requests = join_with [CHR 0x0A] [
     ''The user submitted the following response to an earlier interactive prompt.'',
     ''Treat it as new input at the current point in the conversation and decide whether it is still relevant.'' @
       (if may_include_approval requests rs then approval_notice else []),
     the (pretty_json (number_text x) [] (JArr (map (resolved_response requests) rs)))]"

definition format_display_message :: "json list \<Rightarrow> (string \<times> json) list \<Rightarrow> string" where
  "format_display_message rs requests = join_with [CHR 0x0A] (map (\<lambda>r.
     case jget r ''text'' of
       JStr (c # cs) \<Rightarrow> c # cs
     | _ \<Rightarrow> (case (case selected_option requests r of None \<Rightarrow> None | Some c \<Rightarrow> jstr c ''label'') of
         Some l \<Rightarrow> l
       | None \<Rightarrow> (case jstr r ''optionId'' of Some i \<Rightarrow> i | None \<Rightarrow> ''Response to an earlier interactive prompt''))) rs)"

definition append_optional_user_content :: "user_content option \<Rightarrow> string \<Rightarrow> user_content" where
  "append_optional_user_content existing appended = (case normalize_user_content existing of
     None \<Rightarrow> Text appended | Some c \<Rightarrow> append_user_content c (Text appended))"

datatype conversion = Unchanged "attributed_input option" | Converted (display_message: user_content) (converted_input: attributed_input)

definition stale_responses :: "string list \<Rightarrow> attributed_input \<Rightarrow> json list" where
  \<comment> \<open>The responses whose request is not pending: the plain ones, then the attributed ones.\<close>
  "stale_responses pending i = filter (\<lambda>r. request_id r \<notin> set pending)
     (or_empty (input_responses i) @ map attributed_of (or_empty (attributed_responses i)))"

definition convert_stale_responses ::
  "extraction \<Rightarrow> json list \<Rightarrow> string list \<Rightarrow> attributed_input option \<Rightarrow> extraction_error + conversion" where
  "convert_stale_responses x messages pending input = (case input of
     None \<Rightarrow> Inr (Unchanged None)
   | Some i \<Rightarrow>
       (let rs = or_empty (input_responses i); as = or_empty (attributed_responses i); stale = stale_responses pending i
        in if rs = [] \<and> as = [] \<or> stale = [] then Inr (Unchanged (Some i))
           else bindR (extract_historical_input_requests x messages (map request_id stale)) (\<lambda>requests.
             Inr (Converted (append_optional_user_content (message i) (format_display_message stale requests))
               ((without_responses i (filter (\<lambda>r. request_id r \<in> set pending) rs)
                  (filter (\<lambda>a. request_id (attributed_of a) \<in> set pending) as))
                \<lparr>message := Some (append_optional_user_content (message i) (format_model_message x stale requests))\<rparr>)))))"

definition handle_stale_responses ::
  "extraction \<Rightarrow> json list \<Rightarrow> string list \<Rightarrow> attributed_input option \<Rightarrow> extraction_error + conversion" where
  \<comment> \<open>The two passes as the tool loop runs them.\<close>
  "handle_stale_responses x messages pending input =
     convert_stale_responses x messages pending (drop_stale_limit_responses pending input)"

section \<open>The newest request wins\<close>

definition newest_request :: "extraction \<Rightarrow> string list \<Rightarrow> json list \<Rightarrow> string \<Rightarrow> json \<Rightarrow> bool" where
  \<comment> \<open>The request comes from the last message of the history that has one with this id.\<close>
  "newest_request x ids messages j q \<longleftrightarrow> j \<in> set ids \<and>
     (\<exists>older m newer candidates. messages = older @ m # newer \<and> message_candidates x ids m = Inr candidates \<and>
        find (\<lambda>q. request_id q = j) candidates = Some q \<and>
        (\<forall>n \<in> set newer. \<forall>cs. message_candidates x ids n = Inr cs \<longrightarrow> (\<forall>r \<in> set cs. request_id r \<noteq> j)))"

lemma add_requests_lookup:
  "map_of (add_requests ids found candidates) j = (case map_of found j of
     Some q \<Rightarrow> Some q
   | None \<Rightarrow> if j \<in> set ids then find (\<lambda>q. request_id q = j) candidates else None)"
proof (induction candidates arbitrary: found)
  case (Cons q qs)
  let ?m = "if request_id q \<notin> set ids \<or> request_id q \<in> set (map fst found) then found else AList.update (request_id q) q found"
  have "map_of ?m j = (case map_of found j of Some q \<Rightarrow> Some q
      | None \<Rightarrow> if j \<in> set ids \<and> request_id q = j then Some q else None)"
  proof (cases "map_of found (request_id q)")
    case None
    then have "request_id q \<notin> fst ` set found" by (simp add: map_of_eq_None_iff)
    with None show ?thesis by (auto simp: update_conv' split: option.split)
  next
    case (Some u)
    then have "request_id q \<in> fst ` set found" by (force dest: map_of_SomeD)
    with Some show ?thesis by (auto split: option.split)
  qed
  with Cons.IH [of ?m] show ?case by (auto simp: add_requests_def split: option.splits)
qed (simp add: add_requests_def split: option.split)

lemma find_none: "find P xs = None \<longleftrightarrow> (\<forall>x \<in> set xs. \<not> P x)"
  by (induction xs) auto

lemma history_newest:
  assumes "history_loop x ids (rev older) found = Inr result" and "map_of result j = Some q"
    and "\<And>j q. map_of found j = Some q \<Longrightarrow> newest_request x ids (older @ newer) j q"
    and "\<And>n cs r. n \<in> set newer \<Longrightarrow> message_candidates x ids n = Inr cs \<Longrightarrow> r \<in> set cs \<Longrightarrow> request_id r \<in> set ids \<Longrightarrow>
      map_of found (request_id r) \<noteq> None"
  shows "newest_request x ids (older @ newer) j q"
  using assms
proof (induction older arbitrary: newer found rule: rev_induct)
  case (snoc m older)
  from snoc.prems(1) obtain candidates where c: "message_candidates x ids m = Inr candidates" by auto
  let ?found = "add_requests ids found candidates"
  have keep: "map_of ?found j \<noteq> None" if "map_of found j \<noteq> None" for j
    using that by (auto simp: add_requests_lookup)
  have step: "newest_request x ids (older @ (m # newer)) j q" if j: "map_of ?found j = Some q" for j q
  proof (cases "map_of found j")
    case (Some q')
    with j have "map_of found j = Some q" by (simp add: add_requests_lookup)
    from snoc.prems(3) [OF this] show ?thesis by simp
  next
    case None
    with j have q: "j \<in> set ids" "find (\<lambda>q. request_id q = j) candidates = Some q"
      by (simp_all add: add_requests_lookup split: if_splits)
    have "request_id r \<noteq> j" if "n \<in> set newer" "message_candidates x ids n = Inr cs" "r \<in> set cs" for n cs r
      using snoc.prems(4) [OF that] None q(1) by auto
    with q c show ?thesis unfolding newest_request_def by blast
  qed
  have all: "map_of ?found (request_id r) \<noteq> None"
    if "n \<in> set (m # newer)" "message_candidates x ids n = Inr cs" "r \<in> set cs" "request_id r \<in> set ids" for n cs r
  proof (cases "n = m")
    case True
    with that c have "find (\<lambda>q. request_id q = request_id r) candidates \<noteq> None" by (auto simp: find_none)
    with that(4) show ?thesis by (auto simp: add_requests_lookup split: option.split)
  next
    case False
    with that snoc.prems(4) [of n cs r] show ?thesis by (intro keep) auto
  qed
  have "(if length ?found = length ids \<and> jget m ''role'' = JStr ''assistant'' \<and> (\<exists>xs. jget m ''content'' = JArr xs)
      then Inr ?found else history_loop x ids (rev older) ?found) = Inr result"
    using snoc.prems(1) by (simp only: rev_append rev.simps append.simps history_loop.simps c bindR_Inr Let_def)
  then consider "result = ?found" | "history_loop x ids (rev older) ?found = Inr result"
    by (metis sum.inject(2))
  then show ?case
  proof cases
    case 1
    with step [of j q] snoc.prems(2) show ?thesis by simp
  next
    case 2
    have "newest_request x ids (older @ (m # newer)) j q"
    proof (rule snoc.IH [OF 2 snoc.prems(2)])
      show "newest_request x ids (older @ (m # newer)) j q" if "map_of ?found j = Some q" for j q by (rule step [OF that])
      show "map_of ?found (request_id r) \<noteq> None"
        if "n \<in> set (m # newer)" "message_candidates x ids n = Inr cs" "r \<in> set cs" "request_id r \<in> set ids" for n cs r
        by (rule all [OF that])
    qed
    then show ?thesis by simp
  qed
qed simp

lemma extracted_newest:
  assumes "extract_historical_input_requests x messages ids = Inr requests" and "map_of requests j = Some q"
  shows "newest_request x (js_set ids) messages j q"
  using history_newest [of x "js_set ids" messages "[]" requests j q "[]"] assms
  by (simp add: extract_historical_input_requests_def)

section \<open>What the two passes do\<close>

lemma without_simps [simp]:
  "or_empty (input_responses (without_responses i rs as)) = rs" "or_empty (attributed_responses (without_responses i rs as)) = as"
  "message (without_responses i rs as) = message i"
  by (simp_all add: without_responses_def or_empty_def)

lemma kept_all: "length (filter P xs) = length xs \<longleftrightarrow> filter P xs = xs"
  by (metis length_filter_less nat_neq_iff filter_True)

lemma drop_responses:
  assumes "drop_stale_limit_responses pending (Some i) = Some d"
  shows "or_empty (input_responses d) = filter (\<lambda>r. keeps_limit_answer pending (request_id r)) (or_empty (input_responses i)) \<and>
    or_empty (attributed_responses d) =
      filter (\<lambda>a. keeps_limit_answer pending (request_id (attributed_of a))) (or_empty (attributed_responses i)) \<and>
    message d = message i"
  using assms by (auto simp: drop_stale_limit_responses_def Let_def kept_all split: if_splits)

definition stale_for_model :: "string list \<Rightarrow> attributed_input \<Rightarrow> json list" where
  \<comment> \<open>The stale responses except answers to old limit prompts.\<close>
  "stale_for_model pending i = filter (\<lambda>r. \<not> is_session_limit_continuation_request_id (request_id r)) (stale_responses pending i)"

lemma dropped_stale:
  assumes "drop_stale_limit_responses pending (Some i) = Some d"
  shows "stale_responses pending d = stale_for_model pending i"
  using drop_responses [OF assms]
  by (simp add: stale_responses_def stale_for_model_def keeps_limit_answer_def filter_map comp_def conj_ac cong: conj_cong)

lemma dropped_current:
  assumes "drop_stale_limit_responses pending (Some i) = Some d"
  shows "filter (\<lambda>r. request_id r \<in> set pending) (or_empty (input_responses d)) =
      filter (\<lambda>r. request_id r \<in> set pending) (or_empty (input_responses i))"
    and "filter (\<lambda>a. request_id (attributed_of a) \<in> set pending) (or_empty (attributed_responses d)) =
      filter (\<lambda>a. request_id (attributed_of a) \<in> set pending) (or_empty (attributed_responses i))"
  using drop_responses [OF assms] by (auto simp: keeps_limit_answer_def intro!: filter_cong)

lemma no_stale:
  assumes "stale_responses pending d = []"
  shows "or_empty (input_responses d) = filter (\<lambda>r. request_id r \<in> set pending) (or_empty (input_responses d))"
    and "or_empty (attributed_responses d) = filter (\<lambda>a. request_id (attributed_of a) \<in> set pending) (or_empty (attributed_responses d))"
  using assms by (auto simp: stale_responses_def filter_empty_conv intro!: filter_True [symmetric])

text \<open>
  C9: a stale answer never acts as an answer. Of the responses of a step, plain or attributed, exactly
  those to pending requests stay structured, in order; answers to old session-limit prompts vanish; the
  others reach the model only as text after the user's message, with what the newest matching request of
  the history says of them. If there are none, the message is untouched.
\<close>
theorem stale_answers_become_text:
  assumes "handle_stale_responses x messages pending (Some i) = Inr result"
  shows "let stale = stale_for_model pending i in \<exists>i'.
    (result = Unchanged (Some i') \<or> (\<exists>shown. result = Converted shown i')) \<and>
    or_empty (input_responses i') = filter (\<lambda>r. request_id r \<in> set pending) (or_empty (input_responses i)) \<and>
    or_empty (attributed_responses i') =
      filter (\<lambda>a. request_id (attributed_of a) \<in> set pending) (or_empty (attributed_responses i)) \<and>
    (if stale = [] then result = Unchanged (Some i') \<and> message i' = message i
     else \<exists>requests. (\<forall>j q. map_of requests j = Some q \<longrightarrow> newest_request x (js_set (map request_id stale)) messages j q) \<and>
       message i' = Some (append_optional_user_content (message i) (format_model_message x stale requests)))"
proof -
  obtain d where d: "drop_stale_limit_responses pending (Some i) = Some d"
    by (cases "drop_stale_limit_responses pending (Some i)") (auto simp: drop_stale_limit_responses_def Let_def split: if_splits)
  note cur = dropped_current [OF d] and stale = dropped_stale [OF d]
  have msg: "message d = message i" using drop_responses [OF d] by simp
  show ?thesis
  proof (cases "stale_for_model pending i = []")
    case True
    with assms d stale have "result = Unchanged (Some d)"
      by (simp add: handle_stale_responses_def convert_stale_responses_def Let_def)
    with no_stale [of pending d] cur msg stale True show ?thesis by (auto simp: Let_def)
  next
    case False
    then have some: "\<not> (or_empty (input_responses d) = [] \<and> or_empty (attributed_responses d) = [])"
      using stale by (auto simp: stale_responses_def)
    with assms d stale False obtain requests where r: "extract_historical_input_requests x messages (map request_id (stale_for_model pending i)) = Inr requests"
      and res: "result = Converted (append_optional_user_content (message d) (format_display_message (stale_for_model pending i) requests))
        ((without_responses d (filter (\<lambda>r. request_id r \<in> set pending) (or_empty (input_responses d)))
           (filter (\<lambda>a. request_id (attributed_of a) \<in> set pending) (or_empty (attributed_responses d))))
         \<lparr>message := Some (append_optional_user_content (message d) (format_model_message x (stale_for_model pending i) requests))\<rparr>)"
      by (auto simp: handle_stale_responses_def convert_stale_responses_def Let_def)
    have newest: "newest_request x (js_set (map request_id (stale_for_model pending i))) messages j q"
      if "map_of requests j = Some q" for j q by (rule extracted_newest [OF r that])
    have "or_empty (input_responses (w\<lparr>message := m\<rparr>)) = or_empty (input_responses w)"
      "or_empty (attributed_responses (w\<lparr>message := m\<rparr>)) = or_empty (attributed_responses w)" for w :: attributed_input and m
      by simp_all
    with res newest cur msg False show ?thesis
      by (auto simp: Let_def intro!: exI [of _ requests])
  qed
qed

section \<open>A concrete step\<close>

definition ask_only :: extraction where
  "ask_only = \<lparr>asks_question = (\<lambda>n. n = ''ask_question''), json_parse = (\<lambda>_. None), number_text = (\<lambda>_. [])\<rparr>"

definition choice :: "string \<Rightarrow> json" where
  "choice i = JObj [(''requestId'', JStr i), (''optionId'', JStr ''approve'')]"

definition two_choices :: attributed_input where
  "two_choices = \<lparr>input_responses = Some [choice ''now'', choice ''old''], message = Some (Text ''hi''), context_lines = None,
     client_context = None, output_schema = None, message_consumed = False, attributed_responses = None\<rparr>"

lemma choice_id [simp]: "request_id (choice i) = i"
  by (simp add: choice_def request_id_def jstr_def)

lemma plain_ids: "\<not> is_session_limit_continuation_request_id ''old''"
  by (simp add: is_session_limit_continuation_request_id_def last_field_def suffix_def lower_ascii_def)

text \<open>
  The arguments of an old tool call that are not JSON make the conversion fail, although the details
  from the history are only context for the model.
\<close>
lemma bad_arguments_fail:
  "handle_stale_responses ask_only [JObj [(''role'', JStr ''assistant''), (''content'', JArr [JObj [(''type'', JStr ''tool-call''),
      (''toolCallId'', JStr ''old''), (''toolName'', JStr ''ask_question''), (''input'', JStr ''{'')]])]] [''now''] (Some two_choices) =
   Inl (Bad_Arguments ''ask_question'' ''old'')"
  by (simp add: handle_stale_responses_def drop_stale_limit_responses_def two_choices_def or_empty_def keeps_limit_answer_def
      plain_ids convert_stale_responses_def stale_responses_def extract_historical_input_requests_def message_candidates_def
      js_set_def map_filter_simps persisted_tool_call_def tool_call_descriptor_def jstr_def ask_only_def
      create_tool_call_action_def resolve_tool_call_input_def blank_def trim_def is_space_def)

lemma stale_answers_become_text_witness:
  "\<exists>shown i'. handle_stale_responses ask_only [] [''now''] (Some two_choices) = Inr (Converted shown i') \<and>
     or_empty (input_responses i') = [choice ''now'']"
proof -
  have stale: "stale_for_model [''now''] two_choices = [choice ''old'']"
    by (simp add: stale_for_model_def stale_responses_def two_choices_def or_empty_def plain_ids)
  obtain result where r: "handle_stale_responses ask_only [] [''now''] (Some two_choices) = Inr result"
    by (simp add: handle_stale_responses_def drop_stale_limit_responses_def two_choices_def or_empty_def keeps_limit_answer_def
        plain_ids convert_stale_responses_def stale_responses_def extract_historical_input_requests_def Let_def)
  from stale_answers_become_text [OF r] stale obtain i' where
    "result = Unchanged (Some i') \<or> (\<exists>shown. result = Converted shown i')"
    "or_empty (input_responses i') = filter (\<lambda>r. request_id r \<in> set [''now'']) (or_empty (input_responses two_choices))"
    by (auto simp: Let_def)
  moreover have "filter (\<lambda>r. request_id r \<in> set [''now'']) (or_empty (input_responses two_choices)) = [choice ''now'']"
    by (simp add: two_choices_def or_empty_def)
  moreover have "result \<noteq> Unchanged u" for u
    using r by (auto simp: handle_stale_responses_def drop_stale_limit_responses_def two_choices_def or_empty_def keeps_limit_answer_def
        plain_ids convert_stale_responses_def stale_responses_def extract_historical_input_requests_def Let_def)
  ultimately show ?thesis using r by auto
qed

end
