(* ===== verification/Approval_Delivery.thy ===== *)
theory Approval_Delivery
  imports Approval_Runs Pending_Authorization Input_Resolution Stale_Responses
begin

text \<open>
  The coordinator of approval answers (\<open>harness/approval-delivery-coordinator.ts\<close>) and the projection of the
  audit state to stream events that follows it in a step (\<open>harness/tool-loop.ts\<close>). A pass runs inside a harness
  step. What it asks its surroundings is the record \<open>surroundings\<close>: the responder the context names, which
  sign-in callbacks arrived, what the response policy of a request's tool decides for a candidate, and how a date
  is parsed. A policy that throws, times out or returns anything unknown is \<open>Policy_Error\<close>.
\<close>

section \<open>Surroundings and results\<close>

datatype policy_outcome =
    Policy_Allowed
  | Policy_Rejected "string option"
  | Policy_Error
  | Policy_Sign_In "json list"

record surroundings =
  ambient_responder :: json \<comment> \<open>of the context store, \<open>null\<close> without one\<close>
  callback_responder :: json \<comment> \<open>\<open>session.auth.current\<close>\<close>
  callback_arrived :: "string \<Rightarrow> bool"
  response_policy :: "json \<Rightarrow> (string \<Rightarrow> json \<Rightarrow> policy_outcome) option" \<comment> \<open>by request: the policy of its tool\<close>
  parse_date :: "string \<Rightarrow> rat option" \<comment> \<open>finite results of \<open>Date.parse\<close>\<close>

record delivery_input = attributed_input +
  action_results :: "json list option"

datatype delivery_kind = Continue | Continue_Coordination | Authorization_Needed | Park

record approval_delivery =
  delivery_kind :: delivery_kind
  delivery_challenges :: "json list"
  delivery_feedback :: "string list"
  delivery_state :: "state_map option"
  delivery_step_input :: "delivery_input option"

datatype coordination_error = Batch_Error input_error | Candidate_Error approval_error

definition candidate_ttl :: rat where
  "candidate_ttl = 10 * 60000"

definition unauthenticated_feedback :: string where
  "unauthenticated_feedback = ''Authentication is required to respond to this approval.''"

section \<open>Step input\<close>

definition plain_answers :: "delivery_input option \<Rightarrow> json list" where
  "plain_answers i = (case i of None \<Rightarrow> [] | Some x \<Rightarrow> or_empty (input_responses x))"

definition attributed_answers :: "delivery_input option \<Rightarrow> json list" where
  "attributed_answers i = (case i of None \<Rightarrow> [] | Some x \<Rightarrow> or_empty (attributed_responses x))"

definition all_answers :: "delivery_input option \<Rightarrow> json list" where
  "all_answers i = map attributed_of (attributed_answers i) @ plain_answers i"

definition has_response_for :: "delivery_input option \<Rightarrow> string list \<Rightarrow> bool" where
  "has_response_for i ids \<longleftrightarrow> list_ex (\<lambda>r. request_id r \<in> set ids) (all_answers i)"

definition has_meaningful_input :: "delivery_input option \<Rightarrow> bool" where
  "has_meaningful_input i = (case i of None \<Rightarrow> False
     | Some x \<Rightarrow> message x \<noteq> None \<or> attributed_answers i \<noteq> [] \<or> plain_answers i \<noteq> [] \<or> or_empty (action_results x) \<noteq> [])"

definition remove_consumed :: "delivery_input option \<Rightarrow> string list \<Rightarrow> delivery_input option" where
  "remove_consumed i ids = (case i of None \<Rightarrow> None
     | Some x \<Rightarrow> Some (x\<lparr>attributed_responses := None,
         input_responses := Some (filter (\<lambda>r. request_id r \<notin> set ids) (plain_answers i) @
           map attributed_of (filter (\<lambda>e. request_id (attributed_of e) \<notin> set ids) (attributed_answers i)))\<rparr>))"

definition no_delivery_input :: delivery_input where
  "no_delivery_input = attributed_input.extend (step_input.extend empty_input \<lparr>attributed_responses = None\<rparr>) \<lparr>action_results = None\<rparr>"

definition settled_answer :: "settlement \<Rightarrow> json" where
  "settled_answer x = JObj [(''optionId'', JStr (if settlement_outcome x = Settled_Allowed then ''approve'' else ''cancel'')),
     (''requestId'', JStr (settlement_request x))]"

definition append_settled :: "delivery_input option \<Rightarrow> settlement list \<Rightarrow> delivery_input option" where
  "append_settled i xs = (if xs = [] then i
     else Some ((case i of None \<Rightarrow> no_delivery_input | Some x \<Rightarrow> x)
       \<lparr>input_responses := Some (plain_answers i @ map settled_answer xs)\<rparr>))"

section \<open>When tools are prepared\<close>

definition required_ids :: "batch \<Rightarrow> string list" where
  "required_ids b = (case strings_of (batch_auth_required b) of None \<Rightarrow> [] | Some xs \<Rightarrow> xs)"

definition challenges_of :: "active_candidate \<Rightarrow> json list" where
  "challenges_of c = (case candidate_challenges c of None \<Rightarrow> [] | Some cs \<Rightarrow> cs)"

definition has_callback :: "surroundings \<Rightarrow> active_candidate \<Rightarrow> bool" where
  "has_callback w c = list_ex (\<lambda>ch. callback_arrived w (text_at ch ''name'')) (challenges_of c)"

definition active_list :: "state_map option \<Rightarrow> active_candidate list" where
  "active_list s = map snd (active_candidates (read_approval_state s))"

definition settlement_list :: "state_map option \<Rightarrow> settlement list" where
  "settlement_list s = map snd (settlements (read_approval_state s))"

definition prepares_policy_tools :: "surroundings \<Rightarrow> rat \<Rightarrow> state_map option \<Rightarrow> delivery_input option \<Rightarrow> input_error + bool" where
  "prepares_policy_tools w now s i = bindR (get_pending_input_batches s) (\<lambda>bs. Inr (
     if list_ex (\<lambda>b. list_ex (\<lambda>q. is_approval_request q \<and> list_ex (\<lambda>r. request_id r = request_id q) (all_answers i)) (batch_requests b)) bs
     then False
     else list_ex (\<lambda>c. expires_at c > now \<and> (candidate_status c = Pending_Candidate \<or> has_callback w c)) (active_list s)))"

definition replayed_answers :: "batch list \<Rightarrow> delivery_input option \<Rightarrow> json list" where
  "replayed_answers bs i = all_answers i @ (case (bs, i) of
     ([b], Some x) \<Rightarrow> (case message x of
        Some (Text t) \<Rightarrow>
          if list_ex (\<lambda>r. list_ex (\<lambda>q. request_id q = request_id r) (batch_requests b)) (all_answers i) then []
          else resolve_text_to_responses t (filter (\<lambda>q. request_id q \<notin> set (required_ids b)) (batch_requests b))
      | _ \<Rightarrow> [])
   | _ \<Rightarrow> [])"

definition prepares_replay_tools :: "surroundings \<Rightarrow> rat \<Rightarrow> state_map option \<Rightarrow> delivery_input option \<Rightarrow> input_error + bool" where
  "prepares_replay_tools w now s i = bindR (prepares_policy_tools w now s i) (\<lambda>policy.
     if policy then Inr True
     else bindR (get_pending_input_batches s) (\<lambda>bs.
       let approved = map request_id (filter (\<lambda>r. jget r ''optionId'' = JStr ''approve'') (replayed_answers bs i))
       in Inr (list_ex (\<lambda>b. list_ex (\<lambda>q. is_approval_request q \<and> request_id q \<in> set approved) (batch_requests b)) bs)))"

section \<open>Answers that were delivered\<close>

record ingestion =
  ingested_state :: "state_map option"
  consumed_ids :: "string list"
  committed :: bool
  refusals :: "string list"

definition responder_of :: "json \<Rightarrow> json \<Rightarrow> json" where
  \<comment> \<open>The attributed responder unless it is \<open>undefined\<close>, else the one of the context.\<close>
  "responder_of attributed ambient = (if attributed \<noteq> JUndef then attributed else ambient)"

definition settle_now :: "json \<Rightarrow> settlement_outcome \<Rightarrow> string \<Rightarrow> rat \<Rightarrow> ingestion \<Rightarrow> ingestion" where
  "settle_now responder verdict r now g = (case settle_direct_response responder verdict r now (ingested_state g) of
     (changed, s) \<Rightarrow> g\<lparr>ingested_state := s, committed := committed g \<or> changed\<rparr>)"

definition ingest_one :: "surroundings \<Rightarrow> rat \<Rightarrow> string list \<Rightarrow> (string \<times> json) list \<Rightarrow> json \<times> json \<Rightarrow> ingestion \<Rightarrow> coordination_error + ingestion" where
  "ingest_one w now required requests answer g =
     (let (attributed, response) = answer; r = request_id response in
      case map_of requests r of
        None \<Rightarrow> Inr g
      | Some q \<Rightarrow>
          if \<not> is_approval_request q then Inr g
          else if r \<notin> set required then
            (let responder = responder_of attributed (ambient_responder w) in
             if responder \<noteq> JNull \<and> (jget response ''optionId'' = JStr ''approve'' \<or> jget response ''optionId'' = JStr ''cancel'')
             then Inr (settle_now responder
               (if jget response ''optionId'' = JStr ''approve'' then Settled_Allowed else Settled_Cancelled) r now g)
             else Inr g)
          else
            (let g = g\<lparr>consumed_ids := List.insert r (consumed_ids g)\<rparr>;
                 responder = responder_of attributed (callback_responder w) in
             if jget response ''optionId'' = JStr ''cancel'' then
               (if responder = JNull then Inr (g\<lparr>refusals := refusals g @ [unauthenticated_feedback]\<rparr>)
                else Inr (settle_now responder Settled_Cancelled r now g))
             else if jget response ''optionId'' \<noteq> JStr ''approve'' then Inr g
             else if responder = JNull then Inr (g\<lparr>refusals := refusals g @ [unauthenticated_feedback]\<rparr>)
             else (case create_approval_candidate (approval_candidate_id_prefix (request_id q) responder) now (now + candidate_ttl)
                 (request_id q) responder (ingested_state g) of
                 Inl e \<Rightarrow> Inl (Candidate_Error e)
               | Inr (changed, s) \<Rightarrow> Inr (g\<lparr>ingested_state := s, committed := committed g \<or> changed\<rparr>))))"

fun ingest :: "surroundings \<Rightarrow> rat \<Rightarrow> string list \<Rightarrow> (string \<times> json) list \<Rightarrow> (json \<times> json) list \<Rightarrow> ingestion \<Rightarrow> coordination_error + ingestion" where
  "ingest w now required requests [] g = Inr g"
| "ingest w now required requests (a # as) g =
     bindR (ingest_one w now required requests a g) (ingest w now required requests as)"

definition delivered_answers :: "delivery_input option \<Rightarrow> (json \<times> json) list" where
  "delivered_answers i = map (\<lambda>e. (jget e ''auth'', attributed_of e)) (attributed_answers i) @ map (\<lambda>r. (JUndef, r)) (plain_answers i)"

section \<open>Candidates that wait for a decision\<close>

record decision_pass =
  pass_state :: "state_map option"
  pass_challenges :: "json list"
  pass_committed :: bool
  pass_settled :: "settlement list"

definition failed_reason :: string where
  \<comment> \<open>The apostrophe of the source is typographic, beyond the characters of the model.\<close>
  "failed_reason = ''We couldn'' @ [CHR 0x27] @ ''t verify your approval. Please try again.''"

definition unavailable_reason :: string where
  "unavailable_reason = ''Approval authorization is temporarily unavailable. Please try again.''"

definition challenge_for :: "string \<Rightarrow> json \<Rightarrow> json" where
  "challenge_for i c = spread c [(''candidateId'', JStr i)]"

definition provider_expiry :: "surroundings \<Rightarrow> json list \<Rightarrow> rat option" where
  "provider_expiry w cs = (case sort (List.map_filter (\<lambda>c. parse_date w (text_at (jget c ''challenge'') ''expiresAt'')) cs) of
     [] \<Rightarrow> None | t # _ \<Rightarrow> Some t)"

definition authorize_candidate ::
  "surroundings \<Rightarrow> rat \<Rightarrow> json \<Rightarrow> string \<Rightarrow> json \<Rightarrow> state_map option \<Rightarrow> json list \<times> bool \<times> state_map option" where
  \<comment> \<open>The challenges, whether something was committed, and the state.\<close>
  "authorize_candidate w now q i responder s0 =
     (let s = expire_approval_candidates now s0;
          failed = (\<lambda>reason. ([], True, finish_approval_candidate i now (Some reason) Failed s)) in
      if get_active_candidate s i = None then ([], False, s)
      else case response_policy w q of
        None \<Rightarrow> failed unavailable_reason
      | Some policy \<Rightarrow>
          (case policy i responder of
             Policy_Rejected reason \<Rightarrow> ([], True, finish_approval_candidate i now reason Rejected s)
           | Policy_Allowed \<Rightarrow>
               (case settle_allowed_candidate i now s of
                  Inl _ \<Rightarrow> failed failed_reason
                | Inr (changed, s') \<Rightarrow> ([], changed, s'))
           | Policy_Sign_In cs \<Rightarrow> (map (challenge_for i) cs, True,
               mark_authorization_required (map (challenge_for i) cs) i (provider_expiry w cs) s)
           | Policy_Error \<Rightarrow> failed failed_reason))"

definition decide_one :: "surroundings \<Rightarrow> rat \<Rightarrow> (string \<times> json) list \<Rightarrow> string list \<Rightarrow> active_candidate \<Rightarrow> decision_pass \<Rightarrow> decision_pass" where
  "decide_one w now requests parked c p =
     (if candidate_status c = Authorization_Required \<and> \<not> has_callback w c
      then p\<lparr>pass_challenges := pass_challenges p @ filter (\<lambda>ch. text_at ch ''name'' \<notin> set parked) (challenges_of c)\<rparr>
      else case map_of requests (candidate_request c) of
        None \<Rightarrow> p
      | Some q \<Rightarrow>
          if get_active_candidate (pass_state p) (candidate_id c) = None then p
          else (case authorize_candidate w now q (candidate_id c) (candidate_responder c) (pass_state p) of (cs, changed, s) \<Rightarrow>
            p\<lparr>pass_state := s, pass_committed := pass_committed p \<or> changed, pass_challenges := pass_challenges p @ cs,
              pass_settled := pass_settled p @ option_list
                (find (\<lambda>x. settlement_request x = candidate_request c) (settlement_list s))\<rparr>))"

fun decide :: "surroundings \<Rightarrow> rat \<Rightarrow> (string \<times> json) list \<Rightarrow> string list \<Rightarrow> active_candidate list \<Rightarrow> decision_pass \<Rightarrow> decision_pass" where
  "decide w now requests parked [] p = p"
| "decide w now requests parked (c # cs) p = decide w now requests parked cs (decide_one w now requests parked c p)"

section \<open>One pass\<close>

definition delivery_result :: "delivery_kind \<Rightarrow> json list \<Rightarrow> string list \<Rightarrow> state_map option \<Rightarrow> delivery_input option \<Rightarrow> approval_delivery" where
  "delivery_result k cs fs s i = \<lparr>delivery_kind = k, delivery_challenges = cs, delivery_feedback = fs, delivery_state = s,
     delivery_step_input = i\<rparr>"

definition expired_challenge_names :: "rat \<Rightarrow> state_map option \<Rightarrow> string list" where
  "expired_challenge_names now s = concat (map (\<lambda>c. map (\<lambda>ch. text_at ch ''name'') (challenges_of c))
     (filter (\<lambda>c. expires_at c \<le> now) (active_list s)))"

definition expired_session :: "rat \<Rightarrow> state_map option \<Rightarrow> state_map option" where
  "expired_session now s = clear_pending_authorization (Some (expired_challenge_names now s)) (expire_approval_candidates now s)"

definition request_map :: "batch list \<Rightarrow> (string \<times> json) list" where
  "request_map bs = entries_map (map (\<lambda>q. (request_id q, q)) (concat (map batch_requests bs)))"

definition parked_names :: "state_map option \<Rightarrow> string list" where
  "parked_names s = map (\<lambda>c. text_at c ''name'') (pending_challenges s)"

definition decision_result ::
  "surroundings \<Rightarrow> rat \<Rightarrow> batch list \<Rightarrow> active_candidate list \<Rightarrow> settlement list \<Rightarrow> delivery_input option \<Rightarrow> state_map option \<Rightarrow> approval_delivery" where
  \<comment> \<open>The second half: no answer was consumed and nothing was committed.\<close>
  "decision_result w now bs start settled i s =
     (let p = decide w now (request_map bs) (parked_names s) start
            \<lparr>pass_state = s, pass_challenges = [], pass_committed = False, pass_settled = settled\<rparr>;
          resumed = append_settled i (pass_settled p) in
      if pass_settled p \<noteq> [] then delivery_result Continue [] [] (pass_state p) resumed
      else if pass_committed p then delivery_result Continue_Coordination [] [] (pass_state p) resumed
      else delivery_result (if pass_challenges p \<noteq> [] then Authorization_Needed else Continue) (pass_challenges p) []
        (pass_state p) resumed)"

definition coordinate_batches :: "surroundings \<Rightarrow> rat \<Rightarrow> batch list \<Rightarrow> settlement list \<Rightarrow> delivery_input option \<Rightarrow> state_map option \<Rightarrow> coordination_error + approval_delivery" where
  "coordinate_batches w now bs settled i s =
     bindR (ingest w now (concat (map required_ids bs)) (request_map bs) (delivered_answers i)
         \<lparr>ingested_state = s, consumed_ids = [], committed = False, refusals = []\<rparr>) (\<lambda>g.
       let remaining = remove_consumed i (consumed_ids g) in
       if consumed_ids g \<noteq> [] then
         Inr (delivery_result (if committed g then Continue_Coordination else Continue) [] (refusals g) (ingested_state g) remaining)
       else if committed g then Inr (delivery_result Continue [] (refusals g) (ingested_state g) remaining)
       else Inr (decision_result w now bs (active_list s) settled remaining (ingested_state g)))"

definition coordinate_approval_delivery ::
  "surroundings \<Rightarrow> rat \<Rightarrow> state_map option \<Rightarrow> delivery_input option \<Rightarrow> coordination_error + approval_delivery" where
  "coordinate_approval_delivery w now s0 input =
     (let s = expired_session now s0 in
      case get_pending_input_batches s of
        Inl e \<Rightarrow> Inl (Batch_Error e)
      | Inr bs \<Rightarrow>
          (let pending = concat (map batch_ids bs);
               open_settlements = filter (\<lambda>x. settlement_request x \<in> set pending) (settlement_list s);
               settled_ids = map settlement_request (settlement_list s);
               discarded = has_response_for input settled_ids;
               i = (if discarded then remove_consumed input settled_ids else input) in
           if discarded \<and> open_settlements = [] \<and> \<not> has_meaningful_input i then Inr (delivery_result Park [] [] s i)
           else if bs = [] then Inr (delivery_result Continue [] [] s i)
           else coordinate_batches w now bs open_settlements i s))"

section \<open>Events\<close>

datatype approval_event =
    Candidate_Event string string "string option" "string option" string
    \<comment> \<open>candidate, request, outcome (none while pending), reason, principal\<close>
  | Settled_Event string settlement_outcome string

definition pending_event :: "active_candidate \<Rightarrow> approval_event" where
  "pending_event c = Candidate_Event (candidate_id c) (candidate_request c) None None (text_at (candidate_responder c) ''principalId'')"

definition history_event :: "audit_record \<Rightarrow> approval_event" where
  "history_event h = Candidate_Event (audit_candidate h) (audit_request h) (Some (candidate_outcome_text (audit_status h)))
     (audit_reason h) (principal_id (audit_responder h))"

definition settled_event :: "settlement \<Rightarrow> approval_event" where
  "settled_event x = Settled_Event (settlement_request x) (settlement_outcome x) (principal_id (settlement_actor x))"

definition publish_approval_events :: "state_map option \<Rightarrow> approval_event list \<times> state_map option" where
  "publish_approval_events s =
     (let a = read_approval_state s;
          cs = filter (\<lambda>c. \<not> pending_emitted c) (map snd (active_candidates a));
          hs = filter (\<lambda>h. \<not> audit_emitted h \<and> audit_status h \<noteq> Allowed) (candidate_history a);
          xs = filter (\<lambda>x. \<not> settlement_emitted x) (map snd (settlements a))
      in (map pending_event cs @ map history_event hs @ map settled_event xs,
          foldl (\<lambda>s x. mark_settlement_emitted (settlement_request x) s)
            (foldl (\<lambda>s h. mark_history_emitted (audit_candidate h) s)
              (foldl (\<lambda>s c. mark_pending_emitted (candidate_id c) s) s cs) hs) xs))"

section \<open>A pass is a run of the record's operations\<close>

text \<open>
  Every pass changes the approval record only through the operations of \<open>approval-candidates.ts\<close>, and otherwise
  only removes sign-in attempts, which are another slot.
\<close>

inductive approval_path :: "state_map option \<Rightarrow> state_map option \<Rightarrow> bool" where
  path_refl: "approval_path s s"
| path_step: "approval_path s s' \<Longrightarrow> approval_path s (approval_step s' op)"
| path_clear: "approval_path s s' \<Longrightarrow> approval_path s (clear_pending_authorization ids s')"

lemma path_trans: "approval_path s t \<Longrightarrow> approval_path t u \<Longrightarrow> approval_path s u"
  by (rotate_tac, induction rule: approval_path.induct) (auto intro: approval_path.intros)

lemma read_after_clear [simp]: "read_approval_state (clear_pending_authorization ids s) = read_approval_state s"
proof -
  have k: "approval_state_key \<noteq> pending_authorization_key"
    by (simp add: approval_state_key_def pending_authorization_key_def)
  have "state_get (clear_pending_authorization ids s) approval_state_key = state_get s approval_state_key"
    using k by (auto simp: clear_pending_authorization_def drop_authorization_def Let_def split: option.split)
  then show ?thesis by (simp add: read_approval_state_def)
qed

lemma path_keeps:
  assumes "approval_path s s'" and "\<And>s op. P (read_approval_state s) \<Longrightarrow> P (read_approval_state (approval_step s op))"
    and "P (read_approval_state s)"
  shows "P (read_approval_state s')"
  using assms by (induction rule: approval_path.induct) auto

lemma path_inv: "approval_path s s' \<Longrightarrow> approval_inv (read_approval_state s) \<Longrightarrow> approval_inv (read_approval_state s')"
  by (erule path_keeps) (rule approval_step_inv)

lemma path_one: "approval_path s (approval_step s op)"
  by (intro path_step path_refl)

lemma path_expired: "approval_path s (expired_session now s)"
  unfolding expired_session_def using path_one [of s "Expire now"] by (auto intro: path_clear)

lemma path_settle_now: "approval_path (ingested_state g) (ingested_state (settle_now responder verdict r now g))"
  using path_one [of "ingested_state g" "Answer_Directly responder verdict r now"]
  by (simp add: settle_now_def split_def)

lemma path_create:
  "create_approval_candidate (approval_candidate_id_prefix r responder) t e r responder s = Inr (changed, s') \<Longrightarrow> approval_path s s'"
  using path_one [of s "Ask r responder t e"] by (simp add: kept_state_def)

definition requests_keyed :: "(string \<times> json) list \<Rightarrow> bool" where
  "requests_keyed requests \<longleftrightarrow> (\<forall>r q. map_of requests r = Some q \<longrightarrow> request_id q = r)"

lemma requests_keyed_map: "requests_keyed (request_map bs)"
  unfolding requests_keyed_def request_map_def map_of_entries_map by (auto dest!: map_of_SomeD)

lemma ingested_settle_now [simp]:
  "ingested_state (settle_now responder verdict r now g) = snd (settle_direct_response responder verdict r now (ingested_state g))"
  "consumed_ids (settle_now responder verdict r now g) = consumed_ids g"
  by (simp_all add: settle_now_def split_def)

text \<open>What one answer can do to the record.\<close>

datatype ingest_effect =
    No_Effect
  | Direct json settlement_outcome
  | Candidate json

fun effect_of :: "surroundings \<Rightarrow> string list \<Rightarrow> (string \<times> json) list \<Rightarrow> json \<times> json \<Rightarrow> ingest_effect" where
  "effect_of w required requests (attributed, response) =
     (let r = request_id response; choice = jget response ''optionId'';
          direct = responder_of attributed (ambient_responder w);
          bound = responder_of attributed (callback_responder w) in
      case map_of requests r of
        None \<Rightarrow> No_Effect
      | Some q \<Rightarrow>
          if \<not> is_approval_request q then No_Effect
          else if r \<notin> set required then
            (if direct \<noteq> JNull \<and> choice = JStr ''approve'' then Direct direct Settled_Allowed
             else if direct \<noteq> JNull \<and> choice = JStr ''cancel'' then Direct direct Settled_Cancelled
             else No_Effect)
          else if bound = JNull then No_Effect
          else if choice = JStr ''cancel'' then Direct bound Settled_Cancelled
          else if choice = JStr ''approve'' then Candidate bound
          else No_Effect)"

fun apply_effect :: "rat \<Rightarrow> string \<Rightarrow> ingest_effect \<Rightarrow> state_map option \<Rightarrow> approval_error + state_map option" where
  "apply_effect now r No_Effect s = Inr s"
| "apply_effect now r (Direct responder verdict) s = Inr (snd (settle_direct_response responder verdict r now s))"
| "apply_effect now r (Candidate responder) s =
     bindR (create_approval_candidate (approval_candidate_id_prefix r responder) now (now + candidate_ttl) r responder s) (\<lambda>x. Inr (snd x))"

definition consumes :: "string list \<Rightarrow> (string \<times> json) list \<Rightarrow> string \<Rightarrow> bool" where
  "consumes required requests r \<longleftrightarrow> r \<in> set required \<and> (\<exists>q. map_of requests r = Some q \<and> is_approval_request q)"

lemma ingest_one_effect:
  assumes "requests_keyed requests" and "ingest_one w now required requests a g = Inr g'"
  shows "apply_effect now (request_id (snd a)) (effect_of w required requests a) (ingested_state g) = Inr (ingested_state g') \<and>
    set (consumed_ids g') = set (consumed_ids g) \<union> (if consumes required requests (request_id (snd a)) then {request_id (snd a)} else {})"
proof -
  obtain attributed response where a: "a = (attributed, response)" by force
  let ?r = "request_id response"
  show ?thesis
  proof (cases "map_of requests ?r")
    case None
    with assms(2) show ?thesis by (auto simp: a ingest_one_def consumes_def)
  next
    case (Some q)
    then have q: "request_id q = ?r" using assms(1) by (simp add: requests_keyed_def)
    show ?thesis
    proof (cases "is_approval_request q")
      case False
      with Some assms(2) show ?thesis by (simp add: a ingest_one_def consumes_def Let_def)
    next
      case approval: True
      show ?thesis
      proof (cases "?r \<in> set required")
        case False
        let ?w = "responder_of attributed (ambient_responder w)"
        consider "?w = JNull" | "?w \<noteq> JNull" "jget response ''optionId'' = JStr ''approve''"
          | "?w \<noteq> JNull" "jget response ''optionId'' = JStr ''cancel''"
          | "jget response ''optionId'' \<noteq> JStr ''approve''" "jget response ''optionId'' \<noteq> JStr ''cancel''"
          by blast
        then show ?thesis
          using False approval Some assms(2) by cases (auto simp: a ingest_one_def consumes_def Let_def)
      next
        case True
        let ?w = "responder_of attributed (callback_responder w)"
        note run = assms(2) [unfolded a ingest_one_def Let_def prod.case Some option.case, simplified approval True, simplified]
        have used: "consumes required requests ?r" using True Some approval by (simp add: consumes_def)
        consider (cancel) "jget response ''optionId'' = JStr ''cancel''"
          | (approve) "jget response ''optionId'' = JStr ''approve''"
          | (other) "jget response ''optionId'' \<noteq> JStr ''approve''" "jget response ''optionId'' \<noteq> JStr ''cancel''"
          by blast
        then show ?thesis
        proof cases
          case cancel
          with run have "g' = (let h = g\<lparr>consumed_ids := List.insert ?r (consumed_ids g)\<rparr> in
              if ?w = JNull then h\<lparr>refusals := refusals h @ [unauthenticated_feedback]\<rparr>
              else settle_now ?w Settled_Cancelled ?r now h)"
            by (simp add: Let_def split: if_splits)
          then show ?thesis using True approval Some used by (simp add: a cancel Let_def)
        next
          case approve
          show ?thesis
          proof (cases "?w = JNull")
            case no: True
            with run approve have "g' = g\<lparr>consumed_ids := List.insert ?r (consumed_ids g), refusals := refusals g @ [unauthenticated_feedback]\<rparr>"
              by simp
            then show ?thesis using True approval Some used by (simp add: a approve no Let_def)
          next
            case yes: False
            let ?made = "create_approval_candidate (approval_candidate_id_prefix ?r ?w) now (now + candidate_ttl) ?r ?w (ingested_state g)"
            from run approve yes q obtain changed s where "?made = Inr (changed, s)"
              and "g' = g\<lparr>consumed_ids := List.insert ?r (consumed_ids g), ingested_state := s, committed := committed g \<or> changed\<rparr>"
              by (auto split: sum.splits)
            then show ?thesis using True approval Some used yes by (simp add: a approve Let_def)
          qed
        next
          case other
          with run have "g' = g\<lparr>consumed_ids := List.insert ?r (consumed_ids g)\<rparr>" by simp
          then show ?thesis using True approval Some used other by (simp add: a Let_def)
        qed
      qed
    qed
  qed
qed

lemma path_effect: "apply_effect now r e s = Inr s' \<Longrightarrow> approval_path s s'"
proof (cases e)
  case (Direct responder verdict)
  assume "apply_effect now r e s = Inr s'"
  with path_one [of s "Answer_Directly responder verdict r now"] show ?thesis by (simp add: Direct)
next
  case (Candidate responder)
  assume "apply_effect now r e s = Inr s'"
  then show ?thesis by (auto simp: Candidate intro: path_create)
qed (simp add: path_refl)

lemma path_ingest:
  "requests_keyed requests \<Longrightarrow> ingest w now required requests as g = Inr g' \<Longrightarrow>
     approval_path (ingested_state g) (ingested_state g')"
proof (induction w now required requests as g rule: ingest.induct)
  case (2 w now required requests a as g)
  then obtain h where h: "ingest_one w now required requests a g = Inr h" "ingest w now required requests as h = Inr g'" by auto
  from ingest_one_effect [OF 2(2) h(1)] have "approval_path (ingested_state g) (ingested_state h)" by (blast intro: path_effect)
  with 2 h show ?case by (blast intro: path_trans)
qed (simp add: path_refl)

lemma path_authorize:
  assumes "authorize_candidate w now q i responder s = (cs, changed, s')"
  shows "approval_path s s'"
proof -
  let ?e = "expire_approval_candidates now s"
  have e: "approval_path s ?e" using path_one [of s "Expire now"] by simp
  have fail: "approval_path s (finish_approval_candidate i now reason Failed ?e)" for reason
    using path_step [OF e, of "Fail_Candidate i now reason"] by simp
  have reject: "approval_path s (finish_approval_candidate i now reason Rejected ?e)" for reason
    using path_step [OF e, of "Reject i now reason"] by simp
  have require: "approval_path s (mark_authorization_required cs i t ?e)" for cs t
    using path_step [OF e, of "Require_Authorization cs i t"] by simp
  have allow: "approval_path s t" if "settle_allowed_candidate i now ?e = Inr (b, t)" for b t
    using path_step [OF e, of "Allow i now"] that by (simp add: kept_state_def)
  show ?thesis
    using assms e fail reject require allow unfolding authorize_candidate_def Let_def
    by (auto split: option.splits if_splits policy_outcome.splits sum.splits)
qed

lemma path_decide_one: "approval_path (pass_state p) (pass_state (decide_one w now requests parked c p))"
  by (auto simp: decide_one_def path_refl split: option.split prod.split intro: path_authorize)

lemma path_decide: "approval_path (pass_state p) (pass_state (decide w now requests parked cs p))"
  by (induction w now requests parked cs p rule: decide.induct) (auto intro: path_refl path_trans path_decide_one)

lemma decision_result_state:
  "delivery_state (decision_result w now bs start settled i s) =
     pass_state (decide w now (request_map bs) (parked_names s) start
       \<lparr>pass_state = s, pass_challenges = [], pass_committed = False, pass_settled = settled\<rparr>)"
  by (simp add: decision_result_def Let_def delivery_result_def)

theorem coordination_path:
  assumes "coordinate_approval_delivery w now s input = Inr d"
  shows "approval_path s (delivery_state d)"
proof -
  let ?s = "expired_session now s"
  from assms consider "delivery_state d = ?s" | bs settled i where "coordinate_batches w now bs settled i ?s = Inr d"
    unfolding coordinate_approval_delivery_def Let_def
    by (auto simp: delivery_result_def split: sum.splits if_splits)
  then have "approval_path ?s (delivery_state d)"
  proof cases
    case 2
    then obtain g where g: "ingest w now (concat (map required_ids bs)) (request_map bs) (delivered_answers i)
         \<lparr>ingested_state = ?s, consumed_ids = [], committed = False, refusals = []\<rparr> = Inr g"
      and d: "delivery_state d = ingested_state g \<or> delivery_state d = delivery_state (decision_result w now bs (active_list ?s) settled
          (remove_consumed i (consumed_ids g)) (ingested_state g))"
      by (auto simp: coordinate_batches_def Let_def delivery_result_def split: if_splits)
    have "approval_path ?s (ingested_state g)"
      using path_ingest [OF requests_keyed_map g] by simp
    with d path_decide show ?thesis
      by (metis decision_result_state decision_pass.select_convs(1) path_trans)
  qed (simp add: path_refl)
  with path_expired show ?thesis by (rule path_trans)
qed

end
