(* ===== verification/Approval_Safety.thy ===== *)
theory Approval_Safety
  imports Approval_Delivery
begin

text \<open>
  What a pass of the approval coordinator guarantees: an answer to a request whose responder must be authorized
  reaches the rest of the step only as the projection of a settlement, and a new settlement that allows such a
  request is the decision of the response policy of its tool for an unexpired candidate and that candidate's
  responder.
\<close>

section \<open>Expiry\<close>

lemma finish_read:
  "settlements (read_approval_state (finish_approval_candidate i t reason status s)) = settlements (read_approval_state s)"
  "map_of (active_candidates (read_approval_state (finish_approval_candidate i t reason status s))) =
     (map_of (active_candidates (read_approval_state s)))(i := None)"
  by (auto simp: finish_approval_candidate_def read_commit delete_conv' split: option.split)

lemma expire_each_read:
  "settlements (read_approval_state (expire_each now cs s)) = settlements (read_approval_state s) \<and>
   map_of (active_candidates (read_approval_state (expire_each now cs s))) =
     (\<lambda>k. if \<exists>c \<in> set cs. candidate_id c = k \<and> expires_at c \<le> now then None
          else map_of (active_candidates (read_approval_state s)) k)"
  by (induction now cs s rule: expire_each.induct) (auto simp: finish_read fun_eq_iff)

lemma expire_settlements [simp]:
  "settlements (read_approval_state (expire_approval_candidates now s)) = settlements (read_approval_state s)"
  by (simp add: expire_approval_candidates_def expire_each_read)

lemma expire_active:
  assumes "approval_inv (read_approval_state s)"
  shows "map_of (active_candidates (read_approval_state (expire_approval_candidates now s))) k = Some c \<longleftrightarrow>
    map_of (active_candidates (read_approval_state s)) k = Some c \<and> now < expires_at c"
proof -
  let ?A = "active_candidates (read_approval_state s)"
  note D = approval_invD [OF assms]
  have "(\<exists>d \<in> set (map snd ?A). candidate_id d = k \<and> expires_at d \<le> now) \<longleftrightarrow>
      (\<exists>d. map_of ?A k = Some d \<and> expires_at d \<le> now)"
    using D(2) by (auto simp: map_of_eq_Some_iff [OF D(1)] image_iff) (metis snd_conv)+
  then show ?thesis
    unfolding expire_approval_candidates_def by (auto simp: expire_each_read not_le)
qed

lemma expire_nothing:
  assumes "\<And>k c. map_of (active_candidates (read_approval_state s)) k = Some c \<Longrightarrow> now < expires_at c"
    and "approval_inv (read_approval_state s)"
  shows "map_of (active_candidates (read_approval_state (expire_approval_candidates now s))) =
    map_of (active_candidates (read_approval_state s))"
proof
  fix k
  show "map_of (active_candidates (read_approval_state (expire_approval_candidates now s))) k =
      map_of (active_candidates (read_approval_state s)) k"
    using expire_active [OF assms(2), of now k] assms(1) [of k]
    by (cases "map_of (active_candidates (read_approval_state s)) k") (metis not_None_eq, metis)
qed

section \<open>Frames\<close>

definition frame :: "state_map option \<Rightarrow> state_map option \<Rightarrow> bool" where
  \<comment> \<open>No candidate appears, and no candidate changes its request or responder.\<close>
  "frame s s' \<longleftrightarrow> active_within (read_approval_state s') (read_approval_state s)"

lemma active_within_refl [simp]: "active_within a a"
  by (simp add: active_within_def)

lemma active_within_trans: "active_within c b \<Longrightarrow> active_within b a \<Longrightarrow> active_within c a"
  unfolding active_within_def by fastforce

lemma frame_refl [simp]: "frame s s"
  by (simp add: frame_def)

lemma frame_trans: "frame s t \<Longrightarrow> frame t u \<Longrightarrow> frame s u"
  unfolding frame_def by (rule active_within_trans)

lemma frame_finish: "frame s (finish_approval_candidate i t reason status s)"
  by (auto simp: frame_def active_within_def finish_read split: if_splits)

lemma frame_expire: "frame s (expire_approval_candidates now s)"
  by (auto simp: frame_def active_within_def expire_approval_candidates_def expire_each_read split: if_splits)

lemma frame_require: "frame s (mark_authorization_required cs i e s)"
  by (auto simp: frame_def mark_authorization_required_def read_commit active_within_def split: option.split if_splits)

lemma frame_settle:
  assumes "approval_inv (read_approval_state s)"
  shows "frame s (snd (settle_request actor chosen verdict q t s))"
proof (cases "settle actor chosen verdict q t (read_approval_state s)")
  case None
  then show ?thesis by (simp add: settle_request_def frame_def read_commit)
next
  case (Some a)
  from settle_result [OF assms Some] have "active_candidates a = filter (\<lambda>p. candidate_request (snd p) \<noteq> q) (active_candidates (read_approval_state s))"
    by simp
  then have "map_of (active_candidates a) k = Some c \<Longrightarrow> map_of (active_candidates (read_approval_state s)) k = Some c" for k c
    using map_of_filter_value [OF approval_invD(1) [OF assms], of "\<lambda>c. candidate_request c \<noteq> q" k] by (auto split: option.splits if_splits)
  with Some show ?thesis by (auto simp: settle_request_def frame_def read_commit active_within_def)
qed

lemma frame_allow:
  assumes "approval_inv (read_approval_state s)" and "settle_allowed_candidate i t s = Inr (changed, s')"
  shows "frame s s'"
  using allow_cases [OF assms(2)] frame_expire [of s t] frame_settle [OF expire_inv [OF assms(1)]]
  by (auto intro: frame_trans)

section \<open>One decision\<close>

definition policy_allowed :: "surroundings \<Rightarrow> rat \<Rightarrow> json \<Rightarrow> active_candidate \<Rightarrow> bool" where
  "policy_allowed w now q c \<longleftrightarrow> now < expires_at c \<and>
     (\<exists>policy. response_policy w q = Some policy \<and> policy (candidate_id c) (candidate_responder c) = Policy_Allowed)"

definition settled_for :: "active_candidate \<Rightarrow> settlement \<Rightarrow> bool" where
  "settled_for c x \<longleftrightarrow> settlement_outcome x = Settled_Allowed \<and> settlement_candidate x = Some (candidate_id c) \<and>
     settlement_actor x = project_responder (candidate_responder c) \<and> settlement_request x = candidate_request c"

lemma settle_request_settlements:
  assumes "map_of (settlements (read_approval_state (snd (settle_request actor chosen verdict q t s)))) r = Some x"
  shows "map_of (settlements (read_approval_state s)) r = Some x \<or>
    r = q \<and> x = \<lparr>settlement_actor = actor, settlement_outcome = verdict, settlement_request = q, settled_at = t,
      settlement_candidate = chosen, settlement_emitted = False\<rparr>"
  using assms by (auto simp: settle_request_def read_commit settle_def update_conv' simp del: entries_map.simps split: if_splits)

lemma authorize_settlements:
  assumes inv: "approval_inv (read_approval_state s)"
    and run: "authorize_candidate w now q i responder s = (cs, changed, s')"
    and x: "map_of (settlements (read_approval_state s')) r = Some x"
  shows "map_of (settlements (read_approval_state s)) r = Some x \<or>
    (\<exists>c. map_of (active_candidates (read_approval_state s)) i = Some c \<and> candidate_request c = r \<and> settled_for c x \<and>
       (candidate_responder c = responder \<longrightarrow> policy_allowed w now q c))"
proof -
  let ?e = "expire_approval_candidates now s"
  have einv: "approval_inv (read_approval_state ?e)" by (rule expire_inv [OF inv])
  show ?thesis
  proof (cases "\<exists>policy. get_active_candidate ?e i \<noteq> None \<and> response_policy w q = Some policy \<and> policy i responder = Policy_Allowed")
    case False
    then have "settlements (read_approval_state s') = settlements (read_approval_state s)"
      using run unfolding authorize_candidate_def Let_def
      by (auto simp: finish_read mark_authorization_required_def read_commit split: option.splits if_splits policy_outcome.splits)
    with x show ?thesis by simp
  next
    case True
    then obtain policy c where c: "map_of (active_candidates (read_approval_state ?e)) i = Some c"
      and p: "response_policy w q = Some policy" "policy i responder = Policy_Allowed"
      by (auto simp: get_active_candidate_def)
    from c have c0: "map_of (active_candidates (read_approval_state s)) i = Some c" "now < expires_at c"
      using expire_active [OF inv] by simp_all
    have id: "candidate_id c = i" by (rule approval_invD(2) [OF inv c0(1)])
    let ?ee = "expire_approval_candidates now ?e"
    have c2: "map_of (active_candidates (read_approval_state ?ee)) i = Some c"
      using expire_active [OF einv, of now i c] c c0(2) by simp
    then have s': "s' = snd (settle_request (project_responder (candidate_responder c)) (Some (candidate_id c)) Settled_Allowed
        (candidate_request c) now ?ee)"
      using run c p by (simp add: authorize_candidate_def get_active_candidate_def settle_allowed_candidate_def Let_def split_def)
    from settle_request_settlements [OF x [unfolded s']] c0 id p show ?thesis
      by (auto simp: settled_for_def policy_allowed_def)
  qed
qed

lemma authorize_frame:
  assumes inv: "approval_inv (read_approval_state s)" and run: "authorize_candidate w now q i responder s = (cs, changed, s')"
  shows "frame s s' \<and> keeps_settled s s' \<and> approval_inv (read_approval_state s')"
proof -
  let ?e = "expire_approval_candidates now s"
  have e: "frame s ?e" "keeps_settled s ?e" "approval_inv (read_approval_state ?e)"
    by (rule frame_expire, rule keeps_settled_expire, rule expire_inv [OF inv])
  have "frame ?e s' \<and> keeps_settled ?e s'"
    using run e(3) unfolding authorize_candidate_def Let_def
    by (auto simp: frame_finish keeps_settled_finish frame_require keeps_settled_require
        intro: frame_allow keeps_settled_allow split: option.splits if_splits policy_outcome.splits sum.splits)
  with e have "frame s s'" "keeps_settled s s'" by (auto intro: frame_trans keeps_settled_trans)
  with path_inv [OF path_authorize [OF run] inv] show ?thesis by simp
qed

section \<open>All decisions of a pass\<close>

lemma settlement_list_iff:
  assumes "approval_inv (read_approval_state s)"
  shows "x \<in> set (settlement_list s) \<longleftrightarrow> map_of (settlements (read_approval_state s)) (settlement_request x) = Some x"
proof -
  let ?X = "settlements (read_approval_state s)"
  have d: "distinct (map fst ?X)" using assms by (simp add: approval_inv_def settlements_distinct_def)
  have k: "settlement_request y = r" if "map_of ?X r = Some y" for r y
    using assms that by (simp add: approval_inv_def settled_allowed_def)
  have "x \<in> set (settlement_list s) \<longleftrightarrow> (\<exists>r. map_of ?X r = Some x)"
    by (force simp: settlement_list_def map_of_eq_Some_iff [OF d] image_iff)
  with k show ?thesis by blast
qed

definition settled_by_policy :: "surroundings \<Rightarrow> rat \<Rightarrow> (string \<times> json) list \<Rightarrow> state_map option \<Rightarrow> string \<Rightarrow> settlement \<Rightarrow> bool" where
  "settled_by_policy w now requests t r x \<longleftrightarrow> (\<exists>c q. map_of (active_candidates (read_approval_state t)) (candidate_id c) = Some c \<and>
     candidate_request c = r \<and> map_of requests r = Some q \<and> settled_for c x \<and> policy_allowed w now q c)"

definition unexpired :: "rat \<Rightarrow> state_map option \<Rightarrow> bool" where
  "unexpired now t \<longleftrightarrow> (\<forall>k c. map_of (active_candidates (read_approval_state t)) k = Some c \<longrightarrow> now < expires_at c)"

definition settled_in :: "state_map option \<Rightarrow> settlement \<Rightarrow> bool" where
  "settled_in s x \<longleftrightarrow> map_of (settlements (read_approval_state s)) (settlement_request x) = Some x"

definition lawful_pass ::
  "surroundings \<Rightarrow> rat \<Rightarrow> (string \<times> json) list \<Rightarrow> state_map option \<Rightarrow> (string \<Rightarrow> settlement \<Rightarrow> bool) \<Rightarrow> decision_pass \<Rightarrow> bool" where
  \<comment> \<open>Relative to the candidates of a state and to the settlements known before.\<close>
  "lawful_pass w now requests t known p \<longleftrightarrow> approval_inv (read_approval_state (pass_state p)) \<and> frame t (pass_state p) \<and>
     (\<forall>x \<in> set (pass_settled p). settled_in (pass_state p) x) \<and>
     (\<forall>r x. map_of (settlements (read_approval_state (pass_state p))) r = Some x \<longrightarrow>
        known r x \<or> settled_by_policy w now requests t r x)"

lemma decide_one_cases:
  obtains (idle) "pass_state (decide_one w now requests parked c p) = pass_state p"
      "pass_settled (decide_one w now requests parked c p) = pass_settled p"
  | (run) q cs changed s where "map_of requests (candidate_request c) = Some q"
      "authorize_candidate w now q (candidate_id c) (candidate_responder c) (pass_state p) = (cs, changed, s)"
      "pass_state (decide_one w now requests parked c p) = s"
      "pass_settled (decide_one w now requests parked c p) = pass_settled p @ option_list
         (find (\<lambda>x. settlement_request x = candidate_request c) (settlement_list s))"
proof (cases "map_of requests (candidate_request c)")
  case None
  then show ?thesis by (intro idle) (simp_all add: decide_one_def)
next
  case (Some q)
  obtain cs changed s where run': "authorize_candidate w now q (candidate_id c) (candidate_responder c) (pass_state p) = (cs, changed, s)"
    by (metis prod_cases3)
  show ?thesis
  proof (cases "candidate_status c = Authorization_Required \<and> \<not> has_callback w c \<or> get_active_candidate (pass_state p) (candidate_id c) = None")
    case True
    with Some show ?thesis by (intro idle) (auto simp: decide_one_def)
  next
    case False
    with Some run' show ?thesis by (intro run [OF Some run']) (auto simp: decide_one_def)
  qed
qed

lemma lawful_decide_one:
  assumes law: "lawful_pass w now requests t known p" and fresh: "unexpired now t"
    and start: "map_of (active_candidates (read_approval_state t)) (candidate_id c) = Some c"
  shows "lawful_pass w now requests t known (decide_one w now requests parked c p)"
proof -
  let ?s = "pass_state p"
  show ?thesis
  proof (cases rule: decide_one_cases [of w now requests parked c p])
    case idle
    with law show ?thesis by (simp add: lawful_pass_def)
  next
    case (run q cs changed s)
    from law have inv: "approval_inv (read_approval_state ?s)" and fr: "frame t ?s" by (simp_all add: lawful_pass_def)
    from authorize_frame [OF inv run(2)] have fr': "frame ?s s" and keep: "keeps_settled ?s s" and inv': "approval_inv (read_approval_state s)"
      by simp_all
    have "known r x \<or> settled_by_policy w now requests t r x"
      if x: "map_of (settlements (read_approval_state s)) r = Some x" for r x
      using authorize_settlements [OF inv run(2) x]
    proof (elim disjE exE conjE)
      assume "map_of (settlements (read_approval_state ?s)) r = Some x"
      with law show ?thesis by (simp add: lawful_pass_def)
    next
      fix d
      assume d: "map_of (active_candidates (read_approval_state ?s)) (candidate_id c) = Some d" "candidate_request d = r" "settled_for d x"
        and allowed: "candidate_responder d = candidate_responder c \<longrightarrow> policy_allowed w now q d"
      from active_withinD [OF fr [unfolded frame_def] d(1)] start
      have same: "candidate_id d = candidate_id c" "candidate_request d = candidate_request c" "candidate_responder d = candidate_responder c"
        by simp_all
      from same d have "settled_for c x" by (simp add: settled_for_def)
      moreover from allowed same have "policy_allowed w now q d" by simp
      then have "policy_allowed w now q c" using same fresh start by (auto simp: policy_allowed_def unexpired_def)
      ultimately have "settled_by_policy w now requests t r x"
        using start run(1) same d(2) unfolding settled_by_policy_def by metis
      then show ?thesis ..
    qed
    moreover have "settled_in s x" if "x \<in> set (pass_settled (decide_one w now requests parked c p))" for x
    proof -
      from that consider "x \<in> set (pass_settled p)" | "x \<in> set (settlement_list s)"
        by (auto simp: run(4) dest!: find_SomeD)
      then show ?thesis
      proof cases
        case 1
        with law have "settled_in ?s x" by (simp add: lawful_pass_def)
        with keep show ?thesis by (simp add: settled_in_def keeps_settledD)
      qed (use settlement_list_iff [OF inv'] in \<open>simp add: settled_in_def\<close>)
    qed
    ultimately show ?thesis
      using inv' frame_trans [OF fr fr'] by (simp add: lawful_pass_def run(3))
  qed
qed

lemma lawful_decide:
  assumes "lawful_pass w now requests t known p" and "unexpired now t"
    and "\<And>c. c \<in> set cs \<Longrightarrow> map_of (active_candidates (read_approval_state t)) (candidate_id c) = Some c"
  shows "lawful_pass w now requests t known (decide w now requests parked cs p)"
  using assms
proof (induction cs arbitrary: p)
  case (Cons c cs)
  from lawful_decide_one [OF Cons.prems(1,2) Cons.prems(3) [of c]]
  have "lawful_pass w now requests t known (decide_one w now requests parked c p)" by simp
  from Cons.IH [OF this Cons.prems(2)] Cons.prems(3) show ?case by simp
qed simp

section \<open>The delivered answers\<close>

lemma effect_direct_required:
  "effect_of w required requests a = Direct responder verdict \<Longrightarrow> request_id (snd a) \<in> set required \<Longrightarrow> verdict = Settled_Cancelled"
  by (cases a) (auto simp: Let_def split: option.splits if_splits)

lemma effect_candidate_consumes:
  "effect_of w required requests a = Candidate responder \<Longrightarrow> consumes required requests (request_id (snd a))"
  by (cases a) (auto simp: Let_def consumes_def split: option.splits if_splits)

lemma direct_settlements:
  assumes "map_of (settlements (read_approval_state (snd (settle_direct_response actor verdict q t s)))) r = Some x"
  shows "map_of (settlements (read_approval_state s)) r = Some x \<or> r = q \<and> settlement_outcome x = verdict"
  using settle_request_settlements [OF assms [unfolded settle_direct_response_def]] by auto

lemma effect_settlements:
  assumes "apply_effect now r e s = Inr s'" and "map_of (settlements (read_approval_state s')) k = Some x"
  shows "map_of (settlements (read_approval_state s)) k = Some x \<or>
    (\<exists>responder verdict. e = Direct responder verdict \<and> k = r \<and> settlement_outcome x = verdict)"
proof (cases e)
  case (Direct responder verdict)
  with assms show ?thesis by (auto dest: direct_settlements)
next
  case (Candidate responder)
  with assms(1) obtain changed where
    c: "create_approval_candidate (approval_candidate_id_prefix r responder) now (now + candidate_ttl) r responder s = Inr (changed, s')"
    by auto
  have "settlements (read_approval_state s') = settlements (read_approval_state s)"
    using create_cases [OF c] by auto
  with assms(2) show ?thesis by simp
qed (use assms in simp)

lemma effect_frame:
  assumes "approval_inv (read_approval_state s)" and "apply_effect now r e s = Inr s'" and "\<And>responder. e \<noteq> Candidate responder"
  shows "frame s s'"
proof (cases e)
  case (Direct responder verdict)
  with assms(2) have "s' = snd (settle_direct_response responder verdict r now s)" by simp
  then show ?thesis
    unfolding settle_direct_response_def
    using frame_settle [OF expire_inv [OF assms(1)]] frame_expire frame_trans by metis
qed (use assms in simp_all)

lemma ingest_spec:
  assumes "ingest w now required requests as g = Inr g'" and keyed: "requests_keyed requests"
    and "approval_inv (read_approval_state (ingested_state g))"
  shows "set (consumed_ids g') = set (consumed_ids g) \<union> {r \<in> (request_id \<circ> snd) ` set as. consumes required requests r} \<and>
    (\<forall>r x. map_of (settlements (read_approval_state (ingested_state g'))) r = Some x \<longrightarrow> r \<in> set required \<longrightarrow>
       map_of (settlements (read_approval_state (ingested_state g))) r = Some x \<or> settlement_outcome x = Settled_Cancelled) \<and>
    (consumed_ids g' = [] \<longrightarrow> frame (ingested_state g) (ingested_state g'))"
  using assms(1,3)
proof (induction as arbitrary: g)
  case Nil
  then show ?case by simp
next
  case (Cons a as)
  from Cons.prems(1) obtain h where h: "ingest_one w now required requests a g = Inr h" "ingest w now required requests as h = Inr g'"
    by auto
  let ?r = "request_id (snd a)" and ?e = "effect_of w required requests a"
  from ingest_one_effect [OF keyed h(1)] have eff: "apply_effect now ?r ?e (ingested_state g) = Inr (ingested_state h)"
    and cons: "set (consumed_ids h) = set (consumed_ids g) \<union> (if consumes required requests ?r then {?r} else {})"
    by simp_all
  have inv: "approval_inv (read_approval_state (ingested_state h))"
    by (rule path_inv [OF path_effect [OF eff] Cons.prems(2)])
  note IH = Cons.IH [OF h(2) inv]
  have consumed: "set (consumed_ids g') = set (consumed_ids g) \<union> {r \<in> (request_id \<circ> snd) ` set (a # as). consumes required requests r}"
    using IH cons by auto
  have "map_of (settlements (read_approval_state (ingested_state g))) r = Some x \<or> settlement_outcome x = Settled_Cancelled"
    if x: "map_of (settlements (read_approval_state (ingested_state g'))) r = Some x" and r: "r \<in> set required" for r x
  proof -
    from IH x r consider "settlement_outcome x = Settled_Cancelled" | "map_of (settlements (read_approval_state (ingested_state h))) r = Some x"
      by blast
    then show ?thesis
    proof cases
      case 2
      from effect_settlements [OF eff 2] effect_direct_required [of w required requests a] r show ?thesis by blast
    qed blast
  qed
  moreover have "frame (ingested_state g) (ingested_state g')" if "consumed_ids g' = []"
  proof -
    from that consumed have "\<not> consumes required requests ?r" by auto
    with effect_candidate_consumes have "\<And>responder. ?e \<noteq> Candidate responder" by blast
    with effect_frame [OF Cons.prems(2) eff] have "frame (ingested_state g) (ingested_state h)" by blast
    with IH that show ?thesis by (blast intro: frame_trans)
  qed
  ultimately show ?case using consumed by blast
qed

section \<open>Answers come from settlements\<close>

lemma expired_other_slot:
  assumes "k \<noteq> approval_state_key"
  shows "state_get (expire_approval_candidates now s) k = state_get s k"
proof -
  have put: "state_get (write_approval_state t a) k = state_get t k" for t a
    using assms by (simp add: write_approval_state_def)
  have "state_get (commit f t) k = state_get t k" for f t
    by (simp add: commit_def put split: option.split)
  then have "state_get (expire_each now cs t) k = state_get t k" for cs t
    by (induction now cs t rule: expire_each.induct) (simp_all add: finish_approval_candidate_def)
  then show ?thesis by (simp add: expire_approval_candidates_def)
qed

lemma pending_batches_expired: "get_pending_input_batches (expired_session now s) = get_pending_input_batches s"
proof -
  have "state_get (clear_pending_authorization ids t) k = state_get t k" if "k \<noteq> pending_authorization_key" for ids t k
    using that by (auto simp: clear_pending_authorization_def drop_authorization_def Let_def split: option.split)
  moreover have "pending_batches_key \<noteq> approval_state_key" "legacy_batch_key \<noteq> approval_state_key"
    "pending_batches_key \<noteq> pending_authorization_key" "legacy_batch_key \<noteq> pending_authorization_key"
    by (simp_all add: pending_batches_key_def legacy_batch_key_def approval_state_key_def pending_authorization_key_def)
  ultimately have "state_get (expired_session now s) pending_batches_key = state_get s pending_batches_key"
    "state_get (expired_session now s) legacy_batch_key = state_get s legacy_batch_key"
    by (simp_all add: expired_session_def expired_other_slot)
  then show ?thesis by (simp only: get_pending_input_batches_def)
qed

lemma answers_after_removal:
  "r \<in> set (all_answers (remove_consumed i ids)) \<longleftrightarrow> r \<in> set (all_answers i) \<and> request_id r \<notin> set ids"
  by (cases i) (auto simp: remove_consumed_def all_answers_def plain_answers_def attributed_answers_def or_empty_def)

lemma answers_after_append:
  "r \<in> set (all_answers (append_settled i xs)) \<longleftrightarrow> r \<in> set (all_answers i) \<or> r \<in> settled_answer ` set xs"
  by (cases i) (auto simp: append_settled_def all_answers_def plain_answers_def attributed_answers_def or_empty_def
    no_delivery_input_def empty_input_def step_input.defs attributed_input.defs)

lemma delivered_answers_ids: "(\<lambda>a. request_id (snd a)) ` set (delivered_answers i) = request_id ` set (all_answers i)"
  by (force simp: delivered_answers_def all_answers_def image_iff)

lemma request_id_settled [simp]: "request_id (settled_answer x) = settlement_request x"
  by (simp add: settled_answer_def request_id_def jstr_def)

lemma request_map_at:
  assumes "get_pending_input_batches s = Inr bs" and "q \<in> set (concat (map batch_requests bs))"
  shows "map_of (request_map bs) (request_id q) = Some q"
proof -
  let ?kv = "map (\<lambda>q. (request_id q, q)) (concat (map batch_requests bs))"
  have "map request_id (concat (map batch_requests bs)) = concat (map batch_ids bs)"
    by (simp add: map_concat batch_ids_def [abs_def] comp_def)
  with get_pending_unique [OF assms(1)] have "distinct (map fst ?kv)"
    by (simp add: unique_requests_def comp_def)
  then show ?thesis
    using assms(2) unfolding request_map_def by (subst map_of_entries_map_distinct) (force intro: map_of_is_SomeI)+
qed

lemma effect_keeps_settled:
  assumes "apply_effect now r e s = Inr s'"
  shows "keeps_settled s s'"
  using assms by (cases e) (auto intro: keeps_settled_direct keeps_settled_create)

lemma ingest_keeps_settled:
  "requests_keyed requests \<Longrightarrow> ingest w now required requests as g = Inr g' \<Longrightarrow> keeps_settled (ingested_state g) (ingested_state g')"
proof (induction as arbitrary: g)
  case (Cons a as)
  then obtain h where h: "ingest_one w now required requests a g = Inr h" "ingest w now required requests as h = Inr g'" by auto
  from ingest_one_effect [OF Cons.prems(1) h(1)] have "keeps_settled (ingested_state g) (ingested_state h)"
    by (blast intro: effect_keeps_settled)
  with Cons.IH [OF Cons.prems(1) h(2)] show ?case by (blast intro: keeps_settled_trans)
qed simp

definition approved_by_policy :: "surroundings \<Rightarrow> rat \<Rightarrow> state_map option \<Rightarrow> json \<Rightarrow> settlement \<Rightarrow> bool" where
  \<comment> \<open>A candidate of the state that has not expired, for the request, whose responder the policy allowed.\<close>
  "approved_by_policy w now s q x \<longleftrightarrow> (\<exists>c. map_of (active_candidates (read_approval_state s)) (candidate_id c) = Some c \<and>
     candidate_request c = request_id q \<and> settled_for c x \<and> policy_allowed w now q c)"

lemma active_list_at:
  assumes "approval_inv (read_approval_state s)" and "c \<in> set (active_list s)"
  shows "map_of (active_candidates (read_approval_state s)) (candidate_id c) = Some c"
proof -
  let ?A = "active_candidates (read_approval_state s)"
  note D = approval_invD [OF assms(1)]
  from assms(2) obtain k where "map_of ?A k = Some c"
    by (auto simp: active_list_def map_of_eq_Some_iff [OF D(1)])
  with D(2) show ?thesis by blast
qed

lemma expired_session_facts:
  assumes "approval_inv (read_approval_state s)"
  shows "approval_inv (read_approval_state (expired_session now s))" "unexpired now (expired_session now s)"
    "settlements (read_approval_state (expired_session now s)) = settlements (read_approval_state s)"
    "map_of (active_candidates (read_approval_state (expired_session now s))) k = Some c \<Longrightarrow>
       map_of (active_candidates (read_approval_state s)) k = Some c"
  using expire_inv [OF assms] expire_active [OF assms, of now] by (simp_all add: expired_session_def unexpired_def)

lemma decision_answers:
  assumes inv: "approval_inv (read_approval_state t)" and fresh: "unexpired now t"
    and g: "keeps_settled t g" "frame t g" "approval_inv (read_approval_state g)"
    and d: "d = decision_result w now bs (active_list t) (filter P (settlement_list t)) i g"
    and new: "a \<in> set (all_answers (delivery_step_input d))" "a \<notin> set (all_answers i)"
  obtains x where "map_of (settlements (read_approval_state (delivery_state d))) (request_id a) = Some x" "a = settled_answer x"
    "map_of (settlements (read_approval_state g)) (request_id a) = Some x \<or> settled_by_policy w now (request_map bs) t (request_id a) x"
proof -
  let ?start = "\<lparr>pass_state = g, pass_challenges = [], pass_committed = False, pass_settled = filter P (settlement_list t)\<rparr>"
  let ?p = "decide w now (request_map bs) (parked_names g) (active_list t) ?start"
  let ?known = "\<lambda>r x. map_of (settlements (read_approval_state g)) r = Some x"
  have "settled_in g x" if "x \<in> set (settlement_list t)" for x
    using that g(1) settlement_list_iff [OF inv] by (simp add: settled_in_def keeps_settledD)
  with g(2,3) have "lawful_pass w now (request_map bs) t ?known ?start" by (simp add: lawful_pass_def)
  then have law: "lawful_pass w now (request_map bs) t ?known ?p"
    by (rule lawful_decide [OF _ fresh]) (rule active_list_at [OF inv])
  have "delivery_step_input d = append_settled i (pass_settled ?p)" and ds: "delivery_state d = pass_state ?p"
    by (auto simp: d decision_result_def Let_def delivery_result_def)
  with new obtain x where x: "x \<in> set (pass_settled ?p)" "a = settled_answer x" by (auto simp: answers_after_append)
  with law have sx: "map_of (settlements (read_approval_state (pass_state ?p))) (request_id a) = Some x"
    by (auto simp: lawful_pass_def settled_in_def)
  moreover from law sx have "?known (request_id a) x \<or> settled_by_policy w now (request_map bs) t (request_id a) x"
    unfolding lawful_pass_def by blast
  ultimately show thesis using x(2) ds by (intro that [of x]) simp_all
qed

lemma required_answer_from_decision:
  fixes bs :: "batch list"
  defines "req \<equiv> concat (map required_ids bs)"
  assumes run: "coordinate_batches w now bs settled i t = Inr d" and inv: "approval_inv (read_approval_state t)"
    and answer: "consumes req (request_map bs) (request_id a)" "a \<in> set (all_answers (delivery_step_input d))"
  obtains g where "d = decision_result w now bs (active_list t) settled (remove_consumed i []) g" "a \<notin> set (all_answers (remove_consumed i []))"
    "keeps_settled t g" "frame t g" "approval_inv (read_approval_state g)"
    "\<And>r x. map_of (settlements (read_approval_state g)) r = Some x \<Longrightarrow> r \<in> set req \<Longrightarrow>
       map_of (settlements (read_approval_state t)) r = Some x \<or> settlement_outcome x = Settled_Cancelled"
proof -
  from run obtain h where h: "ingest w now req (request_map bs) (delivered_answers i)
       \<lparr>ingested_state = t, consumed_ids = [], committed = False, refusals = []\<rparr> = Inr h"
    and d: "delivery_step_input d = remove_consumed i (consumed_ids h) \<or>
      consumed_ids h = [] \<and> d = decision_result w now bs (active_list t) settled (remove_consumed i (consumed_ids h)) (ingested_state h)"
    by (auto simp: coordinate_batches_def req_def Let_def delivery_result_def split: if_splits)
  have spec: "set (consumed_ids h) = {r \<in> request_id ` set (all_answers i). consumes req (request_map bs) r} \<and>
    (\<forall>r x. map_of (settlements (read_approval_state (ingested_state h))) r = Some x \<longrightarrow> r \<in> set req \<longrightarrow>
       map_of (settlements (read_approval_state t)) r = Some x \<or> settlement_outcome x = Settled_Cancelled) \<and>
    (consumed_ids h = [] \<longrightarrow> frame t (ingested_state h))"
    using ingest_spec [OF h requests_keyed_map] inv by (simp add: delivered_answers_ids)
  have gone: "a \<notin> set (all_answers (remove_consumed i (consumed_ids h)))"
    using spec answer(1) unfolding answers_after_removal by (metis (mono_tags, lifting) imageI mem_Collect_eq)
  with d answer(2) have none: "consumed_ids h = []"
    and d': "d = decision_result w now bs (active_list t) settled (remove_consumed i (consumed_ids h)) (ingested_state h)"
    by auto
  have "keeps_settled t (ingested_state h)" using ingest_keeps_settled [OF requests_keyed_map h] by simp
  moreover have "approval_inv (read_approval_state (ingested_state h))"
    using path_inv [OF path_ingest [OF requests_keyed_map h]] inv by simp
  ultimately show thesis using d' gone spec none by (intro that [of "ingested_state h"]) auto
qed

text \<open>
  C6: when a response policy guards an approval request, the answer the step goes on with is never the
  delivered one. It is the answer of the recorded settlement, and a recorded approval was there before the pass or
  was granted in it: the policy of the request's tool, asked about a live candidate and its own responder, allowed it.
\<close>
theorem required_answers_are_settled:
  assumes run: "coordinate_approval_delivery w now s input = Inr d"
    and inv: "approval_inv (read_approval_state s)"
    and bs: "get_pending_input_batches s = Inr bs"
    and q: "q \<in> set (concat (map batch_requests bs))" "is_approval_request q" "request_id q \<in> set (concat (map required_ids bs))"
    and answer: "answer \<in> set (all_answers (delivery_step_input d))" "request_id answer = request_id q"
  shows "\<exists>x. map_of (settlements (read_approval_state (delivery_state d))) (request_id q) = Some x \<and> answer = settled_answer x \<and>
    (settlement_outcome x = Settled_Allowed \<longrightarrow>
       map_of (settlements (read_approval_state s)) (request_id q) = Some x \<or> approved_by_policy w now s q x)"
proof -
  let ?t = "expired_session now s"
  let ?open = "filter (\<lambda>x. settlement_request x \<in> set (concat (map batch_ids bs))) (settlement_list ?t)"
  note E = expired_session_facts [OF inv, of now]
  have mq: "map_of (request_map bs) (request_id q) = Some q" by (rule request_map_at [OF bs q(1)])
  with q(2,3) answer(2) have cons: "consumes (concat (map required_ids bs)) (request_map bs) (request_id answer)"
    by (simp add: consumes_def)
  have "\<not> has_meaningful_input i \<Longrightarrow> all_answers i = []" for i
    by (cases i) (auto simp: has_meaningful_input_def all_answers_def plain_answers_def attributed_answers_def)
  moreover have "get_pending_input_batches ?t = Inr bs" "bs \<noteq> []" using bs q(1) by (auto simp: pending_batches_expired)
  ultimately obtain i where "coordinate_batches w now bs ?open i ?t = Inr d"
    using run answer(1) by (force simp: coordinate_approval_delivery_def Let_def delivery_result_def split: if_splits)
  from required_answer_from_decision [OF this E(1) cons answer(1)] obtain g
    where d: "d = decision_result w now bs (active_list ?t) ?open (remove_consumed i []) g"
      and gone: "answer \<notin> set (all_answers (remove_consumed i []))"
      and g: "keeps_settled ?t g" "frame ?t g" "approval_inv (read_approval_state g)"
      and old: "\<And>r x. map_of (settlements (read_approval_state g)) r = Some x \<Longrightarrow> r \<in> set (concat (map required_ids bs)) \<Longrightarrow>
        map_of (settlements (read_approval_state ?t)) r = Some x \<or> settlement_outcome x = Settled_Cancelled"
    by blast
  from decision_answers [OF E(1,2) g d answer(1) gone] obtain x
    where x: "map_of (settlements (read_approval_state (delivery_state d))) (request_id q) = Some x" "answer = settled_answer x"
      and origin: "map_of (settlements (read_approval_state g)) (request_id q) = Some x \<or>
        settled_by_policy w now (request_map bs) ?t (request_id q) x"
    unfolding answer(2) by blast
  have "map_of (settlements (read_approval_state s)) (request_id q) = Some x \<or> approved_by_policy w now s q x"
    if "settlement_outcome x = Settled_Allowed"
    using origin
  proof
    assume "map_of (settlements (read_approval_state g)) (request_id q) = Some x"
    from old [OF this q(3)] that E(3) show ?thesis by simp
  next
    assume "settled_by_policy w now (request_map bs) ?t (request_id q) x"
    with mq show ?thesis unfolding settled_by_policy_def approved_by_policy_def using E(4) by fastforce
  qed
  with x show ?thesis by blast
qed

section \<open>Events are published once\<close>

lemma mark_pending_read:
  "candidate_history (read_approval_state (mark_pending_emitted i s)) = candidate_history (read_approval_state s)"
  "settlements (read_approval_state (mark_pending_emitted i s)) = settlements (read_approval_state s)"
  "map_of (active_candidates (read_approval_state (mark_pending_emitted i s))) k =
     map_option (\<lambda>c. if k = i then c\<lparr>pending_emitted := True\<rparr> else c) (map_of (active_candidates (read_approval_state s)) k)"
  by (simp_all add: mark_pending_emitted_def read_commit split: option.split)
    (cases "map_of (active_candidates (read_approval_state s)) k"; auto)

lemma mark_history_read:
  "candidate_history (read_approval_state (mark_history_emitted i s)) =
     map (\<lambda>h. if audit_candidate h = i then h\<lparr>audit_emitted := True\<rparr> else h) (candidate_history (read_approval_state s))"
  "settlements (read_approval_state (mark_history_emitted i s)) = settlements (read_approval_state s)"
  "active_candidates (read_approval_state (mark_history_emitted i s)) = active_candidates (read_approval_state s)"
  by (auto simp: mark_history_emitted_def read_commit unmarked_entry_def list_ex_iff intro!: map_idI [symmetric])

lemma mark_settlement_read:
  "candidate_history (read_approval_state (mark_settlement_emitted r s)) = candidate_history (read_approval_state s)"
  "active_candidates (read_approval_state (mark_settlement_emitted r s)) = active_candidates (read_approval_state s)"
  "map_of (settlements (read_approval_state (mark_settlement_emitted r s))) k =
     map_option (\<lambda>x. if k = r then x\<lparr>settlement_emitted := True\<rparr> else x) (map_of (settlements (read_approval_state s)) k)"
  by (simp_all add: mark_settlement_emitted_def read_commit update_conv' split: option.split)
    (cases "map_of (settlements (read_approval_state s)) k"; auto)

lemma marks_pending_read:
  "candidate_history (read_approval_state (foldl (\<lambda>s c. mark_pending_emitted (candidate_id c) s) s cs)) = candidate_history (read_approval_state s)"
  "settlements (read_approval_state (foldl (\<lambda>s c. mark_pending_emitted (candidate_id c) s) s cs)) = settlements (read_approval_state s)"
  "map_of (active_candidates (read_approval_state (foldl (\<lambda>s c. mark_pending_emitted (candidate_id c) s) s cs))) k =
     map_option (\<lambda>c. if k \<in> candidate_id ` set cs then c\<lparr>pending_emitted := True\<rparr> else c) (map_of (active_candidates (read_approval_state s)) k)"
proof (induction cs arbitrary: s)
  case Nil
  { case 1 show ?case by simp
  next case 2 show ?case by simp
  next case 3 show ?case by (cases "map_of (active_candidates (read_approval_state s)) k") auto }
next
  case (Cons c cs)
  { case 1 show ?case by (simp add: Cons mark_pending_read)
  next case 2 show ?case by (simp add: Cons mark_pending_read)
  next case 3 show ?case
      by (cases "map_of (active_candidates (read_approval_state s)) k") (auto simp: Cons mark_pending_read) }
qed

lemma marks_history_read:
  "candidate_history (read_approval_state (foldl (\<lambda>s h. mark_history_emitted (audit_candidate h) s) s hs)) =
     map (\<lambda>h. if audit_candidate h \<in> audit_candidate ` set hs then h\<lparr>audit_emitted := True\<rparr> else h) (candidate_history (read_approval_state s))"
  "settlements (read_approval_state (foldl (\<lambda>s h. mark_history_emitted (audit_candidate h) s) s hs)) = settlements (read_approval_state s)"
  "active_candidates (read_approval_state (foldl (\<lambda>s h. mark_history_emitted (audit_candidate h) s) s hs)) = active_candidates (read_approval_state s)"
  by (induction hs arbitrary: s) (auto simp: mark_history_read)

lemma marks_settlement_read:
  "candidate_history (read_approval_state (foldl (\<lambda>s x. mark_settlement_emitted (settlement_request x) s) s xs)) = candidate_history (read_approval_state s)"
  "active_candidates (read_approval_state (foldl (\<lambda>s x. mark_settlement_emitted (settlement_request x) s) s xs)) = active_candidates (read_approval_state s)"
  "map_of (settlements (read_approval_state (foldl (\<lambda>s x. mark_settlement_emitted (settlement_request x) s) s xs))) k =
     map_option (\<lambda>x. if k \<in> settlement_request ` set xs then x\<lparr>settlement_emitted := True\<rparr> else x) (map_of (settlements (read_approval_state s)) k)"
proof (induction xs arbitrary: s)
  case Nil
  { case 1 show ?case by simp
  next case 2 show ?case by simp
  next case 3 show ?case by (cases "map_of (settlements (read_approval_state s)) k") auto }
next
  case (Cons c cs)
  { case 1 show ?case by (simp add: Cons mark_settlement_read)
  next case 2 show ?case by (simp add: Cons mark_settlement_read)
  next case 3 show ?case
      by (cases "map_of (settlements (read_approval_state s)) k") (auto simp: Cons mark_settlement_read) }
qed

lemma marks_path:
  "approval_path s (foldl (\<lambda>s c. mark_pending_emitted (candidate_id c) s) s cs)"
  "approval_path s (foldl (\<lambda>s h. mark_history_emitted (audit_candidate h) s) s hs)"
  "approval_path s (foldl (\<lambda>s x. mark_settlement_emitted (settlement_request x) s) s xs)"
proof -
  have fold: "approval_path s (foldl f s ys)" if "\<And>s y. approval_path s (f s y)" for f :: "state_map option \<Rightarrow> 'y \<Rightarrow> state_map option" and s ys
    using that by (induction ys arbitrary: s) (auto intro: path_refl path_trans)
  show "approval_path s (foldl (\<lambda>s c. mark_pending_emitted (candidate_id c) s) s cs)"
    using path_one [of _ "Emit_Pending _"] by (intro fold) simp
  show "approval_path s (foldl (\<lambda>s h. mark_history_emitted (audit_candidate h) s) s hs)"
    using path_one [of _ "Emit_History _"] by (intro fold) simp
  show "approval_path s (foldl (\<lambda>s x. mark_settlement_emitted (settlement_request x) s) s xs)"
    using path_one [of _ "Emit_Settlement _"] by (intro fold) simp
qed

lemma publish_path: "approval_path s (snd (publish_approval_events s))"
  unfolding publish_approval_events_def Let_def snd_conv
  by (rule path_trans [OF path_trans [OF marks_path(1) marks_path(2)] marks_path(3)])

lemma nothing_to_publish:
  assumes "\<And>c. c \<in> set (active_list s) \<Longrightarrow> pending_emitted c"
    and "\<And>h. h \<in> set (candidate_history (read_approval_state s)) \<Longrightarrow> audit_emitted h \<or> audit_status h = Allowed"
    and "\<And>x. x \<in> set (settlement_list s) \<Longrightarrow> settlement_emitted x"
  shows "fst (publish_approval_events s) = []"
  unfolding publish_approval_events_def Let_def fst_conv append_is_Nil_conv map_is_Nil_conv filter_empty_conv
    active_list_def [symmetric] settlement_list_def [symmetric]
  using assms by blast

lemma publish_read:
  fixes s :: "state_map option"
  defines "a \<equiv> read_approval_state s" and "b \<equiv> read_approval_state (snd (publish_approval_events s))"
  defines "cs \<equiv> filter (\<lambda>c. \<not> pending_emitted c) (active_list s)"
    and "hs \<equiv> filter (\<lambda>h. \<not> audit_emitted h \<and> audit_status h \<noteq> Allowed) (candidate_history a)"
    and "xs \<equiv> filter (\<lambda>x. \<not> settlement_emitted x) (settlement_list s)"
  shows "map_of (active_candidates b) k =
      map_option (\<lambda>c. if k \<in> candidate_id ` set cs then c\<lparr>pending_emitted := True\<rparr> else c) (map_of (active_candidates a) k)"
    and "candidate_history b =
      map (\<lambda>h. if audit_candidate h \<in> audit_candidate ` set hs then h\<lparr>audit_emitted := True\<rparr> else h) (candidate_history a)"
    and "map_of (settlements b) k =
      map_option (\<lambda>x. if k \<in> settlement_request ` set xs then x\<lparr>settlement_emitted := True\<rparr> else x) (map_of (settlements a) k)"
  unfolding assms by (simp_all add: publish_approval_events_def Let_def active_list_def settlement_list_def
    marks_settlement_read marks_history_read marks_pending_read)

lemma published_pending:
  assumes inv: "approval_inv (read_approval_state s)" and c: "c \<in> set (active_list (snd (publish_approval_events s)))"
  shows "pending_emitted c"
proof -
  let ?a = "read_approval_state s" and ?cs = "filter (\<lambda>c. \<not> pending_emitted c) (active_list s)"
  note D = approval_invD [OF inv]
  from active_list_at [OF path_inv [OF publish_path inv] c] obtain d where d: "map_of (active_candidates ?a) (candidate_id c) = Some d"
    and cd: "c = (if candidate_id c \<in> candidate_id ` set ?cs then d\<lparr>pending_emitted := True\<rparr> else d)"
    by (auto simp: publish_read(1))
  from D(2) d have "candidate_id d = candidate_id c" by blast
  moreover from d have "d \<in> set (active_list s)" by (force simp: active_list_def dest: map_of_SomeD)
  ultimately have "pending_emitted d \<or> candidate_id c \<in> candidate_id ` set ?cs"
    by (metis (mono_tags, lifting) imageI mem_Collect_eq set_filter)
  with cd show ?thesis by (auto split: if_splits)
qed

lemma published_settlement:
  assumes inv: "approval_inv (read_approval_state s)" and x: "x \<in> set (settlement_list (snd (publish_approval_events s)))"
  shows "settlement_emitted x"
proof -
  let ?a = "read_approval_state s" and ?xs = "filter (\<lambda>x. \<not> settlement_emitted x) (settlement_list s)"
  let ?r = "settlement_request x"
  from x settlement_list_iff [OF path_inv [OF publish_path inv]] obtain y where y: "map_of (settlements ?a) ?r = Some y"
    and xy: "x = (if ?r \<in> settlement_request ` set ?xs then y\<lparr>settlement_emitted := True\<rparr> else y)"
    by (auto simp: publish_read(3))
  from map_of_SomeD [OF y] have "y \<in> set (settlement_list s)" by (force simp: settlement_list_def)
  moreover have "settlement_request y = ?r" using inv y by (simp add: approval_inv_def settled_allowed_def)
  ultimately have "settlement_emitted y \<or> ?r \<in> settlement_request ` set ?xs"
    by (metis (mono_tags, lifting) imageI mem_Collect_eq set_filter)
  with xy show ?thesis by (auto split: if_splits)
qed


section \<open>Two gaps\<close>

text \<open>
  The sign-in attempts of expired candidates are cleared by their names, but an attempt that has an id is keyed by
  the id: it stays pending after its candidate expired.
\<close>

lemma expired_attempt_stays:
  assumes "ch \<in> set (pending_challenges s)" and "jstr ch ''attemptId'' = Some k"
    and "k \<notin> set (expired_challenge_names now s)"
  shows "ch \<in> set (pending_challenges (expired_session now s))"
proof -
  have "pending_authorization_key \<noteq> approval_state_key"
    by (simp add: pending_authorization_key_def approval_state_key_def)
  from expired_other_slot [OF this] have "pending_challenges (expire_approval_candidates now s) = pending_challenges s"
    by (simp add: pending_challenges_def get_pending_authorization_def)
  with assms show ?thesis
    by (auto simp: expired_session_def challenges_after_clear challenge_key_def nullish_def)
qed

text \<open>
  Discarding an answer to a settled request turns the other attributed answers of the same delivery into plain
  ones: they are then ingested for the responder of the context.
\<close>

lemma attribution_lost: "a \<in> set (delivered_answers (remove_consumed i ids)) \<Longrightarrow> fst a = JUndef"
  by (cases i) (auto simp: remove_consumed_def delivered_answers_def attributed_answers_def plain_answers_def or_empty_def)

section \<open>A pass that settles\<close>

definition approval_request :: json where
  "approval_request = JObj [(''kind'', JStr ''tool-approval''), (''requestId'', JStr ''r'')]"

definition waiting_batch :: batch where
  "waiting_batch = \<lparr>batch_event = JUndef, batch_requests = [approval_request], batch_auth_required = JArr [JStr ''r''], batch_messages = []\<rparr>"

definition waiting_record :: approval_state where
  "waiting_record = \<lparr>active_candidates = [(''c'', new_candidate ''c'' ''r'' (person ''a'') 0 10)], next_sequence = 1,
     candidate_history = [], settlements = []\<rparr>"

definition waiting_state :: "state_map option" where
  "waiting_state = write_approval_state (Some [(pending_batches_key, JArr [batch_json waiting_batch])]) waiting_record"

definition lenient :: surroundings where
  "lenient = \<lparr>ambient_responder = JNull, callback_responder = JNull, callback_arrived = \<lambda>_. False,
     response_policy = \<lambda>q. Some (\<lambda>i responder. if responder = person ''a'' then Policy_Allowed else Policy_Error), parse_date = \<lambda>_. None\<rparr>"

definition a_allowed :: settlement where
  "a_allowed = \<lparr>settlement_actor = project_responder (person ''a''), settlement_outcome = Settled_Allowed,
     settlement_request = ''r'', settled_at = 2, settlement_candidate = Some ''c'', settlement_emitted = False\<rparr>"

lemma waiting_read: "read_approval_state waiting_state = waiting_record"
  by (simp add: waiting_state_def waiting_record_def stored_sequence_def max_safe_integer_def)

lemma waiting_batches: "get_pending_input_batches waiting_state = Inr [waiting_batch]"
proof -
  have "pending_batches_key \<noteq> approval_state_key" by (simp add: pending_batches_key_def approval_state_key_def)
  then have "state_get waiting_state pending_batches_key = JArr [batch_json waiting_batch]"
    by (simp add: waiting_state_def write_approval_state_def) (simp add: state_get_def)
  moreover have "coerce_pending_input_batch (batch_json waiting_batch) = Some waiting_batch"
    by (simp add: coerce_pending_input_batch_def batch_json_def waiting_batch_def)
  moreover have "unique_requests [waiting_batch]"
    by (simp add: unique_requests_def batch_ids_def waiting_batch_def)
  ultimately show ?thesis by (simp add: get_pending_input_batches_def List.map_filter_simps)
qed

lemma waiting_inv: "approval_inv (read_approval_state waiting_state)"
  by (simp add: waiting_read waiting_record_def approval_inv_defs settlements_distinct_def new_candidate_def)

lemma waiting_not_expired: "expire_approval_candidates 2 waiting_state = waiting_state"
  unfolding expire_approval_candidates_def waiting_read by (simp add: waiting_record_def new_candidate_def)

lemma waiting_session: "expired_session 2 waiting_state = waiting_state"
proof -
  have "pending_authorization_key \<noteq> approval_state_key" "pending_authorization_key \<noteq> pending_batches_key"
    by (simp_all add: pending_batches_key_def approval_state_key_def pending_authorization_key_def)
  then have "state_get waiting_state pending_authorization_key = JUndef"
    by (simp add: waiting_state_def write_approval_state_def) (simp add: state_get_def)
  then show ?thesis by (simp add: expired_session_def waiting_not_expired clear_pending_authorization_def)
qed

definition settled_waiting :: "state_map option" where
  "settled_waiting = commit (settle (project_responder (person ''a'')) (Some ''c'') Settled_Allowed ''r'' 2) waiting_state"

lemma settled_waiting_read: "settlements (read_approval_state settled_waiting) = [(''r'', a_allowed)]"
  by (simp add: settled_waiting_def read_commit waiting_read settle_def waiting_record_def a_allowed_def)

lemma waiting_authorized:
  "authorize_candidate lenient 2 approval_request ''c'' (person ''a'') waiting_state = ([], True, settled_waiting)"
  unfolding authorize_candidate_def Let_def waiting_not_expired settle_allowed_candidate_def get_active_candidate_def waiting_read
  by (simp add: lenient_def waiting_record_def new_candidate_def settle_request_def waiting_read settled_waiting_def settle_def)

lemma waiting_pass:
  "coordinate_approval_delivery lenient 2 waiting_state None =
     Inr (delivery_result Continue [] [] settled_waiting (append_settled None [a_allowed]))"
proof -
  have requests: "request_map [waiting_batch] = [(''r'', approval_request)]"
    by (simp add: request_map_def waiting_batch_def approval_request_def request_id_def jstr_def)
  have active: "active_list waiting_state = [new_candidate ''c'' ''r'' (person ''a'') 0 10]"
    by (simp add: active_list_def waiting_read waiting_record_def)
  have settled: "settlement_list waiting_state = []" "settlement_list settled_waiting = [a_allowed]"
    by (simp_all add: settlement_list_def waiting_read waiting_record_def settled_waiting_read)
  have at: "get_active_candidate waiting_state ''c'' = Some (new_candidate ''c'' ''r'' (person ''a'') 0 10)"
    by (simp add: get_active_candidate_def waiting_read waiting_record_def)
  have fields: "candidate_id (new_candidate ''c'' ''r'' (person ''a'') 0 10) = ''c''"
    "candidate_request (new_candidate ''c'' ''r'' (person ''a'') 0 10) = ''r''"
    "candidate_responder (new_candidate ''c'' ''r'' (person ''a'') 0 10) = person ''a''"
    "candidate_status (new_candidate ''c'' ''r'' (person ''a'') 0 10) = Pending_Candidate"
    "challenges_of (new_candidate ''c'' ''r'' (person ''a'') 0 10) = []"
    by (simp_all add: new_candidate_def challenges_of_def)
  show ?thesis
    unfolding coordinate_approval_delivery_def Let_def waiting_session waiting_batches sum.case settled
    by (simp add: coordinate_batches_def decision_result_def Let_def requests active settled delivered_answers_def has_response_for_def
      all_answers_def attributed_answers_def plain_answers_def decide_one_def at fields waiting_authorized option_list_def a_allowed_def
      remove_consumed_def delivery_result_def)
qed

theorem required_answers_are_settled_witness:
  "\<exists>x. settled_answer a_allowed = settled_answer x \<and>
     map_of (settlements (read_approval_state settled_waiting)) ''r'' = Some x \<and> approved_by_policy lenient 2 waiting_state approval_request x"
proof -
  let ?d = "delivery_result Continue [] [] settled_waiting (append_settled None [a_allowed])"
  have id: "request_id approval_request = ''r''" by (simp add: approval_request_def request_id_def jstr_def)
  have "\<exists>x. map_of (settlements (read_approval_state (delivery_state ?d))) (request_id approval_request) = Some x \<and>
      settled_answer a_allowed = settled_answer x \<and> (settlement_outcome x = Settled_Allowed \<longrightarrow>
        map_of (settlements (read_approval_state waiting_state)) (request_id approval_request) = Some x \<or>
        approved_by_policy lenient 2 waiting_state approval_request x)"
  proof (rule required_answers_are_settled [OF waiting_pass waiting_inv waiting_batches])
    show "approval_request \<in> set (concat (map batch_requests [waiting_batch]))" by (simp add: waiting_batch_def)
    show "is_approval_request approval_request" by (simp add: is_approval_request_def approval_request_def)
    show "request_id approval_request \<in> set (concat (map required_ids [waiting_batch]))"
      by (simp add: id required_ids_def waiting_batch_def strings_of_def)
    show "settled_answer a_allowed \<in> set (all_answers (delivery_step_input ?d))"
      by (simp add: delivery_result_def answers_after_append)
    show "request_id (settled_answer a_allowed) = request_id approval_request" by (simp add: id a_allowed_def)
  qed
  then show ?thesis
    by (auto simp: delivery_result_def id settled_waiting_read a_allowed_def waiting_read waiting_record_def)
qed


end
