(* ===== verification/Compaction_Prompt.thy ===== *)
theory Compaction_Prompt
  imports Json_Text Json_Objects
begin

text \<open>
  The input of the compaction model (\<open>harness/compaction-prompt.ts\<close>) and the token estimate
  (\<open>harness/token-estimate.ts\<close>). A message is a JSON value with a role and a content, which is a text or a list
  of parts. \<open>num\<close> is the decimal text of a number. The ellipsis and the dash of the source lie beyond the
  characters of the model; their places in code page 1252 stand for them, so that every length is the one of the code.
\<close>

section \<open>Texts\<close>

definition ellipsis :: char where
  "ellipsis = CHR 0x85"

definition em_dash :: char where
  "em_dash = CHR 0x97"

definition line_break :: string where
  "line_break = [CHR 0x0A]"

definition text_lines :: "string list \<Rightarrow> string" where
  "text_lines = join_with line_break"

definition checkpoint_marker :: string where
  "checkpoint_marker = ''Summary of our conversation so far:''"

definition resumption_message :: string where
  "resumption_message = ''Continue.''"

definition todo_label :: string where
  "todo_label = ''[Your task list was preserved across context compaction]''"

definition compaction_system_prompt :: string where
  "compaction_system_prompt = text_lines [
    ''You are performing a CONTEXT CHECKPOINT COMPACTION. Create a handoff summary for another LLM that will resume the task.'',
    [],
    ''Include:'',
    [],
    ''- Current progress and key decisions made'',
    ''- Important context, constraints, or user preferences'',
    ''- What remains to be done, with clear next steps'',
    ''- Any critical data, examples, or references needed to continue'',
    [],
    ''Be concise, structured, and focused on helping the next LLM seamlessly continue the work. Write in the same language as the conversation. Do not continue the conversation, answer its questions, or invent facts. Only output the handoff summary.'']"

definition compaction_checkpoint_prompt :: string where
  "compaction_checkpoint_prompt = text_lines [
    ''Update the previous checkpoint with the newer information in the conversation. If there is no previous checkpoint, create one from the conversation.'',
    [],
    ''Make completed work explicit so the next model does not repeat it. Keep completed work separate from current and remaining work, and do not describe completed work as pending unless later messages show it must be redone. Preserve exact file paths, function names, commands, error messages, identifiers, and measured values when they are needed to continue.'',
    [],
    ''Large tool outputs are the main thing to compress: reduce each to the findings the next model needs '' @ [em_dash] @ '' what was searched or read, what it established, and the exact identifiers involved '' @ [em_dash] @ '' rather than reproducing the output. The next model cannot see the originals, so nothing it would need to act on may be lost.'']"

definition degraded_text_limit :: nat where
  "degraded_text_limit = 2000"

definition transcript_payload_limit :: nat where
  "transcript_payload_limit = 2000"

definition compact_payload_limit :: nat where
  "compact_payload_limit = 280"

section \<open>Tokens\<close>

definition estimate_tokens :: "(rat \<Rightarrow> string) \<Rightarrow> json \<Rightarrow> rat" where
  \<comment> \<open>\<open>undefined\<close> has no text; the code never asks for it.\<close>
  "estimate_tokens num v = of_nat (length (case json_text num v of None \<Rightarrow> [] | Some t \<Rightarrow> t)) / 4"

section \<open>Rendering\<close>

definition str_at :: "json \<Rightarrow> string \<Rightarrow> string" where
  \<comment> \<open>A member whose type is \<open>string\<close>.\<close>
  "str_at j k = (case jstr j k of None \<Rightarrow> [] | Some s \<Rightarrow> s)"

definition part_of_type :: "string \<Rightarrow> json \<Rightarrow> bool" where
  "part_of_type t p \<longleftrightarrow> jget p ''type'' = JStr t"

definition slice_utf16_safe :: "string \<Rightarrow> nat \<Rightarrow> string" where
  "slice_utf16_safe s limit =
     (if limit = 0 then []
      else if length s \<le> limit then s
      else (let last_unit = (of_char (s ! (limit - 1)) :: nat) in
        take (if 0xd800 \<le> last_unit \<and> last_unit \<le> 0xdbff then limit - 1 else limit) s))"

definition trim_end :: "string \<Rightarrow> string" where
  "trim_end s = rev (dropWhile is_space (rev s))"

definition cap_text :: "string \<Rightarrow> nat \<Rightarrow> string" where
  "cap_text s limit = (let normalized = trim (collapse_spaces s) in
     if length normalized \<le> limit then normalized
     else trim_end (slice_utf16_safe normalized limit) @ [ellipsis])"

definition render_payload :: "(rat \<Rightarrow> string) \<Rightarrow> json \<Rightarrow> nat \<Rightarrow> string" where
  "render_payload num v limit =
     (if v = JUndef then [] else cap_text (case json_text num v of None \<Rightarrow> [] | Some t \<Rightarrow> t) limit)"

definition attached_file_stub :: "string option \<Rightarrow> string \<Rightarrow> string" where
  "attached_file_stub filename media =
     ''Attached file '' @ (case filename of None \<Rightarrow> ''attachment'' | Some f \<Rightarrow> f) @ '' ('' @ media @ '')''"

definition content_output_parts :: "json \<Rightarrow> json list option" where
  "content_output_parts v = (if part_of_type ''content'' v then (case jget v ''value'' of JArr ps \<Rightarrow> Some ps | _ \<Rightarrow> None) else None)"

definition is_file_part :: "json \<Rightarrow> bool" where
  "is_file_part p \<longleftrightarrow> part_of_type ''file'' p \<or> part_of_type ''media'' p"

definition output_file_stub :: "json \<Rightarrow> string" where
  "output_file_stub p = attached_file_stub (jstr p ''filename'') (case jstr p ''mediaType'' of None \<Rightarrow> ''unknown'' | Some t \<Rightarrow> t)"

definition stub_content_file_parts :: "json \<Rightarrow> json" where
  "stub_content_file_parts v = (case content_output_parts v of
     None \<Rightarrow> v
   | Some ps \<Rightarrow>
       if list_ex is_file_part ps
       then JObj [(''type'', JStr ''content''), (''value'', JArr (map (\<lambda>p.
         if is_file_part p then JObj [(''text'', JStr (output_file_stub p)), (''type'', JStr ''text'')] else p) ps))]
       else v)"

definition render_content_output_part :: "(rat \<Rightarrow> string) \<Rightarrow> nat \<Rightarrow> json \<Rightarrow> string" where
  "render_content_output_part num limit p =
     (case (part_of_type ''text'' p, jstr p ''text'') of
        (True, Some t) \<Rightarrow> t
      | _ \<Rightarrow> if is_file_part p then output_file_stub p else render_payload num p limit)"

definition render_tool_result_output :: "(rat \<Rightarrow> string) \<Rightarrow> json \<Rightarrow> nat \<Rightarrow> string" where
  "render_tool_result_output num v limit = (case content_output_parts v of
     None \<Rightarrow> render_payload num v limit
   | Some ps \<Rightarrow> cap_text (join_with '' '' (filter (\<lambda>t. t \<noteq> []) (map (render_content_output_part num limit) ps))) limit)"

definition payload_limit :: "nat option \<Rightarrow> nat" where
  "payload_limit text_limit = (case text_limit of None \<Rightarrow> transcript_payload_limit | Some _ \<Rightarrow> compact_payload_limit)"

definition render_tool_call :: "(rat \<Rightarrow> string) \<Rightarrow> nat option \<Rightarrow> json \<Rightarrow> string" where
  "render_tool_call num text_limit p = (let i = render_payload num (jget p ''input'') (payload_limit text_limit) in
     ''Called '' @ str_at p ''toolName'' @ (if i = [] then [] else '' with '' @ i))"

definition render_tool_result :: "(rat \<Rightarrow> string) \<Rightarrow> nat option \<Rightarrow> json \<Rightarrow> string" where
  "render_tool_result num text_limit p = (let r = render_tool_result_output num (jget p ''output'') (payload_limit text_limit) in
     ''Tool '' @ str_at p ''toolName'' @ (if jget p ''isError'' = JBool True then '' errored'' else '' returned'') @
       (if r = [] then [] else '' '' @ r))"

definition render_conversation_text :: "string \<Rightarrow> nat option \<Rightarrow> string" where
  "render_conversation_text s text_limit = (case text_limit of None \<Rightarrow> trim s | Some n \<Rightarrow> cap_text s n)"

definition render_content_part :: "(rat \<Rightarrow> string) \<Rightarrow> nat option \<Rightarrow> json \<Rightarrow> string" where
  "render_content_part num text_limit p =
     (if part_of_type ''text'' p then render_conversation_text (str_at p ''text'') text_limit
      else if part_of_type ''file'' p then attached_file_stub (jstr p ''filename'') (str_at p ''mediaType'')
      else if part_of_type ''tool-call'' p then render_tool_call num text_limit p
      else if part_of_type ''tool-result'' p then render_tool_result num text_limit p
      else [])"

definition render_message_content :: "(rat \<Rightarrow> string) \<Rightarrow> nat option \<Rightarrow> json \<Rightarrow> string" where
  "render_message_content num text_limit m = (case jget m ''content'' of
     JStr s \<Rightarrow> render_conversation_text s text_limit
   | JArr ps \<Rightarrow> trim (text_lines (filter (\<lambda>t. t \<noteq> []) (map (render_content_part num text_limit) ps)))
   | _ \<Rightarrow> [])"

section \<open>The prompt\<close>

record transcript_entry =
  entry_content :: string
  entry_role :: string

record compaction_prompt =
  prompt_text :: string
  system_text :: string

definition format_compaction_prompt :: "string \<Rightarrow> string \<Rightarrow> string" where
  "format_compaction_prompt checkpoint transcript = text_lines [
     ''<previous-checkpoint>'', checkpoint, ''</previous-checkpoint>'', [], ''<conversation>'',
     ''Conversation transcript:'', transcript, ''</conversation>'', [], compaction_checkpoint_prompt]"

definition transcript_section :: "transcript_entry \<Rightarrow> string" where
  "transcript_section e = ''### '' @ entry_role e @ line_break @ trim (entry_content e)"

definition format_compaction_transcript :: "transcript_entry list \<Rightarrow> string" where
  "format_compaction_transcript es =
     (let sections = map transcript_section (filter (\<lambda>e. trim (entry_content e) \<noteq> []) es) in
      if sections = [] then ''(empty)'' else join_with (line_break @ line_break) sections)"

definition compaction_envelope :: compaction_prompt where
  "compaction_envelope = \<lparr>prompt_text = format_compaction_prompt [] [], system_text = compaction_system_prompt\<rparr>"

definition checkpoint_text :: "string option \<Rightarrow> string" where
  "checkpoint_text prev = (case prev of None \<Rightarrow> ''(none)'' | Some c \<Rightarrow> trim c)"

definition full_entry :: "(rat \<Rightarrow> string) \<Rightarrow> json \<Rightarrow> transcript_entry" where
  "full_entry num m = \<lparr>entry_content = render_message_content num None m, entry_role = str_at m ''role''\<rparr>"

fun degrade_entries :: "(rat \<Rightarrow> string) \<Rightarrow> rat \<Rightarrow> json list \<Rightarrow> transcript_entry list \<Rightarrow> transcript_entry list" where
  \<comment> \<open>The loop over the oldest entries while the prompt is over budget by \<open>excess\<close> tokens.\<close>
  "degrade_entries num excess (m # ms) (e # es) =
     (if excess \<le> 0 then e # es
      else (let degraded = render_message_content num (Some degraded_text_limit) m in
        if length (entry_content e) \<le> length degraded then e # degrade_entries num excess ms es
        else \<lparr>entry_content = degraded, entry_role = entry_role e\<rparr> #
          degrade_entries num (excess - of_nat (length (entry_content e) - length degraded) / 4) ms es))"
| "degrade_entries num excess _ es = es"

definition degrade_oversized_transcript ::
  "(rat \<Rightarrow> string) \<Rightarrow> json list \<Rightarrow> string option \<Rightarrow> rat option \<Rightarrow> transcript_entry list \<Rightarrow> transcript_entry list" where
  "degrade_oversized_transcript num ms prev budget es = (case budget of
     None \<Rightarrow> es
   | Some b \<Rightarrow> degrade_entries num (estimate_tokens num (JStr (format_compaction_prompt (checkpoint_text prev)
       (format_compaction_transcript es))) - b) ms es)"

definition create_compaction_prompt :: "(rat \<Rightarrow> string) \<Rightarrow> json list \<Rightarrow> string option \<Rightarrow> rat option \<Rightarrow> compaction_prompt" where
  "create_compaction_prompt num ms prev budget =
     \<lparr>prompt_text = format_compaction_prompt (checkpoint_text prev) (format_compaction_transcript
        (degrade_oversized_transcript num ms prev budget (map (full_entry num) ms))),
      system_text = compaction_system_prompt\<rparr>"

end
