(* ===== verification/Compaction.thy ===== *)
theory Compaction
  imports Compaction_Prompt
begin

text \<open>
  Compaction of a session's history (\<open>harness/compaction.ts\<close>): when it is due, what survives of the recent
  messages, the attempt without a model call and the loop that asks the compaction model for a summary. \<open>ask\<close>
  answers the call with a given number with a text and a finish reason, or fails.
\<close>

section \<open>When a history is compacted\<close>

record compaction_config =
  known_input_tokens :: "rat option"
  known_message_count :: "rat option"
  recent_window :: nat
  token_threshold :: rat

definition user_message :: "string \<Rightarrow> json" where
  "user_message t = JObj [(''content'', JStr t), (''role'', JStr ''user'')]"

definition assistant_message :: "string \<Rightarrow> json" where
  "assistant_message t = JObj [(''content'', JStr t), (''role'', JStr ''assistant'')]"

definition role_is :: "string \<Rightarrow> json \<Rightarrow> bool" where
  "role_is r m \<longleftrightarrow> jget m ''role'' = JStr r"

definition estimate_messages :: "(rat \<Rightarrow> string) \<Rightarrow> json list \<Rightarrow> rat" where
  "estimate_messages num ms = estimate_tokens num (JArr ms)"

definition prompt_overhead :: "(rat \<Rightarrow> string) \<Rightarrow> rat" where
  "prompt_overhead num = estimate_messages num
     [JObj [(''content'', JStr (system_text compaction_envelope)), (''role'', JStr ''system'')],
      user_message (prompt_text compaction_envelope)]"

definition input_token_count :: "(rat \<Rightarrow> string) \<Rightarrow> json list \<Rightarrow> compaction_config \<Rightarrow> rat" where
  "input_token_count num ms cfg = (case (known_input_tokens cfg, known_message_count cfg) of
     (Some prior, Some n) \<Rightarrow>
       if \<not> whole n \<or> n < 0 \<or> of_nat (length ms) < n then estimate_messages num ms
       else prior + estimate_messages num (drop (nat \<lfloor>n\<rfloor>) ms)
   | _ \<Rightarrow> estimate_messages num ms)"

definition should_compact :: "(rat \<Rightarrow> string) \<Rightarrow> json list \<Rightarrow> compaction_config \<Rightarrow> bool" where
  "should_compact num ms cfg \<longleftrightarrow>
     ms \<noteq> [] \<and> token_threshold cfg < input_token_count num ms cfg + prompt_overhead num"

section \<open>What survives\<close>

definition assistant_message_text :: "json \<Rightarrow> string" where
  "assistant_message_text m = (case jget m ''content'' of
     JStr s \<Rightarrow> trim s
   | JArr ps \<Rightarrow> trim (concat (map (\<lambda>p. str_at p ''text'') (filter (part_of_type ''text'') ps)))
   | _ \<Rightarrow> [])"

definition extract_previous_checkpoint :: "json list \<Rightarrow> json list \<times> string option" where
  "extract_previous_checkpoint ms = (case ms of
     marker # checkpoint # rest \<Rightarrow>
       if role_is ''user'' marker \<and> jget marker ''content'' = JStr checkpoint_marker \<and> role_is ''assistant'' checkpoint
       then (rest, Some (assistant_message_text checkpoint)) else (ms, None)
   | _ \<Rightarrow> (ms, None))"

definition keep_message :: "json \<Rightarrow> json list" where
  "keep_message m =
     (if role_is ''tool'' m then []
      else if role_is ''assistant'' m then
        (let t = assistant_message_text m in if t = [] then [] else [assistant_message t])
      else [m])"

definition keep_non_tool_result_messages :: "json list \<Rightarrow> json list" where
  "keep_non_tool_result_messages ms = concat (map keep_message ms)"

definition summary_reserve :: "compaction_config \<Rightarrow> rat" where
  "summary_reserve cfg = min 2048 (max 64 (of_int \<lfloor>token_threshold cfg / 4\<rfloor>))"

fun select_window :: "(rat \<Rightarrow> string) \<Rightarrow> compaction_config \<Rightarrow> nat \<Rightarrow> nat \<Rightarrow> rat \<Rightarrow> json list \<Rightarrow> nat" where
  \<comment> \<open>Over the messages from the newest: how many are kept so far, and their tokens.\<close>
  "select_window num cfg max_keep keep tokens [] = keep"
| "select_window num cfg max_keep keep tokens (m # ms) =
     (if \<not> keep < max_keep then keep
      else (let t = estimate_messages num [m] in
        if token_threshold cfg < tokens + t + summary_reserve cfg then keep
        else select_window num cfg max_keep (keep + 1) (tokens + t) ms))"

definition select_recent_window_size :: "(rat \<Rightarrow> string) \<Rightarrow> json list \<Rightarrow> compaction_config \<Rightarrow> nat" where
  "select_recent_window_size num ms cfg =
     select_window num cfg (min (recent_window cfg) (length ms - 1)) 0 0 (rev ms)"

definition split_messages :: "json list \<Rightarrow> nat \<Rightarrow> json list \<times> json list" where
  \<comment> \<open>Older and recent. Tool results at the cut go to the older part.\<close>
  "split_messages ms keep =
     (if keep = 0 then (ms, [])
      else (let n = length ms - keep; split = n + length (takeWhile (role_is ''tool'') (drop n ms)) in
        (take split ms, drop split ms)))"

definition real_user_message :: "json \<Rightarrow> bool" where
  "real_user_message m \<longleftrightarrow> role_is ''user'' m \<and> (case jget m ''content'' of
     JStr s \<Rightarrow> s \<noteq> resumption_message \<and> s \<noteq> checkpoint_marker \<and> take (length todo_label) s \<noteq> todo_label
   | _ \<Rightarrow> False)"

definition last_real_user_message :: "json list \<Rightarrow> json option" where
  "last_real_user_message ms = find real_user_message (rev ms)"

definition with_resumption_guard :: "json list \<Rightarrow> json list \<Rightarrow> json list" where
  "with_resumption_guard ms conversation =
     (if ms \<noteq> [] \<and> \<not> role_is ''assistant'' (last ms) then ms
      else ms @ [case last_real_user_message conversation of
        None \<Rightarrow> user_message resumption_message
      | Some replay \<Rightarrow>
          if list_ex (\<lambda>m. role_is ''user'' m \<and> jget m ''content'' = jget replay ''content'') ms
          then user_message resumption_message else replay])"

section \<open>Capping tool results\<close>

definition capped_annotation :: string where
  "capped_annotation = ''[Truncated by eve: tool result reduced during context compaction. Re-run the tool if you need the full output.]''"

definition cap_result_part :: "(rat \<Rightarrow> string) \<Rightarrow> json \<Rightarrow> json" where
  "cap_result_part num p =
     (if \<not> part_of_type ''tool-result'' p then p
      else (let out = stub_content_file_parts (jget p ''output'');
                serialized = (case json_text num out of None \<Rightarrow> [] | Some t \<Rightarrow> t) in
        if length serialized \<le> transcript_payload_limit then (if out = jget p ''output'' then p else spread p [(''output'', out)])
        else spread p [(''output'', JObj [(''type'', JStr ''text''), (''value'', JStr (capped_annotation @
          line_break @ line_break @ slice_utf16_safe serialized transcript_payload_limit))])]))"

definition cap_tool_results :: "(rat \<Rightarrow> string) \<Rightarrow> json list \<Rightarrow> json list" where
  "cap_tool_results num ms = map (\<lambda>m. case jget m ''content'' of
     JArr ps \<Rightarrow> if role_is ''tool'' m \<and> map (cap_result_part num) ps \<noteq> ps
       then spread m [(''content'', JArr (map (cap_result_part num) ps))] else m
   | _ \<Rightarrow> m) ms"

section \<open>Compacting\<close>

datatype compaction_error = Empty_Summary string | Model_Failed string

record summary_reply =
  reply_text :: string
  finish_reason :: string

definition checkpoint_head :: "string \<Rightarrow> json list" where
  "checkpoint_head t = [user_message checkpoint_marker, assistant_message t]"

definition tool_result_cap_heuristic ::
  "(rat \<Rightarrow> string) \<Rightarrow> compaction_config \<Rightarrow> rat \<Rightarrow> string option \<Rightarrow> json list \<Rightarrow> json list \<Rightarrow> json list \<Rightarrow> json list option" where
  "tool_result_cap_heuristic num cfg adjustment prev conversation older recent =
     (let capped = with_resumption_guard
            ((case prev of None \<Rightarrow> [] | Some t \<Rightarrow> checkpoint_head t) @ cap_tool_results num older @ recent) conversation in
      if estimate_messages num capped + prompt_overhead num + adjustment \<le> token_threshold cfg then Some capped else None)"

definition fits :: "(rat \<Rightarrow> string) \<Rightarrow> compaction_config \<Rightarrow> json list \<Rightarrow> bool" where
  "fits num cfg ms \<longleftrightarrow> estimate_messages num ms \<le> token_threshold cfg"

fun summarise ::
  "(rat \<Rightarrow> string) \<Rightarrow> (nat \<Rightarrow> compaction_prompt \<Rightarrow> string + summary_reply) \<Rightarrow> compaction_config \<Rightarrow> string option \<Rightarrow> json list \<Rightarrow>
     nat \<Rightarrow> nat \<Rightarrow> compaction_error + json list \<times> nat" where
  \<comment> \<open>The window still kept and the calls made so far; the new history and the calls made in all.\<close>
  "summarise num ask cfg prev conversation keep calls =
     (let (older, recent) = split_messages conversation keep in
      case ask calls (create_compaction_prompt num older prev (Some (token_threshold cfg))) of
        Inl e \<Rightarrow> Inl (Model_Failed e)
      | Inr reply \<Rightarrow>
          if trim (reply_text reply) = [] then Inl (Empty_Summary (finish_reason reply))
          else
           (let verbatim = with_resumption_guard (checkpoint_head (reply_text reply) @ recent) conversation;
                stripped = with_resumption_guard (checkpoint_head (reply_text reply) @ keep_non_tool_result_messages recent) conversation in
            if fits num cfg verbatim then Inr (verbatim, Suc calls)
            else if fits num cfg stripped then Inr (stripped, Suc calls)
            else (case keep of 0 \<Rightarrow> Inr (stripped, Suc calls)
              | Suc k \<Rightarrow> summarise num ask cfg prev conversation k (Suc calls))))"

declare summarise.simps [simp del]

definition compact_messages ::
  "(rat \<Rightarrow> string) \<Rightarrow> (nat \<Rightarrow> compaction_prompt \<Rightarrow> string + summary_reply) \<Rightarrow> compaction_config \<Rightarrow> bool \<Rightarrow> json list \<Rightarrow>
     compaction_error + json list \<times> nat" where
  "compact_messages num ask cfg force ms =
     (let (conversation, prev) = extract_previous_checkpoint ms;
          keep = select_recent_window_size num conversation (if force then cfg\<lparr>recent_window := 1\<rparr> else cfg);
          (older, recent) = split_messages conversation keep;
          adjustment = max 0 (input_token_count num ms cfg - estimate_messages num ms);
          loop = summarise num ask cfg prev conversation keep 0 in
      if force then loop
      else if older = [] \<and> prev = None then Inr (keep_non_tool_result_messages recent, 0)
      else (case tool_result_cap_heuristic num cfg adjustment prev conversation older recent of
          Some capped \<Rightarrow> Inr (capped, 0)
        | None \<Rightarrow> loop))"

end
