(* ===== verification/Compaction_Props.thy ===== *)
theory Compaction_Props
  imports Compaction
begin

text \<open>
  A compacted history is one a provider accepts: every tool result follows the message that made its call, every
  call is answered, and the last message is not the assistant's. The loop ends after a bounded number of model
  calls with a history that fits, or with the shortest one there is.
\<close>

section \<open>Exchanges\<close>

definition parts_in :: "string \<Rightarrow> string \<Rightarrow> json \<Rightarrow> json list" where
  \<comment> \<open>The parts of a type in a message of a role.\<close>
  "parts_in r t m = (case jget m ''content'' of JArr ps \<Rightarrow> if role_is r m then filter (part_of_type t) ps else [] | _ \<Rightarrow> [])"

definition ids_in :: "string \<Rightarrow> string \<Rightarrow> json \<Rightarrow> json list" where
  "ids_in r t m = map (\<lambda>p. jget p ''toolCallId'') (parts_in r t m)"

definition call_ids :: "json \<Rightarrow> json list" where
  "call_ids = ids_in ''assistant'' ''tool-call''"

definition result_ids :: "json \<Rightarrow> json list" where
  "result_ids = ids_in ''tool'' ''tool-result''"

definition open_calls :: "json \<Rightarrow> json list" where
  \<comment> \<open>The calls of a message that its own content, as for a provider's tools, does not answer.\<close>
  "open_calls m = filter (\<lambda>i. i \<notin> set (ids_in ''assistant'' ''tool-result'' m)) (call_ids m)"

fun exchange :: "json list \<Rightarrow> json list \<Rightarrow> json list \<Rightarrow> bool" where
  \<comment> \<open>Given the calls of the last message that is not a tool's, and those that are still open.\<close>
  "exchange calls pending [] \<longleftrightarrow> pending = []"
| "exchange calls pending (m # ms) \<longleftrightarrow>
     (if role_is ''tool'' m
      then set (result_ids m) \<subseteq> set calls \<and> exchange calls (filter (\<lambda>i. i \<notin> set (result_ids m)) pending) ms
      else pending = [] \<and> exchange (call_ids m) (open_calls m) ms)"

definition exchanges :: "json list \<Rightarrow> bool" where
  "exchanges ms \<longleftrightarrow> exchange [] [] ms"

lemma exchange_fresh: "vs = [] \<or> \<not> role_is ''tool'' (hd vs) \<Longrightarrow> exchange calls pending vs \<longleftrightarrow> pending = [] \<and> exchanges vs"
  by (cases vs) (auto simp: exchanges_def)

lemma exchange_append:
  "vs = [] \<or> \<not> role_is ''tool'' (hd vs) \<Longrightarrow> exchange calls pending (us @ vs) \<longleftrightarrow> exchange calls pending us \<and> exchanges vs"
  by (induction us arbitrary: calls pending) (auto simp: exchange_fresh)

lemma exchanges_append:
  "vs = [] \<or> \<not> role_is ''tool'' (hd vs) \<Longrightarrow> exchanges (us @ vs) \<longleftrightarrow> exchanges us \<and> exchanges vs"
  using exchange_append by (simp add: exchanges_def)

definition plain_message :: "json \<Rightarrow> bool" where
  "plain_message m \<longleftrightarrow> \<not> role_is ''tool'' m \<and> open_calls m = []"

lemma exchanges_plain: "list_all plain_message ms \<Longrightarrow> exchanges ms"
proof -
  have "list_all plain_message ms \<Longrightarrow> exchange calls [] ms" for calls
    by (induction ms arbitrary: calls) (auto simp: plain_message_def)
  then show "list_all plain_message ms \<Longrightarrow> exchanges ms" by (simp add: exchanges_def)
qed

lemma plain_not_assistant: "\<not> role_is ''tool'' m \<Longrightarrow> \<not> role_is ''assistant'' m \<Longrightarrow> plain_message m"
  by (simp add: plain_message_def open_calls_def call_ids_def ids_in_def parts_in_def split: json.split)

lemma plain_user [simp]: "plain_message (user_message t)"
  by (rule plain_not_assistant) (simp_all add: role_is_def user_message_def)

lemma plain_assistant [simp]: "plain_message (assistant_message t)"
  by (simp add: plain_message_def role_is_def assistant_message_def open_calls_def call_ids_def ids_in_def parts_in_def)

lemma role_user [simp]: "role_is r (user_message t) \<longleftrightarrow> r = ''user''" "role_is r (assistant_message t) \<longleftrightarrow> r = ''assistant''"
  by (auto simp: role_is_def user_message_def assistant_message_def)

section \<open>The parts of a compaction\<close>

lemma hd_after_while: "dropWhile P xs = [] \<or> \<not> P (hd (dropWhile P xs))"
  using hd_dropWhile [of P xs] by blast

lemma split_messages_parts:
  assumes "split_messages ms keep = (older, recent)"
  shows "older @ recent = ms" "recent = [] \<or> \<not> role_is ''tool'' (hd recent)"
proof -
  let ?n = "length ms - keep"
  have d: "drop (?n + length (takeWhile (role_is ''tool'') (drop ?n ms))) ms = dropWhile (role_is ''tool'') (drop ?n ms)"
    by (simp add: dropWhile_eq_drop add.commute)
  show "older @ recent = ms" using assms by (auto simp: split_messages_def Let_def split: if_splits)
  have "recent = [] \<or> recent = dropWhile (role_is ''tool'') (drop ?n ms)"
    using assms unfolding split_messages_def Let_def d by (auto split: if_splits)
  then show "recent = [] \<or> \<not> role_is ''tool'' (hd recent)"
    using hd_after_while by blast
qed

lemma split_exchanges:
  assumes "split_messages ms keep = (older, recent)" and "exchanges ms"
  shows "exchanges older" "exchanges recent"
  using split_messages_parts [OF assms(1)] assms(2) exchanges_append [of recent older] by auto

lemma keep_exchanges: "exchanges (keep_non_tool_result_messages ms)"
  by (rule exchanges_plain)
    (auto simp: list_all_iff keep_non_tool_result_messages_def keep_message_def Let_def intro: plain_not_assistant split: if_splits)

definition resumption :: "json list \<Rightarrow> json list \<Rightarrow> json" where
  \<comment> \<open>The message the guard appends.\<close>
  "resumption ms conversation = (case last_real_user_message conversation of
     None \<Rightarrow> user_message resumption_message
   | Some replay \<Rightarrow>
       if list_ex (\<lambda>m. role_is ''user'' m \<and> jget m ''content'' = jget replay ''content'') ms
       then user_message resumption_message else replay)"

lemma guard_cases: "with_resumption_guard ms conversation =
    (if ms \<noteq> [] \<and> \<not> role_is ''assistant'' (last ms) then ms else ms @ [resumption ms conversation])"
  by (simp add: with_resumption_guard_def resumption_def)

lemma resumption_role: "role_is r (resumption ms conversation) \<longleftrightarrow> r = ''user''"
  by (auto simp: resumption_def last_real_user_message_def real_user_message_def role_is_def user_message_def
    dest!: find_SomeD split: option.splits)

lemma guard_last: "with_resumption_guard ms conversation \<noteq> [] \<and> \<not> role_is ''assistant'' (last (with_resumption_guard ms conversation))"
  by (simp add: guard_cases resumption_role)

lemma guard_exchanges:
  assumes "exchanges ms"
  shows "exchanges (with_resumption_guard ms conversation)"
proof -
  have "exchanges [resumption ms conversation]"
    by (rule exchanges_plain) (simp add: plain_not_assistant resumption_role)
  then have "exchanges (ms @ [resumption ms conversation])"
    using assms by (simp add: exchanges_append resumption_role)
  with assms show ?thesis by (simp add: guard_cases)
qed

lemma head_exchanges: "exchanges (checkpoint_head t @ ms) = exchanges ms"
proof -
  have "call_ids (assistant_message t) = []" by (simp add: call_ids_def ids_in_def parts_in_def assistant_message_def)
  then show ?thesis
    using plain_user [of checkpoint_marker] plain_assistant [of t]
    by (simp add: exchanges_def checkpoint_head_def plain_message_def)
qed

lemma cap_part_other: "k \<noteq> ''output'' \<Longrightarrow> jget (cap_result_part num p) k = jget p k"
proof -
  assume k: "k \<noteq> ''output''"
  have "jget (JObj (own_members p)) k = jget p k" if "part_of_type ''tool-result'' p"
    using that by (cases p) (auto simp: part_of_type_def jget_def)
  with k show ?thesis by (simp add: cap_result_part_def Let_def del: jget_JObj)
qed

lemma jget_own_members: "jget m k' \<noteq> JUndef \<Longrightarrow> jget (JObj (own_members m)) k = jget m k"
  by (cases m) (auto simp: jget_def)

lemma parts_cap:
  "filter (part_of_type t) (map (cap_result_part num) ps) = map (cap_result_part num) (filter (part_of_type t) ps)"
  by (simp add: filter_map comp_def part_of_type_def [abs_def] cap_part_other)

text \<open>Capping changes no role, no call and no id.\<close>

lemma cap_tool_results_ids:
  "\<exists>f. cap_tool_results num ms = map f ms \<and> (\<forall>m r t. role_is r (f m) = role_is r m \<and> ids_in r t (f m) = ids_in r t m)"
proof -
  let ?f = "\<lambda>m. case jget m ''content'' of
     JArr ps \<Rightarrow> if role_is ''tool'' m \<and> map (cap_result_part num) ps \<noteq> ps
       then spread m [(''content'', JArr (map (cap_result_part num) ps))] else m
   | _ \<Rightarrow> m"
  have "role_is r (?f m) = role_is r m \<and> ids_in r t (?f m) = ids_in r t m" for m r t
  proof (cases "jget m ''content''")
    case (JArr ps)
    then have own: "jget (JObj (own_members m)) k = jget m k" for k using jget_own_members [of m "''content''"] by simp
    show ?thesis
      by (simp add: JArr own role_is_def ids_in_def parts_in_def parts_cap comp_def cap_part_other del: jget_JObj)
  qed simp_all
  then show ?thesis unfolding cap_tool_results_def by blast
qed

lemma cap_exchanges: "exchanges (cap_tool_results num ms) = exchanges ms"
proof -
  obtain f where f: "cap_tool_results num ms = map f ms"
    and same: "\<And>m r t. role_is r (f m) = role_is r m" "\<And>m r t. ids_in r t (f m) = ids_in r t m"
    using cap_tool_results_ids [of num ms] by blast
  have "exchange calls pending (map f xs) = exchange calls pending xs" for calls pending xs
    by (induction xs arbitrary: calls pending) (auto simp: same open_calls_def call_ids_def result_ids_def)
  then show ?thesis by (simp add: exchanges_def f)
qed

section \<open>The loop\<close>

lemma select_window_le: "keep \<le> max_keep \<Longrightarrow> select_window num cfg max_keep keep tokens ms \<le> max_keep"
  by (induction num cfg max_keep keep tokens ms rule: select_window.induct) (auto simp: Let_def)

lemma window_le: "select_recent_window_size num ms cfg \<le> min (recent_window cfg) (length ms - 1)"
  by (simp only: select_recent_window_size_def) (rule select_window_le, simp)

definition compacted_with :: "string \<Rightarrow> json list \<Rightarrow> json list \<Rightarrow> json list" where
  "compacted_with t recent conversation = with_resumption_guard (checkpoint_head t @ recent) conversation"

text \<open>
  What the loop returns: a summary followed by the recent messages of some smaller window, as they are or
  stripped of tool activity. It fits, unless the window is empty.
\<close>

lemma summarise_result:
  assumes "summarise num ask cfg prev conversation keep calls = Inr (h, n)"
  obtains k older recent kept t where "k \<le> keep" "split_messages conversation k = (older, recent)"
    "kept = recent \<or> kept = keep_non_tool_result_messages recent" "h = compacted_with t kept conversation"
    "fits num cfg h \<or> kept = []" "calls < n" "n \<le> calls + keep + 1" "trim t \<noteq> []"
  using assms
proof (induction keep arbitrary: calls thesis)
  case 0
  have split: "split_messages conversation 0 = (conversation, [])" by (simp add: split_messages_def)
  from 0(2) obtain t where "h = compacted_with t [] conversation" "n = Suc calls" "trim t \<noteq> []"
    by (subst (asm) summarise.simps) (auto simp: split Let_def compacted_with_def keep_non_tool_result_messages_def
      split: sum.splits if_splits)
  with split 0(1) [of 0 conversation "[]" "[]" t] show ?case by simp
next
  case (Suc k)
  obtain older recent where split: "split_messages conversation (Suc k) = (older, recent)" by force
  let ?verbatim = "\<lambda>t. compacted_with t recent conversation"
  let ?stripped = "\<lambda>t. compacted_with t (keep_non_tool_result_messages recent) conversation"
  from Suc.prems(2) obtain t where t: "trim t \<noteq> []" and r: "fits num cfg (?verbatim t) \<and> h = ?verbatim t \<and> n = Suc calls \<or>
      fits num cfg (?stripped t) \<and> h = ?stripped t \<and> n = Suc calls \<or>
      summarise num ask cfg prev conversation k (Suc calls) = Inr (h, n)"
    by (subst (asm) summarise.simps) (auto simp: split Let_def compacted_with_def split: sum.splits if_splits)
  from r consider "fits num cfg (?verbatim t)" "h = ?verbatim t" "n = Suc calls"
    | "fits num cfg (?stripped t)" "h = ?stripped t" "n = Suc calls"
    | "summarise num ask cfg prev conversation k (Suc calls) = Inr (h, n)" by blast
  then show ?case
  proof cases
    case 1
    with t split Suc.prems(1) [of "Suc k" older recent recent t] show ?thesis by simp
  next
    case 2
    with t split Suc.prems(1) [of "Suc k" older recent "keep_non_tool_result_messages recent" t] show ?thesis by simp
  next
    case 3
    show ?thesis
    proof (rule Suc.IH [OF _ 3])
      fix k' older' recent' kept t'
      assume "k' \<le> k" "split_messages conversation k' = (older', recent')"
        "kept = recent' \<or> kept = keep_non_tool_result_messages recent'" "h = compacted_with t' kept conversation"
        "fits num cfg h \<or> kept = []" "Suc calls < n" "n \<le> Suc calls + k + 1" "trim t' \<noteq> []"
      then show thesis by (intro Suc.prems(1) [of k' older' recent' kept t']) simp_all
    qed
  qed
qed

lemma compacted_with_exchanges:
  assumes "split_messages conversation k = (older, recent)" and "exchanges conversation"
    and "kept = recent \<or> kept = keep_non_tool_result_messages recent"
  shows "exchanges (compacted_with t kept conversation)"
  using assms split_exchanges(2) [OF assms(1,2)] keep_exchanges
  by (auto simp: compacted_with_def head_exchanges intro!: guard_exchanges)

section \<open>A compaction\<close>

definition own_checkpoint :: "json list \<Rightarrow> bool" where
  \<comment> \<open>The assistant message of a checkpoint makes no calls, as the ones compaction writes.\<close>
  "own_checkpoint ms \<longleftrightarrow> (case ms of
     marker # checkpoint # rest \<Rightarrow> snd (extract_previous_checkpoint ms) \<noteq> None \<longrightarrow> call_ids checkpoint = []
   | _ \<Rightarrow> True)"

lemma conversation_exchanges:
  assumes "exchanges ms" and "own_checkpoint ms"
  shows "exchanges (fst (extract_previous_checkpoint ms))"
proof (cases "snd (extract_previous_checkpoint ms)")
  case None
  then have "fst (extract_previous_checkpoint ms) = ms"
    by (auto simp: extract_previous_checkpoint_def split: list.splits if_splits)
  with assms(1) show ?thesis by simp
next
  case (Some t)
  then obtain u c rest where ms: "ms = u # c # rest" and r: "role_is ''user'' u" "role_is ''assistant'' c"
    and fst: "fst (extract_previous_checkpoint ms) = rest"
    by (auto simp: extract_previous_checkpoint_def split: list.splits if_splits)
  from r have "\<not> role_is ''tool'' u" "\<not> role_is ''tool'' c" by (simp_all add: role_is_def)
  with assms Some have "exchange [] [] rest" by (simp add: ms exchanges_def own_checkpoint_def open_calls_def)
  with fst show ?thesis by (simp add: exchanges_def)
qed

text \<open>The three ways a compaction ends.\<close>

lemma compact_cases:
  assumes "compact_messages num ask cfg force ms = Inr (h, n)" and "extract_previous_checkpoint ms = (conversation, prev)"
  obtains (empty_history) "ms = []" "h = []" "n = 0"
  | (capped) older recent keep where "split_messages conversation keep = (older, recent)" "n = 0"
      "h = with_resumption_guard ((case prev of None \<Rightarrow> [] | Some t \<Rightarrow> checkpoint_head t) @ cap_tool_results num older @ recent) conversation"
      "estimate_messages num h + prompt_overhead num + max 0 (input_token_count num ms cfg - estimate_messages num ms) \<le> token_threshold cfg"
  | (summarised) keep where "summarise num ask cfg prev conversation keep 0 = Inr (h, n)"
      "keep \<le> (if force then 1 else recent_window cfg)"
proof -
  let ?cfg = "if force then cfg\<lparr>recent_window := 1\<rparr> else cfg"
  let ?keep = "select_recent_window_size num conversation ?cfg"
  obtain older recent where split: "split_messages conversation ?keep = (older, recent)" by force
  have keep: "?keep \<le> (if force then 1 else recent_window cfg)" "?keep \<le> length conversation - 1"
    using window_le [of num conversation ?cfg] by (auto split: if_splits)
  have empty: "ms = [] \<and> recent = []" if "older = []" "prev = None"
  proof -
    from that(2) assms(2) have "ms = conversation"
      by (auto simp: extract_previous_checkpoint_def split: list.splits if_splits)
    moreover have "conversation = []"
    proof (rule ccontr)
      assume "conversation \<noteq> []"
      with keep(2) have "0 < length conversation - ?keep" by (cases conversation) auto
      with split that(1) \<open>conversation \<noteq> []\<close> show False
        by (auto simp: split_messages_def Let_def split: if_splits)
    qed
    ultimately show ?thesis using split_messages_parts(1) [OF split] by simp
  qed
  show thesis
  proof (cases "\<not> force \<and> older = [] \<and> prev = None")
    case True
    with empty have none: "ms = []" "recent = []" by simp_all
    from assms(1) True split have "h = keep_non_tool_result_messages recent" "n = 0"
      by (auto simp: compact_messages_def assms(2) Let_def)
    with none have "h = []" by (simp add: keep_non_tool_result_messages_def)
    from empty_history [OF none(1) this \<open>n = 0\<close>] show ?thesis .
  next
    case False
    let ?heuristic = "tool_result_cap_heuristic num cfg (max 0 (input_token_count num ms cfg - estimate_messages num ms)) prev
        conversation older recent"
    from False assms split have "summarise num ask cfg prev conversation ?keep 0 = Inr (h, n) \<or> ?heuristic = Some h \<and> n = 0"
      by (auto simp: compact_messages_def Let_def split: option.splits if_splits)
    then show ?thesis
    proof
      assume "summarise num ask cfg prev conversation ?keep 0 = Inr (h, n)"
      then show ?thesis using keep(1) by (rule summarised)
    next
      assume "?heuristic = Some h \<and> n = 0"
      with split show ?thesis
        by (intro capped [of ?keep older recent]) (auto simp: tool_result_cap_heuristic_def Let_def split: if_splits)
    qed
  qed
qed

text \<open>
  C21: if the history is one a provider accepts, so is the compacted one: every tool result still follows the message
  that made its call, every call is still answered, and the history does not end with the assistant.
\<close>
theorem compaction_keeps_exchanges:
  assumes "exchanges ms" and "own_checkpoint ms" and run: "compact_messages num ask cfg force ms = Inr (h, n)"
  shows "exchanges h \<and> (ms \<noteq> [] \<longrightarrow> h \<noteq> [] \<and> \<not> role_is ''assistant'' (last h))"
proof -
  obtain conversation prev where x: "extract_previous_checkpoint ms = (conversation, prev)" by force
  with conversation_exchanges [OF assms(1,2)] have conv: "exchanges conversation" by simp
  from run x show ?thesis
  proof (cases rule: compact_cases)
    case empty_history
    then show ?thesis by (simp add: exchanges_def)
  next
    case (capped older recent keep)
    have "exchanges (cap_tool_results num older @ recent)"
      using split_messages_parts(2) [OF capped(1)] split_exchanges [OF capped(1) conv] by (simp add: exchanges_append cap_exchanges)
    then have "exchanges ((case prev of None \<Rightarrow> [] | Some t \<Rightarrow> checkpoint_head t) @ cap_tool_results num older @ recent)"
      by (simp add: head_exchanges split: option.split)
    then show ?thesis using guard_last by (simp add: capped(3) guard_exchanges)
  next
    case (summarised keep)
    then obtain k older recent kept t where "split_messages conversation k = (older, recent)"
        "kept = recent \<or> kept = keep_non_tool_result_messages recent" "h = compacted_with t kept conversation"
      by (elim summarise_result)
    then show ?thesis using compacted_with_exchanges [OF _ conv] guard_last by (auto simp: compacted_with_def)
  qed
qed

section \<open>Answers of the compaction model\<close>

lemma summarise_returns:
  assumes "\<And>k p. \<exists>r. ask k p = Inr r \<and> trim (reply_text r) \<noteq> []"
  shows "\<exists>r. summarise num ask cfg prev conversation keep calls = Inr r"
proof (induction keep arbitrary: calls)
  case 0
  obtain r where "ask calls (create_compaction_prompt num conversation prev (Some (token_threshold cfg))) = Inr r" "trim (reply_text r) \<noteq> []"
    using assms by blast
  then show ?case by (subst summarise.simps) (simp add: split_messages_def Let_def)
next
  case (Suc keep)
  obtain older recent where split: "split_messages conversation (Suc keep) = (older, recent)" by force
  obtain r where "ask calls (create_compaction_prompt num older prev (Some (token_threshold cfg))) = Inr r" "trim (reply_text r) \<noteq> []"
    using assms by blast
  then show ?case using Suc.IH [of "Suc calls"] by (subst summarise.simps) (simp add: split Let_def)
qed

lemma estimate_nonneg: "0 \<le> estimate_messages num ms"
  by (simp add: estimate_messages_def estimate_tokens_def)

lemma overhead_nonneg: "0 \<le> prompt_overhead num"
  by (simp add: prompt_overhead_def estimate_nonneg)

text \<open>
  C26: as long as the compaction model answers with a text, compaction ends after at most one call more than the
  window has messages. What it returns fits the threshold, or is the shortest history there is: the summary and a
  message to resume from. Without a call it returns a history that is not due for compaction again.
\<close>
theorem compaction_ends:
  assumes answers: "\<And>k p. \<exists>r. ask k p = Inr r \<and> trim (reply_text r) \<noteq> []" and "ms \<noteq> []"
  shows "\<exists>h n. compact_messages num ask cfg force ms = Inr (h, n) \<and> n \<le> (if force then 1 else recent_window cfg) + 1 \<and>
    (n = 0 \<longrightarrow> \<not> should_compact num h (cfg\<lparr>known_input_tokens := None\<rparr>)) \<and>
    (fits num cfg h \<or> (\<exists>t. trim t \<noteq> [] \<and> h = compacted_with t [] (fst (extract_previous_checkpoint ms))))"
proof -
  obtain conversation prev where x: "extract_previous_checkpoint ms = (conversation, prev)" by force
  obtain h n where run: "compact_messages num ask cfg force ms = Inr (h, n)"
    using summarise_returns [OF answers]
    by (fastforce simp: compact_messages_def x Let_def split: prod.split option.split)
  from run x have "n \<le> (if force then 1 else recent_window cfg) + 1 \<and>
    (n = 0 \<longrightarrow> \<not> should_compact num h (cfg\<lparr>known_input_tokens := None\<rparr>)) \<and>
    (fits num cfg h \<or> (\<exists>t. trim t \<noteq> [] \<and> h = compacted_with t [] conversation))"
  proof (cases rule: compact_cases)
    case empty_history
    with \<open>ms \<noteq> []\<close> show ?thesis by simp
  next
    case (capped older recent keep)
    from capped(4) have "estimate_messages num h + prompt_overhead num \<le> token_threshold cfg" by linarith
    with overhead_nonneg [of num] capped(2) show ?thesis
      by (auto simp: should_compact_def input_token_count_def fits_def)
  next
    case (summarised keep)
    then obtain kept t where "fits num cfg h \<or> kept = []" "h = compacted_with t kept conversation" "0 < n" "n \<le> 0 + keep + 1"
        "trim t \<noteq> []"
      by (elim summarise_result)
    with summarised(2) show ?thesis by auto
  qed
  with run x show ?thesis by auto
qed

section \<open>A finding\<close>

text \<open>
  A user who writes the very text of the marker makes the next assistant message pass for a checkpoint. If that
  message made a call, the capped history keeps the result without the call.
\<close>

lemma orphan_after_marker:
  assumes "role_is ''tool'' r" and "result_ids r \<noteq> []"
    and "tool_result_cap_heuristic num cfg adjustment (Some t) conversation [r] [] = Some h"
  shows "\<not> exchanges h"
proof -
  obtain f where f: "cap_tool_results num [r] = [f r]" "role_is ''tool'' (f r)" "result_ids (f r) = result_ids r"
    using cap_tool_results_ids [of num "[r]"] assms(1) by (auto simp: result_ids_def)
  have "h = checkpoint_head t @ [f r]"
    using assms(3) f(1,2) by (auto simp: tool_result_cap_heuristic_def guard_cases role_is_def Let_def split: if_splits)
  with f assms(2) show ?thesis by (simp only: head_exchanges) (auto simp: exchanges_def)
qed

section \<open>A small history\<close>

definition small_history :: "json list" where
  "small_history = [user_message ''go'',
     JObj [(''role'', JStr ''assistant''), (''content'', JArr [JObj [(''type'', JStr ''tool-call''), (''toolCallId'', JStr ''c''), (''toolName'', JStr ''ls'')]])],
     JObj [(''role'', JStr ''tool''), (''content'', JArr [JObj [(''type'', JStr ''tool-result''), (''toolCallId'', JStr ''c''), (''toolName'', JStr ''ls''), (''output'', JStr ''x'')]])],
     assistant_message ''ok'']"

definition sums_up :: "nat \<Rightarrow> compaction_prompt \<Rightarrow> string + summary_reply" where
  "sums_up k p = Inr \<lparr>reply_text = ''listed'', finish_reason = ''stop''\<rparr>"

definition roomy :: compaction_config where
  "roomy = \<lparr>known_input_tokens = None, known_message_count = None, recent_window = 4, token_threshold = 1000\<rparr>"

definition short_history :: "json list" where
  "short_history = checkpoint_head ''listed'' @ [assistant_message ''ok'', user_message ''go'']"

lemma small_history_compacted: "compact_messages (\<lambda>_. ''0'') sums_up roomy True small_history = Inr (short_history, 1)"
proof -
  let ?cfg = "roomy\<lparr>recent_window := 1\<rparr>"
  have prev: "extract_previous_checkpoint small_history = (small_history, None)"
    by (simp add: extract_previous_checkpoint_def small_history_def user_message_def checkpoint_marker_def)
  have keep: "select_recent_window_size (\<lambda>_. ''0'') small_history ?cfg = 1"
    by (simp add: select_recent_window_size_def small_history_def Let_def roomy_def summary_reserve_def estimate_messages_def
      estimate_tokens_def assistant_message_def quote_string_def quote_char_def)
  have split: "split_messages small_history 1 = (take 3 small_history, [assistant_message ''ok''])"
    by (simp add: split_messages_def small_history_def)
  have last: "last_real_user_message small_history = Some (user_message ''go'')"
    by (simp add: last_real_user_message_def small_history_def real_user_message_def user_message_def assistant_message_def
      role_is_def resumption_message_def checkpoint_marker_def todo_label_def)
  have verbatim: "with_resumption_guard (checkpoint_head ''listed'' @ [assistant_message ''ok'']) small_history = short_history"
    by (simp add: guard_cases resumption_def last checkpoint_head_def short_history_def)
      (simp add: user_message_def assistant_message_def checkpoint_marker_def)
  have "fits (\<lambda>_. ''0'') roomy short_history"
    by (simp add: fits_def roomy_def estimate_messages_def estimate_tokens_def short_history_def checkpoint_head_def
      user_message_def assistant_message_def checkpoint_marker_def quote_string_def quote_char_def)
  then show ?thesis
    unfolding compact_messages_def prev prod.case Let_def if_True keep
    by (subst summarise.simps) (simp add: split [simplified] sums_up_def Let_def verbatim [simplified] trim_def is_space_def)
qed

theorem compaction_keeps_exchanges_witness: "exchanges short_history \<and> \<not> role_is ''assistant'' (last short_history)"
proof -
  have "exchanges small_history"
    by (simp add: exchanges_def small_history_def user_message_def assistant_message_def role_is_def result_ids_def call_ids_def
      open_calls_def ids_in_def parts_in_def part_of_type_def)
  moreover have "own_checkpoint small_history"
    by (simp add: own_checkpoint_def small_history_def extract_previous_checkpoint_def user_message_def checkpoint_marker_def)
  ultimately show ?thesis
    using compaction_keeps_exchanges [OF _ _ small_history_compacted] by (simp add: small_history_def)
qed

theorem compaction_ends_witness:
  "\<exists>h n. compact_messages (\<lambda>_. ''0'') sums_up roomy True small_history = Inr (h, n) \<and> n \<le> 2 \<and> h = short_history"
proof -
  have "\<exists>h n. compact_messages (\<lambda>_. ''0'') sums_up roomy True small_history = Inr (h, n) \<and> n \<le> (if True then 1 else recent_window roomy) + 1 \<and>
    (n = 0 \<longrightarrow> \<not> should_compact (\<lambda>_. ''0'') h (roomy\<lparr>known_input_tokens := None\<rparr>)) \<and>
    (fits (\<lambda>_. ''0'') roomy h \<or> (\<exists>t. trim t \<noteq> [] \<and> h = compacted_with t [] (fst (extract_previous_checkpoint small_history))))"
    by (rule compaction_ends) (simp_all add: sums_up_def trim_def is_space_def small_history_def)
  then show ?thesis by (auto simp: small_history_compacted)
qed

end
