(* ===== verification/Command_Inbox.thy ===== *)
theory Command_Inbox
  imports Eve_Prelude "HOL-Library.Multiset"
begin

text \<open>
  The command inbox of a session driver (\<open>execution/session-command-inbox.ts\<close>): one stable hook, one
  channel alias that can be replaced, and one authorization hook that is read only while its window is
  open, multiplexed into one sequence of reads. The closure variables are the fields of \<open>command_inbox\<close>;
  hook states are objects, so \<open>all_hooks\<close> holds every one ever created and the variables hold positions
  in it. Each stretch of code between two awaits is one operation: the continuation of a pending read is
  \<open>settle_read\<close>, the resumption of the loop of an offered promise is \<open>surface\<close>, and replacing the alias
  has three stretches. An operation returns the error it throws, if any, and the state it leaves.
\<close>

section \<open>State\<close>

datatype 'v read_result = Done | Value 'v

record 'v hook_read =
  read_order :: nat
  read_result :: "'v read_result"
  read_hook :: nat

record 'v hook_state =
  hook_token :: string
  hook_closed :: bool
  hook_enabled :: bool
  hook_pending :: bool
  hook_retired :: bool
  hook_resolved :: "'v hook_read option"

datatype rekey_phase = Not_Rekeying | Claiming nat | Releasing nat

record 'v command_inbox =
  all_hooks :: "'v hook_state list"
  stable_hook :: "nat option"
  continuation_hook :: "nat option"
  authorization_hook :: "nat option"
  retired_aliases :: "nat list"
  ready_reads :: "'v hook_read list"
  next_order :: nat
  offer_open :: bool \<comment> \<open>\<open>offered !== null\<close>\<close>
  offered_read :: "'v hook_read option"
  rekeying :: rekey_phase

datatype inbox_fault = No_Stable_Inbox | Nothing_Resolved | Token_Changed | Unclaimed_Window | Hook_Conflict | Release_Failed

definition create_session_command_inbox :: "'v command_inbox" where
  "create_session_command_inbox = \<lparr>all_hooks = [], stable_hook = None, continuation_hook = None, authorization_hook = None,
     retired_aliases = [], ready_reads = [], next_order = 0, offer_open = False, offered_read = None, rekeying = Not_Rekeying\<rparr>"

section \<open>Reads\<close>

abbreviation hook_at :: "'v command_inbox \<Rightarrow> nat \<Rightarrow> 'v hook_state" where
  "hook_at s i \<equiv> all_hooks s ! i"

definition change_hook :: "nat \<Rightarrow> ('v hook_state \<Rightarrow> 'v hook_state) \<Rightarrow> 'v command_inbox \<Rightarrow> 'v command_inbox" where
  "change_hook i f s = s\<lparr>all_hooks := (all_hooks s)[i := f (hook_at s i)]\<rparr>"

definition enqueue_read :: "'v hook_read \<Rightarrow> 'v command_inbox \<Rightarrow> 'v command_inbox" where
  "enqueue_read r s = s\<lparr>ready_reads := sort_key read_order (ready_reads s @ [r])\<rparr>"

definition arm :: "nat \<Rightarrow> 'v command_inbox \<Rightarrow> 'v command_inbox" where
  "arm i s = (if hook_closed (hook_at s i) \<or> hook_pending (hook_at s i) then s
     else change_hook i (\<lambda>h. h\<lparr>hook_pending := True, hook_resolved := None\<rparr>) s)"

definition awaits_read :: "nat \<Rightarrow> 'v command_inbox \<Rightarrow> bool" where
  \<comment> \<open>A read of the hook is in flight.\<close>
  "awaits_read i s \<longleftrightarrow> i < length (all_hooks s) \<and> hook_pending (hook_at s i) \<and> hook_resolved (hook_at s i) = None"

definition new_read :: "nat \<Rightarrow> 'v read_result \<Rightarrow> 'v command_inbox \<Rightarrow> 'v hook_read" where
  "new_read i result s = \<lparr>read_order = next_order s, read_result = result, read_hook = i\<rparr>"

definition settle_read :: "nat \<Rightarrow> 'v read_result \<Rightarrow> 'v command_inbox \<Rightarrow> 'v command_inbox" where
  "settle_read i result s =
     (if \<not> awaits_read i s then s
      else (let r = new_read i result s;
                s' = change_hook i (\<lambda>h. h\<lparr>hook_resolved := Some r\<rparr>) (s\<lparr>next_order := Suc (next_order s)\<rparr>)
            in if hook_enabled (hook_at s i) then enqueue_read r s' else s'))"

definition enable :: "nat \<Rightarrow> 'v command_inbox \<Rightarrow> 'v command_inbox" where
  "enable i s = (let s' = change_hook i (\<lambda>h. h\<lparr>hook_enabled := True\<rparr>) s in
     case hook_resolved (hook_at s i) of None \<Rightarrow> s' | Some r \<Rightarrow> enqueue_read r s')"

definition create_state :: "string \<Rightarrow> 'v command_inbox \<Rightarrow> nat \<times> 'v command_inbox" where
  "create_state token s = (length (all_hooks s), s\<lparr>all_hooks := all_hooks s @
     [\<lparr>hook_token = token, hook_closed = False, hook_enabled = False, hook_pending = False, hook_retired = False,
       hook_resolved = None\<rparr>]\<rparr>)"

definition states :: "'v command_inbox \<Rightarrow> nat list" where
  "states s = option_list (stable_hook s) @ option_list (continuation_hook s) @ option_list (authorization_hook s) @ retired_aliases s"

section \<open>Operations\<close>

type_synonym 'v inbox_step = "inbox_fault option \<times> 'v command_inbox"

definition next_read :: "'v command_inbox \<Rightarrow> 'v inbox_step" where
  "next_read s = (case stable_hook s of
     None \<Rightarrow> (Some No_Stable_Inbox, s)
   | Some st \<Rightarrow>
       if offer_open s then (None, s)
       else (let s1 = foldl (\<lambda>s i. arm i s) s (states s) in
         if list_all (\<lambda>i. hook_closed (hook_at s1 i)) (states s)
         then (None, s1\<lparr>next_order := Suc (next_order s1), offered_read := Some (new_read st Done s1), offer_open := True\<rparr>)
         else (None, s1\<lparr>offer_open := True\<rparr>)))"

definition surface :: "'v command_inbox \<Rightarrow> 'v command_inbox" where
  "surface s = (if offer_open s \<and> offered_read s = None
     then (case ready_reads s of [] \<Rightarrow> s | r # rs \<Rightarrow> s\<lparr>offered_read := Some r, ready_reads := rs\<rparr>) else s)"

definition consume_next :: "'v command_inbox \<Rightarrow> 'v inbox_step" where
  "consume_next s = (case offered_read s of
     None \<Rightarrow> (Some Nothing_Resolved, s)
   | Some r \<Rightarrow> (None, (change_hook (read_hook r) (\<lambda>h. h\<lparr>hook_pending := False, hook_resolved := None,
         hook_closed := hook_closed h \<or> read_result r = Done\<rparr>) s)\<lparr>offered_read := None, offer_open := False\<rparr>))"

definition claim_authorization :: "string \<Rightarrow> bool \<Rightarrow> 'v command_inbox \<Rightarrow> 'v inbox_step" where
  "claim_authorization token claimed s = (case authorization_hook s of
     Some a \<Rightarrow> (if hook_token (hook_at s a) = token then None else Some Token_Changed, s)
   | None \<Rightarrow> (let (i, s1) = create_state token s in
       if claimed then (None, s1\<lparr>authorization_hook := Some i\<rparr>) else (Some Hook_Conflict, s1)))"

definition claim_stable :: "string \<Rightarrow> bool \<Rightarrow> 'v command_inbox \<Rightarrow> 'v inbox_step" where
  "claim_stable token claimed s = (case stable_hook s of
     Some a \<Rightarrow> (if hook_token (hook_at s a) = token then None else Some Token_Changed, s)
   | None \<Rightarrow> (let (i, s1) = create_state token s in
       if claimed then (None, (enable i s1)\<lparr>stable_hook := Some i\<rparr>) else (Some Hook_Conflict, s1)))"

definition rekey_continuation :: "string \<Rightarrow> bool \<Rightarrow> 'v command_inbox \<Rightarrow> 'v inbox_step" where
  \<comment> \<open>Up to the claim of the candidate, or the whole operation when there is no alias yet.\<close>
  "rekey_continuation token claimed s =
     (if token = [] \<or> (\<exists>c. continuation_hook s = Some c \<and> hook_token (hook_at s c) = token) then (None, s)
      else (let (i, s1) = create_state token s in
        case continuation_hook s of
          None \<Rightarrow>
            if \<not> claimed then (Some Hook_Conflict, s1)
            else (let s2 = (enable i s1)\<lparr>continuation_hook := Some i\<rparr> in (None, if offer_open s2 then arm i s2 else s2))
        | Some _ \<Rightarrow> (None, (arm i s1)\<lparr>rekeying := Claiming i\<rparr>)))"

definition rekey_claimed :: "bool \<Rightarrow> 'v command_inbox \<Rightarrow> 'v inbox_step" where
  "rekey_claimed claimed s = (case (rekeying s, continuation_hook s) of
     (Claiming i, Some previous) \<Rightarrow>
       if \<not> claimed then (Some Hook_Conflict, s\<lparr>rekeying := Not_Rekeying\<rparr>)
       else (None, arm previous ((enable i s)\<lparr>continuation_hook := Some i, rekeying := Releasing previous\<rparr>))
   | _ \<Rightarrow> (None, s))"

definition rekey_released :: "bool \<Rightarrow> 'v command_inbox \<Rightarrow> 'v inbox_step" where
  "rekey_released released s = (case rekeying s of
     Releasing previous \<Rightarrow>
       if \<not> released then (Some Release_Failed, s\<lparr>continuation_hook := None, rekeying := Not_Rekeying\<rparr>)
       else (None, (change_hook previous (\<lambda>h. h\<lparr>hook_retired := True\<rparr>) s)\<lparr>
         retired_aliases := retired_aliases s @ [previous], rekeying := Not_Rekeying\<rparr>)
   | _ \<Rightarrow> (None, s))"

definition is_authorization_read :: "'v command_inbox \<Rightarrow> 'v hook_read \<Rightarrow> bool" where
  "is_authorization_read s r \<longleftrightarrow> authorization_hook s = Some (read_hook r)"

definition reoffer :: "nat \<Rightarrow> 'v command_inbox \<Rightarrow> 'v command_inbox" where
  \<comment> \<open>An offered read that arrived after the authorization read goes back to the queue.\<close>
  "reoffer a s = (case (offered_read s, hook_resolved (hook_at s a)) of
     (Some r, Some q) \<Rightarrow>
       if \<not> is_authorization_read s r \<and> read_order q < read_order r
       then (enqueue_read r s)\<lparr>offered_read := None, offer_open := False\<rparr> else s
   | _ \<Rightarrow> s)"

definition open_window :: "nat \<Rightarrow> 'v command_inbox \<Rightarrow> 'v command_inbox" where
  "open_window a s =
     (let s1 = (if hook_enabled (hook_at s a) then s else enable a s);
          s2 = reoffer a s1
      in if offer_open s2 then arm a s2 else s2)"

definition close_window :: "nat \<Rightarrow> 'v command_inbox \<Rightarrow> 'v command_inbox" where
  "close_window a s =
     (change_hook a (\<lambda>h. h\<lparr>hook_enabled := False\<rparr>) s)\<lparr>ready_reads := remove_first (is_authorization_read s) (ready_reads s)\<rparr>"

definition set_authorization_window :: "bool \<Rightarrow> 'v command_inbox \<Rightarrow> 'v inbox_step" where
  "set_authorization_window is_open s = (case authorization_hook s of
     None \<Rightarrow> (if is_open then Some Unclaimed_Window else None, s)
   | Some a \<Rightarrow> (None, if is_open then open_window a s else close_window a s))"

definition has_ready_authorization :: "'v command_inbox \<Rightarrow> bool" where
  "has_ready_authorization s = (case authorization_hook s of
     None \<Rightarrow> False
   | Some a \<Rightarrow>
       if \<not> hook_enabled (hook_at s a) \<or> hook_resolved (hook_at s a) = None then False
       else (case offered_read s of
           Some r \<Rightarrow> is_authorization_read s r
         | None \<Rightarrow> (case ready_reads s of [] \<Rightarrow> False | r # _ \<Rightarrow> is_authorization_read s r)))"

definition next_source :: "'v command_inbox \<Rightarrow> bool" where
  \<comment> \<open>What \<open>nextWithSource\<close> reports: whether the offered read is the authorization hook's.\<close>
  "next_source s = (case offered_read s of Some r \<Rightarrow> is_authorization_read s r | None \<Rightarrow> False)"

definition dispose_inbox :: "'v command_inbox \<Rightarrow> 'v command_inbox" where
  "dispose_inbox s = s\<lparr>continuation_hook := None, stable_hook := None, authorization_hook := None\<rparr>"

section \<open>Runs\<close>

datatype 'v inbox_event =
  Settle nat "'v read_result"
| Surface | Next | Consume
| Claim_Stable string bool | Claim_Authorization string bool
| Rekey string bool | Rekey_Claimed bool | Rekey_Released bool
| Window bool | Dispose

fun inbox_step :: "'v command_inbox \<Rightarrow> 'v inbox_event \<Rightarrow> 'v command_inbox" where
  "inbox_step s (Settle i result) = settle_read i result s"
| "inbox_step s Surface = surface s"
| "inbox_step s Next = snd (next_read s)"
| "inbox_step s Consume = snd (consume_next s)"
| "inbox_step s (Claim_Stable t ok) = snd (claim_stable t ok s)"
| "inbox_step s (Claim_Authorization t ok) = snd (claim_authorization t ok s)"
| "inbox_step s (Rekey t ok) = snd (rekey_continuation t ok s)"
| "inbox_step s (Rekey_Claimed ok) = snd (rekey_claimed ok s)"
| "inbox_step s (Rekey_Released ok) = snd (rekey_released ok s)"
| "inbox_step s (Window b) = snd (set_authorization_window b s)"
| "inbox_step s Dispose = dispose_inbox s"

fun allowed_event :: "'v command_inbox \<Rightarrow> 'v inbox_event \<Rightarrow> bool" where
  \<comment> \<open>What the driver keeps to: it awaits one replacement of the alias before it starts another, and closes
    the window only after it consumed an authorization read it was offered.\<close>
  "allowed_event s (Window False) \<longleftrightarrow> \<not> next_source s"
| "allowed_event s (Rekey t ok) \<longleftrightarrow> rekeying s = Not_Rekeying"
| "allowed_event s e \<longleftrightarrow> True"

fun allowed_events :: "'v command_inbox \<Rightarrow> 'v inbox_event list \<Rightarrow> bool" where
  "allowed_events s [] \<longleftrightarrow> True"
| "allowed_events s (e # es) \<longleftrightarrow> allowed_event s e \<and> allowed_events (inbox_step s e) es"

definition arrivals_of :: "'v command_inbox \<Rightarrow> 'v inbox_event \<Rightarrow> 'v hook_read list" where
  "arrivals_of s e = (case e of Settle i result \<Rightarrow> if awaits_read i s then [new_read i result s] else [] | _ \<Rightarrow> [])"

definition consumed_by :: "'v command_inbox \<Rightarrow> 'v inbox_event \<Rightarrow> 'v hook_read list" where
  "consumed_by s e = (case e of Consume \<Rightarrow> option_list (offered_read s) | _ \<Rightarrow> [])"

fun reads_arrived :: "'v command_inbox \<Rightarrow> 'v inbox_event list \<Rightarrow> 'v hook_read list" where
  "reads_arrived s [] = []"
| "reads_arrived s (e # es) = arrivals_of s e @ reads_arrived (inbox_step s e) es"

fun reads_consumed :: "'v command_inbox \<Rightarrow> 'v inbox_event list \<Rightarrow> 'v hook_read list" where
  "reads_consumed s [] = []"
| "reads_consumed s (e # es) = consumed_by s e @ reads_consumed (inbox_step s e) es"

section \<open>Invariant\<close>

definition held_read :: "'v command_inbox \<Rightarrow> nat \<Rightarrow> 'v hook_read \<Rightarrow> bool" where
  \<comment> \<open>The hook has a read that is not consumed.\<close>
  "held_read s i r \<longleftrightarrow> i < length (all_hooks s) \<and> hook_resolved (hook_at s i) = Some r"

definition hooks_ok :: "'v command_inbox \<Rightarrow> bool" where
  "hooks_ok s \<longleftrightarrow>
     (\<forall>i r. held_read s i r \<longrightarrow> read_hook r = i \<and> read_order r < next_order s \<and> hook_pending (hook_at s i)) \<and>
     (\<forall>i j r q. held_read s i r \<longrightarrow> held_read s j q \<longrightarrow> read_order r = read_order q \<longrightarrow> i = j) \<and>
     (\<forall>i < length (all_hooks s). hook_closed (hook_at s i) \<longrightarrow> \<not> hook_pending (hook_at s i))"

definition queue_ok :: "'v command_inbox \<Rightarrow> bool" where
  "queue_ok s \<longleftrightarrow> sorted (map read_order (ready_reads s)) \<and> distinct (map read_order (ready_reads s)) \<and>
     (\<forall>r \<in> set (ready_reads s). held_read s (read_hook r) r \<and> hook_enabled (hook_at s (read_hook r)))"

definition end_read :: "'v command_inbox \<Rightarrow> 'v hook_read \<Rightarrow> bool" where
  \<comment> \<open>The end that is offered when every source is closed; it is not a read of a hook.\<close>
  "end_read s r \<longleftrightarrow> read_result r = Done \<and> read_hook r < length (all_hooks s) \<and> hook_closed (hook_at s (read_hook r)) \<and>
     hook_resolved (hook_at s (read_hook r)) = None"

definition offer_ok :: "'v command_inbox \<Rightarrow> bool" where
  "offer_ok s \<longleftrightarrow> (\<forall>r. offered_read s = Some r \<longrightarrow> offer_open s \<and> r \<notin> set (ready_reads s) \<and>
     hook_enabled (hook_at s (read_hook r)) \<and> (held_read s (read_hook r) r \<or> end_read s r))"

definition surfaced :: "'v command_inbox \<Rightarrow> bool" where
  \<comment> \<open>Every unconsumed read of an enabled hook is queued or offered.\<close>
  "surfaced s \<longleftrightarrow> (\<forall>i r. held_read s i r \<longrightarrow> hook_enabled (hook_at s i) \<longrightarrow> r \<in> set (ready_reads s) \<or> offered_read s = Some r)"

definition roles_ok :: "'v command_inbox \<Rightarrow> bool" where
  "roles_ok s \<longleftrightarrow> (\<forall>i \<in> set (states s). i < length (all_hooks s)) \<and>
     (\<forall>i. stable_hook s = Some i \<or> continuation_hook s = Some i \<longrightarrow> hook_enabled (hook_at s i)) \<and>
     (\<forall>a. authorization_hook s = Some a \<longrightarrow> stable_hook s \<noteq> Some a \<and> continuation_hook s \<noteq> Some a \<and> a \<notin> set (retired_aliases s)) \<and>
     (case rekeying s of Not_Rekeying \<Rightarrow> True
      | Claiming i \<Rightarrow> i < length (all_hooks s) \<and> \<not> hook_enabled (hook_at s i) \<and> authorization_hook s \<noteq> Some i
      | Releasing i \<Rightarrow> i < length (all_hooks s) \<and> hook_enabled (hook_at s i) \<and> authorization_hook s \<noteq> Some i)"

definition inbox_ok :: "'v command_inbox \<Rightarrow> bool" where
  "inbox_ok s \<longleftrightarrow> hooks_ok s \<and> queue_ok s \<and> offer_ok s \<and> surfaced s \<and> roles_ok s"

lemmas inbox_defs = inbox_ok_def hooks_ok_def queue_ok_def offer_ok_def surfaced_def roles_ok_def held_read_def end_read_def

lemma held_facts: "hooks_ok s \<Longrightarrow> held_read s i r \<Longrightarrow> read_hook r = i \<and> read_order r < next_order s \<and> hook_pending (hook_at s i)"
  unfolding hooks_ok_def by blast

lemma held_once: "hooks_ok s \<Longrightarrow> held_read s i r \<Longrightarrow> held_read s j q \<Longrightarrow> read_order r = read_order q \<Longrightarrow> i = j"
  unfolding hooks_ok_def by blast

lemma closed_idle: "hooks_ok s \<Longrightarrow> i < length (all_hooks s) \<Longrightarrow> hook_closed (hook_at s i) \<Longrightarrow> \<not> hook_pending (hook_at s i)"
  unfolding hooks_ok_def by blast

lemma change_hook_simps [simp]:
  "length (all_hooks (change_hook i f s)) = length (all_hooks s)"
  "i < length (all_hooks s) \<Longrightarrow> hook_at (change_hook i f s) j = (if j = i then f (hook_at s i) else hook_at s j)"
  "stable_hook (change_hook i f s) = stable_hook s" "continuation_hook (change_hook i f s) = continuation_hook s"
  "authorization_hook (change_hook i f s) = authorization_hook s" "retired_aliases (change_hook i f s) = retired_aliases s"
  "ready_reads (change_hook i f s) = ready_reads s" "next_order (change_hook i f s) = next_order s"
  "offer_open (change_hook i f s) = offer_open s" "offered_read (change_hook i f s) = offered_read s"
  "rekeying (change_hook i f s) = rekeying s"
  by (simp_all add: change_hook_def)

lemma enqueue_read_simps [simp]:
  "all_hooks (enqueue_read r s) = all_hooks s" "stable_hook (enqueue_read r s) = stable_hook s"
  "continuation_hook (enqueue_read r s) = continuation_hook s" "authorization_hook (enqueue_read r s) = authorization_hook s"
  "retired_aliases (enqueue_read r s) = retired_aliases s" "next_order (enqueue_read r s) = next_order s"
  "offer_open (enqueue_read r s) = offer_open s" "offered_read (enqueue_read r s) = offered_read s"
  "rekeying (enqueue_read r s) = rekeying s" "set (ready_reads (enqueue_read r s)) = insert r (set (ready_reads s))"
  by (simp_all add: enqueue_read_def)

lemma queue_enqueue:
  assumes "sorted (map read_order (ready_reads s))" and "distinct (map read_order (ready_reads s))"
    and "\<forall>q \<in> set (ready_reads s). read_order q \<noteq> read_order r"
  shows "sorted (map read_order (ready_reads (enqueue_read r s))) \<and> distinct (map read_order (ready_reads (enqueue_read r s)))"
proof -
  have "mset (map read_order (ready_reads (enqueue_read r s))) = mset (map read_order (ready_reads s @ [r]))"
    by (simp add: enqueue_read_def)
  then have "distinct (map read_order (ready_reads (enqueue_read r s))) = distinct (map read_order (ready_reads s @ [r]))"
    by (rule mset_eq_imp_distinct_iff)
  with assms show ?thesis by (auto simp: enqueue_read_def)
qed

lemma states_simps [simp]: "states (change_hook i f s) = states s" "states (enqueue_read r s) = states s"
  by (simp_all add: states_def)

lemma enqueue_ok [simp]: "hooks_ok (enqueue_read r s) = hooks_ok s" "roles_ok (enqueue_read r s) = roles_ok s"
  by (simp_all add: hooks_ok_def roles_ok_def held_read_def cong: rekey_phase.case_cong)

lemma roles_fields [simp]: "roles_ok (s\<lparr>offered_read := q\<rparr>) = roles_ok s" "roles_ok (s\<lparr>ready_reads := rs\<rparr>) = roles_ok s"
  "roles_ok (s\<lparr>offer_open := b\<rparr>) = roles_ok s" "roles_ok (s\<lparr>next_order := n\<rparr>) = roles_ok s"
  by (simp_all add: roles_ok_def states_def cong: rekey_phase.case_cong)

lemma arm_ok:
  assumes "inbox_ok s" and "i < length (all_hooks s)"
  shows "inbox_ok (arm i s)"
proof (cases "hook_closed (hook_at s i) \<or> hook_pending (hook_at s i)")
  case False
  with assms have none: "hook_resolved (hook_at s i) = None"
    by (cases "hook_resolved (hook_at s i)") (auto simp: inbox_ok_def hooks_ok_def held_read_def)
  let ?s = "change_hook i (\<lambda>h. h\<lparr>hook_pending := True, hook_resolved := None\<rparr>) s"
  have held: "held_read ?s j r = held_read s j r" for j r
    using assms(2) none by (auto simp: held_read_def)
  have en: "hook_enabled (hook_at ?s j) = hook_enabled (hook_at s j)" "hook_closed (hook_at ?s j) = hook_closed (hook_at s j)" for j
    using assms(2) by simp_all
  have pend: "hook_pending (hook_at s j) \<Longrightarrow> hook_pending (hook_at ?s j)" for j using assms(2) by simp
  have ends: "end_read ?s r = end_read s r" for r
    using assms(2) none False by (auto simp: end_read_def)
  have "hooks_ok ?s" using assms False unfolding inbox_ok_def hooks_ok_def held en by (auto split: if_splits)
  moreover have "queue_ok ?s" "offer_ok ?s" "surfaced ?s" "roles_ok ?s"
    using assms unfolding inbox_ok_def queue_ok_def offer_ok_def surfaced_def roles_ok_def held en ends
    by (auto split: rekey_phase.splits)
  ultimately have "inbox_ok ?s" by (simp add: inbox_ok_def)
  with False show ?thesis by (simp add: arm_def)
qed (use assms in \<open>simp add: arm_def\<close>)

lemma held_change_hook:
  "i < length (all_hooks s) \<Longrightarrow>
   held_read (change_hook i f s) j r \<longleftrightarrow> (if j = i then hook_resolved (f (hook_at s i)) = Some r else held_read s j r)"
  by (auto simp: held_read_def)

lemma held_enqueue [simp]: "held_read (enqueue_read q s) j r = held_read s j r"
  by (simp add: held_read_def)

lemma held_fields [simp]:
  "held_read (s\<lparr>next_order := n\<rparr>) j r = held_read s j r" "held_read (s\<lparr>offered_read := q\<rparr>) j r = held_read s j r"
  "held_read (s\<lparr>offer_open := b\<rparr>) j r = held_read s j r" "held_read (s\<lparr>ready_reads := rs\<rparr>) j r = held_read s j r"
  "held_read (s\<lparr>stable_hook := x\<rparr>) j r = held_read s j r" "held_read (s\<lparr>continuation_hook := x\<rparr>) j r = held_read s j r"
  "held_read (s\<lparr>authorization_hook := x\<rparr>) j r = held_read s j r" "held_read (s\<lparr>rekeying := ph\<rparr>) j r = held_read s j r"
  "held_read (s\<lparr>retired_aliases := rt\<rparr>) j r = held_read s j r"
  by (simp_all add: held_read_def)

lemma states_fields [simp]:
  "states (s\<lparr>next_order := n\<rparr>) = states s" "states (s\<lparr>offered_read := q\<rparr>) = states s" "states (s\<lparr>offer_open := b\<rparr>) = states s"
  "states (s\<lparr>ready_reads := rs\<rparr>) = states s" "states (s\<lparr>rekeying := ph\<rparr>) = states s"
  by (simp_all add: states_def)

lemma ready_held: "queue_ok s \<Longrightarrow> q \<in> set (ready_reads s) \<Longrightarrow> held_read s (read_hook q) q"
  by (simp add: queue_ok_def)

lemma settle_ok:
  assumes ok: "inbox_ok s"
  shows "inbox_ok (settle_read i result s)"
proof (cases "awaits_read i s")
  case True
  then have i: "i < length (all_hooks s)" and pend: "hook_pending (hook_at s i)" and none: "hook_resolved (hook_at s i) = None"
    by (simp_all add: awaits_read_def)
  let ?r = "new_read i result s"
  let ?s = "change_hook i (\<lambda>h. h\<lparr>hook_resolved := Some ?r\<rparr>) (s\<lparr>next_order := Suc (next_order s)\<rparr>)"
  have held: "held_read ?s j q \<longleftrightarrow> (if j = i then q = ?r else held_read s j q)" for j q
    using i by (auto simp: held_read_def)
  have flags: "hook_enabled (hook_at ?s j) = hook_enabled (hook_at s j)" "hook_closed (hook_at ?s j) = hook_closed (hook_at s j)"
    "hook_pending (hook_at ?s j) = hook_pending (hook_at s j)" for j using i by simp_all
  have old: "read_order q < next_order s \<and> read_hook q = j \<and> j \<noteq> i" if "held_read s j q" for j q
    using ok that none by (auto simp: inbox_ok_def hooks_ok_def held_read_def)
  have r: "read_order ?r = next_order s" "read_hook ?r = i" by (simp_all add: new_read_def)
  have ends: "end_read ?s q = end_read s q" for q
    using i ok pend by (auto simp: end_read_def inbox_ok_def hooks_ok_def)
  have lt: "read_order q < next_order s" if "q \<in> set (ready_reads s)" for q
    using ok old [OF ready_held [OF _ that]] by (simp add: inbox_ok_def)
  have fresh: "\<forall>q \<in> set (ready_reads s). read_order q \<noteq> read_order ?r" using lt r(1) by (metis less_irrefl)
  have new: "offered_read s \<noteq> Some ?r \<or> end_read s ?r"
    using ok old [of i ?r] r(2) unfolding inbox_ok_def offer_ok_def by metis
  have not_end: "\<not> end_read s ?r" using i pend ok r by (auto simp: end_read_def inbox_ok_def hooks_ok_def)
  have ho: "hooks_ok s" using ok by (simp add: inbox_ok_def)
  have "hooks_ok ?s"
    unfolding hooks_ok_def
  proof (intro conjI allI impI)
    fix j k q u
    assume "held_read ?s j q" and "held_read ?s k u" and same: "read_order q = read_order u"
    then have "j = i \<and> q = ?r \<or> j \<noteq> i \<and> held_read s j q" and "k = i \<and> u = ?r \<or> k \<noteq> i \<and> held_read s k u"
      unfolding held by (simp_all split: if_splits)
    then consider "j = i" "k = i" | "q = ?r" "held_read s k u" | "u = ?r" "held_read s j q" | "held_read s j q" "held_read s k u"
      by blast
    then show "j = k"
    proof cases
      case 2
      with old [OF 2(2)] same r(1) show ?thesis by (metis less_irrefl)
    next
      case 3
      with old [OF 3(2)] same r(1) show ?thesis by (metis less_irrefl)
    next
      case 4
      then show ?thesis by (rule held_once [OF ho _ _ same])
    qed simp
  next
    fix j q
    assume "held_read ?s j q"
    then have q: "j = i \<and> q = ?r \<or> j \<noteq> i \<and> held_read s j q" unfolding held by (simp split: if_splits)
    then show "read_hook q = j" using r(2) old [of j q] by auto
    have "next_order ?s = Suc (next_order s)" by simp
    with q show "read_order q < next_order ?s" using r(1) old [of j q] by auto
    from q show "hook_pending (hook_at ?s j)" unfolding flags using pend held_facts [OF ho, of j q] by auto
  next
    fix j
    assume "j < length (all_hooks ?s)" and "hook_closed (hook_at ?s j)"
    then show "\<not> hook_pending (hook_at ?s j)" unfolding flags using closed_idle [OF ho, of j] by simp
  qed
  moreover have keep: "held_read ?s j q" if "held_read s j q" for j q using old [OF that] that unfolding held by simp
  have same: "ready_reads ?s = ready_reads s" "offered_read ?s = offered_read s" "offer_open ?s = offer_open s" by simp_all
  have "queue_ok ?s" using ok keep unfolding inbox_ok_def queue_ok_def flags same by blast
  moreover have "offer_ok ?s" using ok keep unfolding inbox_ok_def offer_ok_def flags ends same by blast
  moreover have "roles_ok ?s" using ok unfolding inbox_ok_def roles_ok_def flags by (auto split: rekey_phase.splits)
  ultimately have base: "hooks_ok ?s" "queue_ok ?s" "offer_ok ?s" "roles_ok ?s" by simp_all
  show ?thesis
  proof (cases "hook_enabled (hook_at s i)")
    case False
    then have "surfaced ?s" using ok unfolding inbox_ok_def surfaced_def held flags by auto
    with base False True show ?thesis by (simp add: settle_read_def inbox_ok_def Let_def)
  next
    case en: True
    let ?t = "enqueue_read ?r ?s"
    have "surfaced ?t" using ok unfolding inbox_ok_def surfaced_def by (auto simp: held flags)
    moreover have "queue_ok ?t"
      using base(2) queue_enqueue [of ?s ?r] fresh en i unfolding queue_ok_def by (auto simp: held flags r)
    moreover have "offer_ok ?t"
      using base(3) new not_end unfolding offer_ok_def by (auto simp: end_read_def)
    moreover have "hooks_ok ?t" "roles_ok ?t" using base(1,4) by simp_all
    ultimately show ?thesis using True en by (simp add: settle_read_def inbox_ok_def Let_def)
  qed
qed (use ok in \<open>simp add: settle_read_def\<close>)

lemma enable_ok:
  assumes ok: "inbox_ok s" and i: "i < length (all_hooks s)" and off: "\<not> hook_enabled (hook_at s i)"
    and phase: "rekeying s \<noteq> Claiming i"
  shows "inbox_ok (enable i s)"
proof -
  let ?s = "change_hook i (\<lambda>h. h\<lparr>hook_enabled := True\<rparr>) s"
  have held: "held_read ?s j q = held_read s j q" for j q using i by (auto simp: held_read_def)
  have flags: "hook_enabled (hook_at ?s j) \<longleftrightarrow> j = i \<or> hook_enabled (hook_at s j)" "hook_closed (hook_at ?s j) = hook_closed (hook_at s j)"
    "hook_pending (hook_at ?s j) = hook_pending (hook_at s j)" for j using i by simp_all
  have ends: "end_read ?s q = end_read s q" for q using i by (auto simp: end_read_def)
  have base: "hooks_ok ?s" "queue_ok ?s" "offer_ok ?s" "roles_ok ?s"
    using ok phase unfolding inbox_ok_def hooks_ok_def queue_ok_def offer_ok_def roles_ok_def held flags ends
    by (auto split: rekey_phase.splits)
  show ?thesis
  proof (cases "hook_resolved (hook_at s i)")
    case None
    then have "surfaced ?s" using ok i unfolding inbox_ok_def surfaced_def by (auto simp: held flags held_read_def)
    with base None show ?thesis by (simp add: enable_def inbox_ok_def)
  next
    case (Some r)
    let ?t = "enqueue_read r ?s"
    have h: "held_read s i r" using Some i by (simp add: held_read_def)
    then have r: "read_hook r = i" using ok by (simp add: inbox_ok_def hooks_ok_def)
    have other: "read_hook q \<noteq> i" if "q \<in> set (ready_reads s)" for q
      using that ok off unfolding inbox_ok_def queue_ok_def by metis
    then have fresh: "\<forall>q \<in> set (ready_reads s). read_order q \<noteq> read_order r"
      using ok h unfolding inbox_ok_def hooks_ok_def queue_ok_def by metis
    have "surfaced ?t"
      using ok h r unfolding inbox_ok_def surfaced_def by (auto simp: held flags held_read_def)
    moreover have "queue_ok ?t"
      using base(2) queue_enqueue [of ?s r] fresh h r unfolding queue_ok_def by (auto simp: held flags)
    moreover have "offered_read s \<noteq> Some r" using ok off r unfolding inbox_ok_def offer_ok_def by metis
    then have "offer_ok ?t" using base(3) unfolding offer_ok_def by (auto simp: end_read_def)
    moreover have "hooks_ok ?t" "roles_ok ?t" using base(1,4) by simp_all
    ultimately show ?thesis using Some by (simp add: enable_def inbox_ok_def)
  qed
qed

lemma surface_ok:
  assumes ok: "inbox_ok s"
  shows "inbox_ok (surface s)"
proof (cases "offer_open s \<and> offered_read s = None \<and> ready_reads s \<noteq> []")
  case True
  then obtain r rs where r: "ready_reads s = r # rs" by (cases "ready_reads s") auto
  let ?s = "s\<lparr>offered_read := Some r, ready_reads := rs\<rparr>"
  have held: "held_read ?s j q = held_read s j q" for j q by (simp add: held_read_def)
  have "hooks_ok ?s" using ok by (simp add: inbox_ok_def hooks_ok_def)
  moreover have "queue_ok ?s" using ok r by (simp add: inbox_ok_def queue_ok_def)
  moreover have "surfaced ?s" using ok r True unfolding inbox_ok_def surfaced_def held by auto
  moreover have "r \<notin> set rs" using ok r by (auto simp: inbox_ok_def queue_ok_def)
  then have "offer_ok ?s" using ok r True unfolding inbox_ok_def offer_ok_def queue_ok_def held by auto
  moreover have "roles_ok ?s" using ok by (simp add: inbox_ok_def)
  ultimately show ?thesis using True r by (simp add: surface_def inbox_ok_def)
next
  case False
  then have "surface s = s" by (cases "ready_reads s") (auto simp: surface_def)
  with ok show ?thesis by simp
qed

lemma consume_ok:
  assumes ok: "inbox_ok s"
  shows "inbox_ok (snd (consume_next s))"
proof (cases "offered_read s")
  case None
  with ok show ?thesis by (simp add: consume_next_def)
next
  case (Some r)
  let ?i = "read_hook r"
  let ?f = "\<lambda>h. h\<lparr>hook_pending := False, hook_resolved := None, hook_closed := hook_closed h \<or> read_result r = Done\<rparr>"
  let ?s = "(change_hook ?i ?f s)\<lparr>offered_read := None, offer_open := False\<rparr>"
  from ok Some have i: "?i < length (all_hooks s)" and out: "r \<notin> set (ready_reads s)"
    by (auto simp: inbox_ok_def offer_ok_def held_read_def end_read_def)
  have held: "held_read ?s j q \<longleftrightarrow> j \<noteq> ?i \<and> held_read s j q" for j q using i by (auto simp: held_read_def)
  have flags: "hook_enabled (hook_at ?s j) = hook_enabled (hook_at s j)" for j using i by simp
  have not_at: "read_hook q \<noteq> ?i" if "q \<in> set (ready_reads s)" for q
  proof
    assume "read_hook q = ?i"
    with that ok have q: "held_read s ?i q" by (auto simp: inbox_ok_def queue_ok_def)
    with ok Some have "held_read s ?i r" by (auto simp: inbox_ok_def offer_ok_def held_read_def end_read_def)
    with q have "q = r" by (simp add: held_read_def)
    with that out show False by simp
  qed
  have "hooks_ok ?s" using ok i unfolding inbox_ok_def hooks_ok_def held by auto
  moreover have "queue_ok ?s" using ok not_at unfolding inbox_ok_def queue_ok_def held flags by auto
  moreover have "read_hook q = j" if "held_read s j q" for j q using ok that by (simp add: inbox_ok_def hooks_ok_def)
  then have "surfaced ?s" using ok Some unfolding inbox_ok_def surfaced_def held flags by auto
  moreover have "offer_ok ?s" by (simp add: offer_ok_def)
  moreover have "roles_ok ?s" using ok i by (auto simp: inbox_ok_def roles_ok_def split: rekey_phase.splits)
  ultimately show ?thesis using Some by (simp add: consume_next_def inbox_ok_def)
qed

lemma create_state_simps [simp]:
  "fst (create_state t s) = length (all_hooks s)" "length (all_hooks (snd (create_state t s))) = Suc (length (all_hooks s))"
  "j < length (all_hooks s) \<Longrightarrow> hook_at (snd (create_state t s)) j = hook_at s j"
  "hook_at (snd (create_state t s)) (length (all_hooks s)) = \<lparr>hook_token = t, hook_closed = False, hook_enabled = False,
     hook_pending = False, hook_retired = False, hook_resolved = None\<rparr>"
  "stable_hook (snd (create_state t s)) = stable_hook s" "continuation_hook (snd (create_state t s)) = continuation_hook s"
  "authorization_hook (snd (create_state t s)) = authorization_hook s" "retired_aliases (snd (create_state t s)) = retired_aliases s"
  "ready_reads (snd (create_state t s)) = ready_reads s" "next_order (snd (create_state t s)) = next_order s"
  "offer_open (snd (create_state t s)) = offer_open s" "offered_read (snd (create_state t s)) = offered_read s"
  "rekeying (snd (create_state t s)) = rekeying s" "states (snd (create_state t s)) = states s"
  by (simp_all add: create_state_def nth_append states_def)

lemma create_state_ok:
  assumes ok: "inbox_ok s"
  shows "inbox_ok (snd (create_state t s))"
proof -
  let ?s = "snd (create_state t s)" and ?n = "length (all_hooks s)"
  have held: "held_read ?s j q = held_read s j q" for j q
    by (cases "j < ?n"; cases "j = ?n") (simp_all add: held_read_def)
  have at: "j < ?n \<Longrightarrow> hook_at ?s j = hook_at s j" for j by simp
  have range: "held_read s j q \<Longrightarrow> j < ?n" for j q by (simp add: held_read_def)
  have ho: "hooks_ok s" using ok by (simp add: inbox_ok_def)
  have "hooks_ok ?s"
    unfolding hooks_ok_def held
  proof (intro conjI allI impI)
    fix j assume "j < length (all_hooks ?s)" "hook_closed (hook_at ?s j)"
    then show "\<not> hook_pending (hook_at ?s j)" using closed_idle [OF ho, of j] at [of j]
      by (cases "j < ?n"; cases "j = ?n") simp_all
  next
    fix j q assume h: "held_read s j q"
    note f = held_facts [OF ho h]
    from f show "read_hook q = j" by simp
    from f show "read_order q < next_order ?s" by simp
    from f show "hook_pending (hook_at ?s j)" using at [OF range [OF h]] by simp
  next
    fix j k q u assume "held_read s j q" "held_read s k u" "read_order q = read_order u"
    then show "j = k" by (rule held_once [OF ho])
  qed
  moreover have "queue_ok ?s" using ok range at unfolding inbox_ok_def queue_ok_def held create_state_simps by metis
  moreover have "offer_ok ?s"
    unfolding offer_ok_def create_state_simps
  proof (intro allI impI)
    fix r assume r: "offered_read s = Some r"
    with ok have o: "offer_open s" "r \<notin> set (ready_reads s)" "hook_enabled (hook_at s (read_hook r))"
      "held_read s (read_hook r) r \<or> end_read s r" by (simp_all add: inbox_ok_def offer_ok_def)
    then have n: "read_hook r < ?n" by (auto simp: held_read_def end_read_def)
    with o show "offer_open s \<and> r \<notin> set (ready_reads s) \<and> hook_enabled (hook_at ?s (read_hook r)) \<and>
        (held_read ?s (read_hook r) r \<or> end_read ?s r)"
      unfolding held at [OF n] by (auto simp: end_read_def)
  qed
  moreover have "surfaced ?s" using ok range at unfolding inbox_ok_def surfaced_def held create_state_simps by metis
  moreover have "roles_ok ?s"
  proof -
    have ro: "roles_ok s" using ok by (simp add: inbox_ok_def)
    have ids: "j < ?n" if "j \<in> set (states s)" for j using ro that by (simp add: roles_ok_def)
    then have en: "hook_at ?s j = hook_at s j" if "stable_hook s = Some j \<or> continuation_hook s = Some j" for j
      using that by (intro at) (auto simp: states_def)
    show ?thesis
      using ro ids en unfolding roles_ok_def create_state_simps by (auto simp: less_Suc_eq split: rekey_phase.splits)
  qed
  ultimately show ?thesis by (simp add: inbox_ok_def)
qed

lemma roles_indexes: "roles_ok s \<Longrightarrow> i \<in> set (states s) \<Longrightarrow> i < length (all_hooks s)"
  by (simp add: roles_ok_def)

lemma arm_simps [simp]:
  "length (all_hooks (arm i s)) = length (all_hooks s)" "stable_hook (arm i s) = stable_hook s"
  "continuation_hook (arm i s) = continuation_hook s" "authorization_hook (arm i s) = authorization_hook s"
  "retired_aliases (arm i s) = retired_aliases s" "ready_reads (arm i s) = ready_reads s" "next_order (arm i s) = next_order s"
  "offer_open (arm i s) = offer_open s" "offered_read (arm i s) = offered_read s" "rekeying (arm i s) = rekeying s"
  "states (arm i s) = states s"
  by (simp_all add: arm_def)

lemma arm_at [simp]:
  "i < length (all_hooks s) \<Longrightarrow> hook_closed (hook_at (arm i s) j) = hook_closed (hook_at s j)"
  "i < length (all_hooks s) \<Longrightarrow> hook_enabled (hook_at (arm i s) j) = hook_enabled (hook_at s j)"
  by (simp_all add: arm_def)

lemma arm_all:
  assumes "inbox_ok s" and "\<forall>i \<in> set is. i < length (all_hooks s)"
  shows "inbox_ok (foldl (\<lambda>s i. arm i s) s is) \<and> offered_read (foldl (\<lambda>s i. arm i s) s is) = offered_read s \<and>
    offer_open (foldl (\<lambda>s i. arm i s) s is) = offer_open s \<and> stable_hook (foldl (\<lambda>s i. arm i s) s is) = stable_hook s \<and>
    length (all_hooks (foldl (\<lambda>s i. arm i s) s is)) = length (all_hooks s) \<and> states (foldl (\<lambda>s i. arm i s) s is) = states s \<and>
    ready_reads (foldl (\<lambda>s i. arm i s) s is) = ready_reads s"
  using assms
proof (induction "is" arbitrary: s)
  case (Cons i "is")
  then have "inbox_ok (arm i s)" by (intro arm_ok) simp_all
  from Cons.IH [OF this] Cons.prems show ?case by simp
qed simp

lemma closed_has_no_read:
  assumes "inbox_ok s" and "i < length (all_hooks s)" and "hook_closed (hook_at s i)"
  shows "hook_resolved (hook_at s i) = None"
proof (cases "hook_resolved (hook_at s i)")
  case (Some r)
  then have "held_read s i r" using assms(2) by (simp add: held_read_def)
  with assms(1) have "hook_pending (hook_at s i)" using held_facts by (auto simp: inbox_ok_def)
  with assms closed_idle [of s i] show ?thesis by (simp add: inbox_ok_def)
qed

lemma next_ok:
  assumes ok: "inbox_ok s"
  shows "inbox_ok (snd (next_read s))"
proof (cases "stable_hook s = None \<or> offer_open s")
  case True
  with ok show ?thesis by (cases "stable_hook s") (auto simp: next_read_def)
next
  case False
  then obtain st where st: "stable_hook s = Some st" and closed: "\<not> offer_open s" by auto
  let ?s = "foldl (\<lambda>s i. arm i s) s (states s)"
  have "\<forall>i \<in> set (states s). i < length (all_hooks s)" using ok by (simp add: inbox_ok_def roles_ok_def)
  note a = arm_all [OF ok this]
  have none: "offered_read s = None" using ok closed by (cases "offered_read s") (auto simp: inbox_ok_def offer_ok_def)
  have opened: "inbox_ok (?s\<lparr>offer_open := True\<rparr>)"
    using a none by (auto simp: inbox_ok_def hooks_ok_def queue_ok_def offer_ok_def surfaced_def)
  show ?thesis
  proof (cases "list_all (\<lambda>i. hook_closed (hook_at ?s i)) (states s)")
    case False
    with st closed opened show ?thesis by (simp add: next_read_def Let_def)
  next
    case all: True
    let ?r = "new_read st Done ?s :: 'a hook_read"
    let ?t = "?s\<lparr>next_order := Suc (next_order ?s), offered_read := Some ?r, offer_open := True\<rparr>"
    have st_in: "st \<in> set (states s)" using st by (simp add: states_def)
    then have i: "st < length (all_hooks ?s)" and c: "hook_closed (hook_at ?s st)"
      using a ok all by (auto simp: inbox_ok_def roles_ok_def list_all_iff)
    from closed_has_no_read [OF _ i c] a have no: "hook_resolved (hook_at ?s st) = None" by simp
    have r: "read_hook ?r = st" "read_result ?r = Done" by (simp_all add: new_read_def)
    have oks: "hooks_ok ?s" "queue_ok ?s" "surfaced ?s" "roles_ok ?s" using a by (simp_all add: inbox_ok_def)
    have "?r \<notin> set (ready_reads ?s)"
    proof
      assume "?r \<in> set (ready_reads ?s)"
      with oks(2) have "held_read ?s st ?r" using r(1) ready_held by metis
      with no show False by (simp add: held_read_def)
    qed
    moreover have "hook_enabled (hook_at ?s st)" using oks(4) a st by (simp add: roles_ok_def)
    ultimately have "offer_ok ?t" using i c no r by (simp add: offer_ok_def end_read_def)
    moreover have "hooks_ok ?t" using oks(1) by (auto simp: hooks_ok_def less_Suc_eq)
    moreover have "queue_ok ?t" "roles_ok ?t" using oks by (simp_all add: queue_ok_def)
    moreover have "surfaced ?t" using oks(3) none a by (auto simp: surfaced_def)
    ultimately have "inbox_ok ?t" by (simp add: inbox_ok_def)
    with st closed all show ?thesis by (simp add: next_read_def Let_def)
  qed
qed

lemma roles_new_hook:
  assumes ok: "inbox_ok s"
  shows "\<not> hook_enabled (hook_at (snd (create_state t s)) (length (all_hooks s)))"
    and "hook_resolved (hook_at (snd (create_state t s)) (length (all_hooks s))) = None"
    and "length (all_hooks s) \<notin> set (states s)" and "rekeying s \<noteq> Claiming (length (all_hooks s))"
    and "rekeying s \<noteq> Releasing (length (all_hooks s))"
  using ok by (auto simp: inbox_ok_def roles_ok_def)

lemma enable_simps [simp]:
  "length (all_hooks (enable i s)) = length (all_hooks s)" "stable_hook (enable i s) = stable_hook s"
  "continuation_hook (enable i s) = continuation_hook s" "authorization_hook (enable i s) = authorization_hook s"
  "retired_aliases (enable i s) = retired_aliases s" "next_order (enable i s) = next_order s"
  "offer_open (enable i s) = offer_open s" "offered_read (enable i s) = offered_read s" "rekeying (enable i s) = rekeying s"
  "states (enable i s) = states s"
  "i < length (all_hooks s) \<Longrightarrow> hook_enabled (hook_at (enable i s) j) \<longleftrightarrow> j = i \<or> hook_enabled (hook_at s j)"
  by (simp_all add: enable_def Let_def split: option.split)

lemma role_change:
  assumes "inbox_ok s" and "roles_ok (f s)" and "all_hooks (f s) = all_hooks s" and "ready_reads (f s) = ready_reads s"
    and "next_order (f s) = next_order s" and "offer_open (f s) = offer_open s" and "offered_read (f s) = offered_read s"
  shows "inbox_ok (f s)"
  using assms by (simp add: inbox_ok_def hooks_ok_def queue_ok_def offer_ok_def surfaced_def held_read_def end_read_def)

lemma enabled_new_hook:
  assumes ok: "inbox_ok s"
  shows "inbox_ok (enable (length (all_hooks s)) (snd (create_state t s)))"
  using roles_new_hook [OF ok] by (intro enable_ok create_state_ok ok) simp_all

lemma new_roles:
  assumes ok: "inbox_ok s" and s1: "s1 = enable (length (all_hooks s)) (snd (create_state t s))"
  shows "stable_hook s = None \<Longrightarrow> roles_ok (s1\<lparr>stable_hook := Some (length (all_hooks s))\<rparr>)"
    and "continuation_hook s = None \<Longrightarrow> roles_ok (s1\<lparr>continuation_hook := Some (length (all_hooks s))\<rparr>)"
proof -
  have ro: "roles_ok s1" using enabled_new_hook [OF ok] by (simp add: s1 inbox_ok_def)
  have n: "hook_enabled (hook_at s1 (length (all_hooks s)))" "length (all_hooks s) < length (all_hooks s1)"
    "length (all_hooks s) \<notin> set (states s)" "states s1 = states s"
    "authorization_hook s1 = authorization_hook s" "stable_hook s1 = stable_hook s" "continuation_hook s1 = continuation_hook s"
    using roles_new_hook [OF ok] by (simp_all add: s1)
  show "stable_hook s = None \<Longrightarrow> roles_ok (s1\<lparr>stable_hook := Some (length (all_hooks s))\<rparr>)"
    using ro n unfolding roles_ok_def by (auto simp: states_def split: rekey_phase.splits)
  show "continuation_hook s = None \<Longrightarrow> roles_ok (s1\<lparr>continuation_hook := Some (length (all_hooks s))\<rparr>)"
    using ro n unfolding roles_ok_def by (auto simp: states_def split: rekey_phase.splits)
qed

lemma claim_stable_ok:
  assumes ok: "inbox_ok s"
  shows "inbox_ok (snd (claim_stable t claimed s))"
proof (cases "stable_hook s")
  case None
  let ?s1 = "enable (length (all_hooks s)) (snd (create_state t s))"
  have "inbox_ok (?s1\<lparr>stable_hook := Some (length (all_hooks s))\<rparr>)"
    by (rule role_change [OF enabled_new_hook [OF ok]]) (simp_all add: new_roles(1) [OF ok refl None])
  with None create_state_ok [OF ok, of t] show ?thesis by (simp add: claim_stable_def split_beta)
qed (use ok in \<open>simp add: claim_stable_def\<close>)

lemma claim_authorization_ok:
  assumes ok: "inbox_ok s"
  shows "inbox_ok (snd (claim_authorization t claimed s))"
proof (cases "authorization_hook s")
  case None
  let ?s1 = "snd (create_state t s)" and ?n = "length (all_hooks s)"
  have s1: "inbox_ok ?s1" by (rule create_state_ok [OF ok])
  have "roles_ok (?s1\<lparr>authorization_hook := Some ?n\<rparr>)"
    using s1 roles_new_hook [OF ok] unfolding inbox_ok_def roles_ok_def create_state_simps
    by (auto simp: states_def None split: rekey_phase.splits)
  then have "inbox_ok (?s1\<lparr>authorization_hook := Some ?n\<rparr>)" by (intro role_change [OF s1]) simp_all
  with None s1 show ?thesis by (simp add: claim_authorization_def split_beta)
qed (use ok in \<open>simp add: claim_authorization_def\<close>)

lemma rekey_ok:
  assumes ok: "inbox_ok s" and idle: "rekeying s = Not_Rekeying"
  shows "inbox_ok (snd (rekey_continuation t claimed s))"
proof (cases "t = [] \<or> (\<exists>c. continuation_hook s = Some c \<and> hook_token (hook_at s c) = t)")
  case False
  let ?s0 = "snd (create_state t s)" and ?n = "length (all_hooks s)"
  have s0: "inbox_ok ?s0" by (rule create_state_ok [OF ok])
  show ?thesis
  proof (cases "continuation_hook s")
    case None
    let ?s1 = "(enable ?n ?s0)\<lparr>continuation_hook := Some ?n\<rparr>"
    have "inbox_ok ?s1"
      by (rule role_change [OF enabled_new_hook [OF ok]]) (simp_all add: new_roles(2) [OF ok refl None])
    moreover from this have "inbox_ok (arm ?n ?s1)" by (rule arm_ok) simp
    ultimately show ?thesis using False None s0 by (simp add: rekey_continuation_def split_beta Let_def)
  next
    case (Some c)
    let ?s1 = "arm ?n ?s0"
    have s1: "inbox_ok ?s1" by (rule arm_ok [OF s0]) simp
    have "\<not> hook_enabled (hook_at ?s1 ?n)" "?n < length (all_hooks ?s1)" "authorization_hook ?s1 \<noteq> Some ?n"
      using roles_new_hook(1) [OF ok, of t] roles_new_hook(3) [OF ok] by (auto simp: states_def)
    with s1 have "roles_ok (?s1\<lparr>rekeying := Claiming ?n\<rparr>)" by (simp add: inbox_ok_def roles_ok_def)
    then have "inbox_ok (?s1\<lparr>rekeying := Claiming ?n\<rparr>)" by (intro role_change [OF s1]) simp_all
    with False Some show ?thesis by (simp add: rekey_continuation_def split_beta)
  qed
qed (use ok in \<open>simp add: rekey_continuation_def\<close>)

lemma rekey_claimed_ok:
  assumes ok: "inbox_ok s"
  shows "inbox_ok (snd (rekey_claimed claimed s))"
proof (cases "\<exists>i c. rekeying s = Claiming i \<and> continuation_hook s = Some c")
  case False
  then have "snd (rekey_claimed claimed s) = s" by (auto simp: rekey_claimed_def split: rekey_phase.split option.split)
  with ok show ?thesis by simp
next
  case True
  then obtain i c where ph: "rekeying s = Claiming i" and c: "continuation_hook s = Some c" by blast
  have ro: "roles_ok s" using ok by (simp add: inbox_ok_def)
  have i: "i < length (all_hooks s)" "\<not> hook_enabled (hook_at s i)" "authorization_hook s \<noteq> Some i"
    using ro ph by (simp_all add: roles_ok_def)
  have cc: "c < length (all_hooks s)" "hook_enabled (hook_at s c)" "authorization_hook s \<noteq> Some c"
    using ro c by (auto simp: roles_ok_def states_def)
  have "roles_ok (s\<lparr>rekeying := Not_Rekeying\<rparr>)" using ro by (simp add: roles_ok_def)
  then have s0: "inbox_ok (s\<lparr>rekeying := Not_Rekeying\<rparr>)" by (intro role_change [OF ok]) simp_all
  let ?s1 = "enable i (s\<lparr>rekeying := Not_Rekeying\<rparr>)"
  let ?s2 = "?s1\<lparr>continuation_hook := Some i, rekeying := Releasing c\<rparr>"
  have s1: "inbox_ok ?s1" by (rule enable_ok [OF s0]) (use i in simp_all)
  have "roles_ok ?s2" using s1 i cc unfolding inbox_ok_def roles_ok_def by (auto simp: states_def)
  then have s2: "inbox_ok ?s2" by (intro role_change [OF s1]) simp_all
  have "(enable i s)\<lparr>continuation_hook := Some i, rekeying := Releasing c\<rparr> = ?s2"
    by (simp add: enable_def Let_def change_hook_def enqueue_read_def split: option.split)
  moreover have "inbox_ok (arm c ?s2)" by (rule arm_ok [OF s2]) (simp add: cc)
  ultimately show ?thesis using ph c s0 by (simp add: rekey_claimed_def)
qed

lemma rekey_released_ok:
  assumes ok: "inbox_ok s"
  shows "inbox_ok (snd (rekey_released released s))"
proof (cases "rekeying s")
  case (Releasing c)
  have ro: "roles_ok s" using ok by (simp add: inbox_ok_def)
  have c: "c < length (all_hooks s)" "hook_enabled (hook_at s c)" "authorization_hook s \<noteq> Some c"
    using ro Releasing by (simp_all add: roles_ok_def)
  have "roles_ok (s\<lparr>continuation_hook := None, rekeying := Not_Rekeying\<rparr>)" using ro by (auto simp: roles_ok_def states_def)
  then have fail: "inbox_ok (s\<lparr>continuation_hook := None, rekeying := Not_Rekeying\<rparr>)" by (intro role_change [OF ok]) simp_all
  let ?s = "change_hook c (\<lambda>h. h\<lparr>hook_retired := True\<rparr>) s"
  have held: "held_read ?s j q = held_read s j q" for j q using c by (auto simp: held_read_def)
  have flags: "hook_enabled (hook_at ?s j) = hook_enabled (hook_at s j)" "hook_closed (hook_at ?s j) = hook_closed (hook_at s j)"
    "hook_pending (hook_at ?s j) = hook_pending (hook_at s j)" for j using c by simp_all
  have ends: "end_read ?s q = end_read s q" for q using c by (auto simp: end_read_def)
  have s1: "inbox_ok ?s"
    using ok unfolding inbox_ok_def hooks_ok_def queue_ok_def offer_ok_def surfaced_def roles_ok_def held flags ends
    by (simp cong: rekey_phase.case_cong)
  have "roles_ok (?s\<lparr>retired_aliases := retired_aliases s @ [c], rekeying := Not_Rekeying\<rparr>)"
    using s1 c unfolding inbox_ok_def roles_ok_def by (auto simp: states_def)
  then have "inbox_ok (?s\<lparr>retired_aliases := retired_aliases s @ [c], rekeying := Not_Rekeying\<rparr>)"
    by (intro role_change [OF s1]) simp_all
  with fail Releasing show ?thesis by (simp add: rekey_released_def)
qed (use ok in \<open>simp_all add: rekey_released_def\<close>)

lemma dispose_ok:
  assumes ok: "inbox_ok s"
  shows "inbox_ok (dispose_inbox s)"
proof -
  have "roles_ok (dispose_inbox s)"
    using ok by (auto simp: inbox_ok_def roles_ok_def dispose_inbox_def states_def split: rekey_phase.splits)
  then show ?thesis by (intro role_change [OF ok]) (simp_all add: dispose_inbox_def)
qed

definition end_ok :: "'v command_inbox \<Rightarrow> bool" where
  \<comment> \<open>The offered end came before every read of the authorization hook.\<close>
  "end_ok s \<longleftrightarrow> (\<forall>r. offered_read s = Some r \<longrightarrow> \<not> held_read s (read_hook r) r \<longrightarrow> read_order r < next_order s \<and>
     (\<forall>a q. authorization_hook s = Some a \<longrightarrow> held_read s a q \<longrightarrow> read_order r < read_order q))"

lemma end_keep:
  assumes "end_ok s" and "offered_read t = offered_read s" and "\<And>i r. held_read t i r = held_read s i r"
    and "authorization_hook t = authorization_hook s" and "next_order t = next_order s"
  shows "end_ok t"
  using assms by (simp add: end_ok_def)

lemma end_none: "offered_read s = None \<Longrightarrow> end_ok s"
  by (simp add: end_ok_def)

lemma held_arm: "inbox_ok s \<Longrightarrow> i < length (all_hooks s) \<Longrightarrow> held_read (arm i s) j r = held_read s j r"
  using held_facts [of s i] by (auto simp: arm_def held_read_def inbox_ok_def)

lemma held_enable [simp]: "i < length (all_hooks s) \<Longrightarrow> held_read (enable i s) j r = held_read s j r"
  by (auto simp: enable_def Let_def held_read_def split: option.split)

lemma requeue_ok:
  assumes ok: "inbox_ok s" and r: "offered_read s = Some r" and held: "held_read s (read_hook r) r"
  shows "inbox_ok ((enqueue_read r s)\<lparr>offered_read := None, offer_open := False\<rparr>)"
proof -
  have q: "queue_ok s" and h: "hooks_ok s" using ok by (simp_all add: inbox_ok_def)
  have out: "r \<notin> set (ready_reads s)" and en: "hook_enabled (hook_at s (read_hook r))"
    using ok r by (simp_all add: inbox_ok_def offer_ok_def)
  have fresh: "\<forall>u \<in> set (ready_reads s). read_order u \<noteq> read_order r"
  proof (intro ballI notI)
    fix u assume u: "u \<in> set (ready_reads s)" "read_order u = read_order r"
    note hu = ready_held [OF q u(1)]
    from held_once [OF h hu held u(2)] hu held have "u = r" by (simp add: held_read_def)
    with u(1) out show False by simp
  qed
  let ?t = "(enqueue_read r s)\<lparr>offered_read := None, offer_open := False\<rparr>"
  have "queue_ok ?t"
    using q queue_enqueue [of s r] fresh held en unfolding queue_ok_def by auto
  moreover have "surfaced ?t" using ok r unfolding inbox_ok_def surfaced_def by auto
  moreover have "offer_ok ?t" by (simp add: offer_ok_def)
  moreover have "hooks_ok ?t" using h by (simp add: hooks_ok_def)
  moreover have "roles_ok ?t" using ok by (simp add: inbox_ok_def)
  ultimately show ?thesis by (simp add: inbox_ok_def)
qed

definition inbox_inv :: "'v command_inbox \<Rightarrow> bool" where
  "inbox_inv s \<longleftrightarrow> inbox_ok s \<and> end_ok s"

lemma authorization_role:
  assumes "inbox_ok s" and "authorization_hook s = Some a"
  shows "a < length (all_hooks s)" and "rekeying s \<noteq> Claiming a"
  using assms by (auto simp: inbox_ok_def roles_ok_def states_def)

lemma enable_window:
  assumes inv: "inbox_inv s" and a: "authorization_hook s = Some a"
  shows "inbox_inv (if hook_enabled (hook_at s a) then s else enable a s)"
proof (cases "hook_enabled (hook_at s a)")
  case False
  have ok: "inbox_ok s" using inv by (simp add: inbox_inv_def)
  note role = authorization_role [OF ok a]
  have "inbox_ok (enable a s)" by (rule enable_ok [OF ok role(1) False role(2)])
  moreover have "end_ok (enable a s)"
    by (rule end_keep [of s]) (use inv role in \<open>simp_all add: inbox_inv_def\<close>)
  ultimately show ?thesis using False by (simp add: inbox_inv_def)
qed (use inv in simp)

lemma reoffer_cases:
  obtains "reoffer a s = s"
    "\<And>r q. offered_read s = Some r \<Longrightarrow> hook_resolved (hook_at s a) = Some q \<Longrightarrow> \<not> is_authorization_read s r \<Longrightarrow>
       \<not> read_order q < read_order r"
  | r q where "offered_read s = Some r" "hook_resolved (hook_at s a) = Some q" "\<not> is_authorization_read s r"
    "read_order q < read_order r" "reoffer a s = (enqueue_read r s)\<lparr>offered_read := None, offer_open := False\<rparr>"
proof (cases "\<exists>r q. offered_read s = Some r \<and> hook_resolved (hook_at s a) = Some q \<and> \<not> is_authorization_read s r \<and>
    read_order q < read_order r")
  case True
  then show ?thesis using that(2) by (auto simp: reoffer_def)
next
  case False
  then have "reoffer a s = s" by (auto simp: reoffer_def split: option.split)
  with False show ?thesis using that(1) by blast
qed

lemma reoffer_inv:
  assumes inv: "inbox_inv s" and a: "authorization_hook s = Some a"
  shows "inbox_inv (reoffer a s)" and "authorization_hook (reoffer a s) = Some a"
proof -
  have len: "a < length (all_hooks s)" using authorization_role(1) [OF _ a] inv by (simp add: inbox_inv_def)
  have "inbox_inv (reoffer a s) \<and> authorization_hook (reoffer a s) = Some a"
  proof (cases rule: reoffer_cases [of a s])
    case 1
    with inv a show ?thesis by simp
  next
    case (2 r q)
    have "held_read s a q" using len 2(2) by (simp add: held_read_def)
    with inv 2(1,4) a have "held_read s (read_hook r) r" unfolding inbox_inv_def end_ok_def by (metis less_asym)
    with inv 2(1) have "inbox_ok ((enqueue_read r s)\<lparr>offered_read := None, offer_open := False\<rparr>)"
      unfolding inbox_inv_def by (intro requeue_ok) simp_all
    then show ?thesis by (simp add: 2(5) a inbox_inv_def end_none)
  qed
  then show "inbox_inv (reoffer a s)" and "authorization_hook (reoffer a s) = Some a" by simp_all
qed

lemma reoffer_same [simp]: "held_read (reoffer a s) i r = held_read s i r" "length (all_hooks (reoffer a s)) = length (all_hooks s)"
  "next_order (reoffer a s) = next_order s"
  by (cases rule: reoffer_cases [of a s]; simp)+

lemma open_window_inv:
  assumes inv: "inbox_inv s" and a: "authorization_hook s = Some a"
  shows "inbox_inv (open_window a s)"
proof -
  let ?s1 = "if hook_enabled (hook_at s a) then s else enable a s"
  have a1: "authorization_hook ?s1 = Some a" using a by simp
  note s2 = reoffer_inv [OF enable_window [OF inv a] a1]
  have len: "a < length (all_hooks (reoffer a ?s1))"
    using authorization_role(1) [OF _ s2(2)] s2(1) unfolding inbox_inv_def by blast
  have "inbox_inv (arm a u)" if "inbox_inv u" and "a < length (all_hooks u)" for u :: "'a command_inbox"
    using that arm_ok [of u a] end_keep [of u "arm a u"] held_arm [of u a] unfolding inbox_inv_def by simp
  from this [OF s2(1) len] s2(1) show ?thesis unfolding open_window_def Let_def by simp
qed

lemma set_remove_only:
  "distinct xs \<Longrightarrow> (\<And>x y. x \<in> set xs \<Longrightarrow> y \<in> set xs \<Longrightarrow> P x \<Longrightarrow> P y \<Longrightarrow> x = y) \<Longrightarrow>
   set (remove_first P xs) = {x \<in> set xs. \<not> P x}"
  by (induction xs) auto

lemma remove_first_subseq:
  "sorted (map f xs) \<Longrightarrow> sorted (map f (remove_first P xs))"
  by (induction xs) (auto dest!: set_remove_first [THEN subsetD])

lemma close_window_ok:
  assumes ok: "inbox_ok s" and a: "authorization_hook s = Some a" and "\<not> next_source s"
  shows "inbox_ok (close_window a s)"
proof -
  let ?s = "change_hook a (\<lambda>h. h\<lparr>hook_enabled := False\<rparr>) s"
  let ?rs = "remove_first (is_authorization_read s) (ready_reads s)"
  note role = authorization_role [OF ok a]
  have q: "queue_ok s" using ok by (simp add: inbox_ok_def)
  have held: "held_read ?s j r = held_read s j r" for j r using role by (auto simp: held_read_def)
  have flags: "hook_enabled (hook_at ?s j) \<longleftrightarrow> j \<noteq> a \<and> hook_enabled (hook_at s j)" "hook_closed (hook_at ?s j) = hook_closed (hook_at s j)"
    "hook_pending (hook_at ?s j) = hook_pending (hook_at s j)" for j using role by simp_all
  have ends: "end_read ?s r = end_read s r" for r using role by (auto simp: end_read_def)
  have auth: "is_authorization_read s r \<longleftrightarrow> read_hook r = a" for r using a by (auto simp: is_authorization_read_def)
  have "distinct (ready_reads s)" using q by (auto simp: queue_ok_def distinct_map)
  then have rs: "set ?rs = {r \<in> set (ready_reads s). read_hook r \<noteq> a}"
  proof (subst set_remove_only)
    fix x y assume "x \<in> set (ready_reads s)" "y \<in> set (ready_reads s)" "is_authorization_read s x" "is_authorization_read s y"
    with ready_held [OF q, of x] ready_held [OF q, of y] show "x = y" by (simp add: auth held_read_def)
  qed (simp_all add: auth)
  have offered: "read_hook r \<noteq> a" if "offered_read s = Some r" for r
    using assms(3) that by (simp add: next_source_def auth)
  let ?t = "?s\<lparr>ready_reads := ?rs\<rparr>"
  have t: "held_read ?t j r = held_read s j r" "hook_at ?t j = hook_at ?s j" "end_read ?t r = end_read s r" for j r
    using held ends by (simp_all add: end_read_def)
  have "hooks_ok ?t" using ok unfolding inbox_ok_def hooks_ok_def t flags by simp
  moreover have "queue_ok ?t"
    using q rs unfolding queue_ok_def t flags by (simp add: remove_first_subseq distinct_map_remove_first)
  moreover have "offer_ok ?t" using ok offered rs unfolding inbox_ok_def offer_ok_def t flags by simp
  moreover have "surfaced ?t" using ok rs held_facts [of s] unfolding inbox_ok_def surfaced_def t flags by auto
  moreover have "roles_ok ?t"
    using ok a unfolding inbox_ok_def roles_ok_def t flags by (auto simp: states_def split: rekey_phase.splits)
  ultimately show ?thesis by (simp add: close_window_def inbox_ok_def)
qed

section \<open>What each step does to the reads\<close>

lemma held_create [simp]: "held_read (snd (create_state t s)) j r = held_read s j r"
  by (cases "j < length (all_hooks s)"; cases "j = length (all_hooks s)") (simp_all add: held_read_def)

lemma held_arm_all:
  "inbox_ok s \<Longrightarrow> \<forall>i \<in> set is. i < length (all_hooks s) \<Longrightarrow> held_read (foldl (\<lambda>s i. arm i s) s is) j r = held_read s j r"
proof (induction "is" arbitrary: s)
  case (Cons i "is")
  from Cons.IH [OF arm_ok [OF Cons.prems(1)]] Cons.prems held_arm [OF Cons.prems(1)] show ?case by simp
qed simp

fun takes_read :: "'v inbox_event \<Rightarrow> bool" where
  "takes_read (Settle i result) = True"
| "takes_read Consume = True"
| "takes_read e = False"

definition same_reads :: "'v command_inbox \<Rightarrow> 'v command_inbox \<Rightarrow> bool" where
  "same_reads s t \<longleftrightarrow> (\<forall>i r. held_read t i r = held_read s i r) \<and> length (all_hooks s) \<le> length (all_hooks t)"

lemma same_next: "inbox_ok s \<Longrightarrow> same_reads s (snd (next_read s))"
proof (cases "stable_hook s")
  case (Some st)
  assume ok: "inbox_ok s"
  then have ids: "\<forall>i \<in> set (states s). i < length (all_hooks s)" by (simp add: inbox_ok_def roles_ok_def)
  from Some held_arm_all [OF ok ids] arm_all [OF ok ids] show ?thesis
    by (simp add: same_reads_def next_read_def Let_def)
qed (simp add: same_reads_def next_read_def)

lemma same_open_window:
  assumes inv: "inbox_inv s" and a: "authorization_hook s = Some a"
  shows "same_reads s (open_window a s)"
proof -
  let ?s1 = "if hook_enabled (hook_at s a) then s else enable a s"
  have len: "a < length (all_hooks s)" using authorization_role(1) [OF _ a] inv by (simp add: inbox_inv_def)
  have "authorization_hook ?s1 = Some a" using a by simp
  note s2 = reoffer_inv [OF enable_window [OF inv a] this]
  have one: "held_read (reoffer a ?s1) i r = held_read s i r" "length (all_hooks (reoffer a ?s1)) = length (all_hooks s)" for i r
    using len by simp_all
  have "held_read (arm a (reoffer a ?s1)) i r = held_read s i r" for i r
    using held_arm [of "reoffer a ?s1" a] s2(1) len one unfolding inbox_inv_def by simp
  with one show ?thesis unfolding open_window_def Let_def same_reads_def by simp
qed

lemma same_rekey: "inbox_ok s \<Longrightarrow> same_reads s (snd (rekey_continuation t claimed s))"
proof (cases "continuation_hook s")
  case None
  assume ok: "inbox_ok s"
  let ?s1 = "(enable (length (all_hooks s)) (snd (create_state t s)))\<lparr>continuation_hook := Some (length (all_hooks s))\<rparr>"
  have "inbox_ok ?s1"
    by (rule role_change [OF enabled_new_hook [OF ok]]) (simp_all add: new_roles(2) [OF ok refl None])
  from held_arm [OF this] None show ?thesis
    by (simp add: rekey_continuation_def split_beta Let_def same_reads_def)
next
  case (Some c)
  assume ok: "inbox_ok s"
  from held_arm [OF create_state_ok [OF ok, of t], of "length (all_hooks s)"] Some show ?thesis
    by (simp add: rekey_continuation_def split_beta same_reads_def)
qed

lemma same_rekey_claimed:
  assumes ok: "inbox_ok s"
  shows "same_reads s (snd (rekey_claimed claimed s))"
proof (cases "\<exists>i c. rekeying s = Claiming i \<and> continuation_hook s = Some c")
  case False
  then have "snd (rekey_claimed claimed s) = s" by (auto simp: rekey_claimed_def split: rekey_phase.split option.split)
  then show ?thesis by (simp add: same_reads_def)
next
  case True
  then obtain i c where ic: "rekeying s = Claiming i" "continuation_hook s = Some c" by blast
  with ok have len: "i < length (all_hooks s)" "c < length (all_hooks s)" by (auto simp: inbox_ok_def roles_ok_def states_def)
  have pend: "hook_pending (hook_at s c)" if "held_read s c r" for r using held_facts [of s c r] ok that by (simp add: inbox_ok_def)
  let ?s2 = "(enable i s)\<lparr>continuation_hook := Some i, rekeying := Releasing c\<rparr>"
  have flags: "hook_pending (hook_at ?s2 c) = hook_pending (hook_at s c)"
    using len by (simp add: enable_def Let_def split: option.split)
  have two: "held_read ?s2 j r = held_read s j r" for j r using len by simp
  have "held_read (arm c ?s2) j r = held_read ?s2 j r" for j r
  proof (cases "hook_closed (hook_at ?s2 c) \<or> hook_pending (hook_at ?s2 c)")
    case False
    then have "\<not> held_read s c q" for q using pend flags by blast
    then have "\<not> held_read ?s2 c q" for q using two by blast
    then have "hook_resolved (hook_at ?s2 c) = None"
      using len(2) by (cases "hook_resolved (hook_at ?s2 c)") (auto simp: held_read_def)
    with False len(2) show ?thesis by (auto simp: arm_def held_read_def)
  qed (simp add: arm_def)
  then have "held_read (arm c ?s2) j r = held_read s j r" for j r using two by simp
  with ic len show ?thesis by (cases claimed) (simp_all add: rekey_claimed_def same_reads_def)
qed

lemma same_other:
  assumes inv: "inbox_inv s" and quiet: "\<not> takes_read e"
  shows "same_reads s (inbox_step s e)"
proof -
  have ok: "inbox_ok s" using inv by (simp add: inbox_inv_def)
  have enabled: "same_reads s (enable (length (all_hooks s)) (snd (create_state t s)))" for t by (simp add: same_reads_def)
  have released: "same_reads s (snd (rekey_released b s))" for b
  proof (cases "rekeying s")
    case (Releasing c)
    with ok have "c < length (all_hooks s)" by (simp add: inbox_ok_def roles_ok_def)
    with Releasing show ?thesis by (auto simp: rekey_released_def same_reads_def held_read_def)
  qed (simp_all add: rekey_released_def same_reads_def)
  have closed: "same_reads s (close_window a s)" if "authorization_hook s = Some a" for a
    using authorization_role(1) [OF ok that] by (auto simp: same_reads_def close_window_def held_read_def)
  show ?thesis
  proof (cases e)
    case Surface
    then show ?thesis by (auto simp: surface_def same_reads_def split: list.split)
  next
    case Next
    then show ?thesis using same_next [OF ok] by simp
  next
    case (Claim_Stable t b)
    then show ?thesis using enabled [of t] by (auto simp: claim_stable_def split_beta same_reads_def split: option.split)
  next
    case (Claim_Authorization t b)
    then show ?thesis by (auto simp: claim_authorization_def split_beta same_reads_def split: option.split)
  next
    case (Rekey t b)
    then show ?thesis using same_rekey [OF ok] by simp
  next
    case (Rekey_Claimed b)
    then show ?thesis using same_rekey_claimed [OF ok] by simp
  next
    case (Rekey_Released b)
    then show ?thesis using released by simp
  next
    case (Window b)
    show ?thesis
    proof (cases "authorization_hook s")
      case None
      then show ?thesis by (simp add: Window set_authorization_window_def same_reads_def)
    next
      case (Some a)
      then show ?thesis using same_open_window [OF inv Some] closed [OF Some] by (simp add: Window set_authorization_window_def)
    qed
  next
    case Dispose
    then show ?thesis by (simp add: dispose_inbox_def same_reads_def)
  qed (use quiet in simp_all)
qed

lemma settle_held:
  assumes "inbox_ok s"
  shows "held_read (settle_read i result s) j r \<longleftrightarrow> held_read s j r \<or> awaits_read i s \<and> j = i \<and> r = new_read i result s"
  by (auto simp: settle_read_def Let_def awaits_read_def held_read_def)

lemma settle_simps [simp]:
  "offered_read (settle_read i result s) = offered_read s" "authorization_hook (settle_read i result s) = authorization_hook s"
  "next_order (settle_read i result s) = next_order s + (if awaits_read i s then 1 else 0)"
  by (simp_all add: settle_read_def Let_def)

lemma settle_end:
  assumes "inbox_inv s"
  shows "end_ok (settle_read i result s)"
proof -
  have ok: "inbox_ok s" and e: "end_ok s" using assms by (simp_all add: inbox_inv_def)
  have "read_order (new_read i result s) = next_order s" by (simp add: new_read_def)
  with e show ?thesis unfolding end_ok_def settle_held [OF ok] settle_simps by (auto simp: less_Suc_eq)
qed

lemma next_end:
  assumes inv: "inbox_inv s"
  shows "end_ok (snd (next_read s))"
proof (cases "stable_hook s = None \<or> offer_open s")
  case True
  with inv show ?thesis by (cases "stable_hook s") (auto simp: next_read_def inbox_inv_def)
next
  case False
  then obtain st where st: "stable_hook s = Some st" and closed: "\<not> offer_open s" by auto
  have ok: "inbox_ok s" using inv by (simp add: inbox_inv_def)
  let ?s = "foldl (\<lambda>s i. arm i s) s (states s)"
  have ids: "\<forall>i \<in> set (states s). i < length (all_hooks s)" using ok by (simp add: inbox_ok_def roles_ok_def)
  note a = arm_all [OF ok ids]
  have none: "offered_read s = None" using ok closed by (cases "offered_read s") (auto simp: inbox_ok_def offer_ok_def)
  show ?thesis
  proof (cases "list_all (\<lambda>i. hook_closed (hook_at ?s i)) (states s)")
    case False
    with st closed none a show ?thesis by (simp add: next_read_def Let_def end_none)
  next
    case True
    have "\<not> held_read ?s i q" if "i \<in> set (states s)" for i q
    proof -
      from that True ids a have "i < length (all_hooks ?s)" "hook_closed (hook_at ?s i)" by (auto simp: list_all_iff)
      with closed_has_no_read [of ?s i] a show ?thesis by (simp add: held_read_def)
    qed
    moreover have "a \<in> set (states ?s)" if "authorization_hook ?s = Some a" for a using that by (simp add: states_def)
    ultimately have "end_ok (?s\<lparr>next_order := Suc (next_order ?s), offered_read := Some (new_read st Done ?s), offer_open := True\<rparr>)"
      using a by (simp add: end_ok_def new_read_def)
    with st closed True show ?thesis by (simp add: next_read_def Let_def)
  qed
qed

lemma rekey_roles [simp]:
  "offered_read (snd (rekey_continuation t b s)) = offered_read s" "authorization_hook (snd (rekey_continuation t b s)) = authorization_hook s"
  "next_order (snd (rekey_continuation t b s)) = next_order s"
  "offered_read (snd (rekey_claimed b s)) = offered_read s" "authorization_hook (snd (rekey_claimed b s)) = authorization_hook s"
  "next_order (snd (rekey_claimed b s)) = next_order s"
  "offered_read (snd (rekey_released b s)) = offered_read s" "authorization_hook (snd (rekey_released b s)) = authorization_hook s"
  "next_order (snd (rekey_released b s)) = next_order s"
  by (simp_all add: rekey_continuation_def rekey_claimed_def rekey_released_def split_beta Let_def split: option.split rekey_phase.split)

lemma step_inv:
  assumes inv: "inbox_inv s" and allowed: "allowed_event s e"
  shows "inbox_inv (inbox_step s e)"
proof -
  have ok: "inbox_ok s" and fin: "end_ok s" using inv by (simp_all add: inbox_inv_def)
  have same: "held_read (inbox_step s e) i r = held_read s i r" if "\<not> takes_read e" for i r
    using same_other [OF inv that] by (simp add: same_reads_def)
  show ?thesis
  proof (cases e)
    case (Settle i result)
    then show ?thesis using settle_ok [OF ok] settle_end [OF inv] by (simp add: inbox_inv_def)
  next
    case Surface
    have "end_ok (surface s)"
    proof (cases "offer_open s \<and> offered_read s = None \<and> ready_reads s \<noteq> []")
      case True
      then obtain r rs where "ready_reads s = r # rs" by (cases "ready_reads s") auto
      with True ok ready_held [of s r] show ?thesis by (simp add: surface_def end_ok_def inbox_ok_def)
    next
      case False
      then have "surface s = s" by (cases "ready_reads s") (auto simp: surface_def)
      with fin show ?thesis by simp
    qed
    with Surface surface_ok [OF ok] show ?thesis by (simp add: inbox_inv_def)
  next
    case Next
    then show ?thesis using next_ok [OF ok] next_end [OF inv] by (simp add: inbox_inv_def)
  next
    case Consume
    have "end_ok (snd (consume_next s))" using fin by (cases "offered_read s") (simp_all add: consume_next_def end_none)
    with Consume consume_ok [OF ok] show ?thesis by (simp add: inbox_inv_def)
  next
    case (Claim_Stable t b)
    have "end_ok (snd (claim_stable t b s))"
      by (rule end_keep [OF fin]) (use same [of] Claim_Stable in \<open>simp_all add: claim_stable_def split_beta split: option.splits\<close>)
    with Claim_Stable claim_stable_ok [OF ok] show ?thesis by (simp add: inbox_inv_def)
  next
    case (Claim_Authorization t b)
    have "end_ok (snd (claim_authorization t b s))"
    proof (cases "authorization_hook s")
      case None
      have "\<not> held_read (snd (create_state t s)) (length (all_hooks s)) q" for q by (simp del: held_create add: held_read_def)
      then show ?thesis using fin None by (cases b) (auto simp: claim_authorization_def split_beta end_ok_def)
    qed (use fin in \<open>simp add: claim_authorization_def\<close>)
    with Claim_Authorization claim_authorization_ok [OF ok] show ?thesis by (simp add: inbox_inv_def)
  next
    case (Rekey t b)
    have "end_ok (snd (rekey_continuation t b s))" by (rule end_keep [OF fin]) (use same Rekey in simp_all)
    with Rekey rekey_ok [OF ok] allowed show ?thesis by (simp add: inbox_inv_def)
  next
    case (Rekey_Claimed b)
    have "end_ok (snd (rekey_claimed b s))" by (rule end_keep [OF fin]) (use same Rekey_Claimed in simp_all)
    with Rekey_Claimed rekey_claimed_ok [OF ok] show ?thesis by (simp add: inbox_inv_def)
  next
    case (Rekey_Released b)
    have "end_ok (snd (rekey_released b s))" by (rule end_keep [OF fin]) (use same Rekey_Released in simp_all)
    with Rekey_Released rekey_released_ok [OF ok] show ?thesis by (simp add: inbox_inv_def)
  next
    case (Window b)
    show ?thesis
    proof (cases "authorization_hook s")
      case None
      with inv show ?thesis by (simp add: Window set_authorization_window_def)
    next
      case (Some a)
      show ?thesis
      proof (cases b)
        case True
        with open_window_inv [OF inv Some] Some Window show ?thesis by (simp add: set_authorization_window_def)
      next
        case False
        have "end_ok (close_window a s)"
          by (rule end_keep [OF fin]) (use same Window False Some in \<open>simp_all add: set_authorization_window_def close_window_def\<close>)
        with False Window Some allowed close_window_ok [OF ok Some] show ?thesis
          by (simp add: set_authorization_window_def inbox_inv_def)
      qed
    qed
  next
    case Dispose
    have "end_ok (dispose_inbox s)" using fin by (auto simp: dispose_inbox_def end_ok_def)
    with Dispose dispose_ok [OF ok] show ?thesis by (simp add: inbox_inv_def)
  qed
qed

section \<open>Runs from a new inbox\<close>

lemma fresh_inv: "inbox_inv create_session_command_inbox"
  by (simp add: inbox_inv_def create_session_command_inbox_def inbox_ok_def hooks_ok_def queue_ok_def offer_ok_def surfaced_def
      roles_ok_def held_read_def end_ok_def states_def option_list_def)

definition guarded_step :: "'v command_inbox \<Rightarrow> 'v inbox_event \<Rightarrow> 'v command_inbox" where
  \<comment> \<open>An event the driver does not raise leaves the inbox as it is.\<close>
  "guarded_step s e = (if allowed_event s e then inbox_step s e else s)"

interpretation inbox_events: transition_system guarded_step inbox_inv
  by unfold_locales (simp add: guarded_step_def step_inv)

lemma guarded_run: "allowed_events s es \<Longrightarrow> foldl inbox_step s es = foldl guarded_step s es"
  by (induction es arbitrary: s) (simp_all add: guarded_step_def)

lemma inbox_run_inv: "inbox_inv s \<Longrightarrow> allowed_events s es \<Longrightarrow> inbox_inv (foldl inbox_step s es)"
  by (simp add: guarded_run inbox_events.run_inv)

definition all_held :: "'v command_inbox \<Rightarrow> 'v hook_read list" where
  "all_held s = concat (map (\<lambda>i. option_list (hook_resolved (hook_at s i))) [0..<length (all_hooks s)])"

definition vals :: "'v hook_read list \<Rightarrow> 'v hook_read list" where
  \<comment> \<open>The reads that carry a payload.\<close>
  "vals rs = filter (\<lambda>r. read_result r \<noteq> Done) rs"

lemma option_list_simps [simp]: "option_list None = []" "option_list (Some x) = [x]"
  by (simp_all add: option_list_def)

lemma resolved_eq:
  assumes "\<And>r. held_read t i r = held_read s i r" and "i < length (all_hooks s)" and "i < length (all_hooks t)"
  shows "hook_resolved (hook_at t i) = hook_resolved (hook_at s i)"
  using assms by (cases "hook_resolved (hook_at t i)"; cases "hook_resolved (hook_at s i)") (auto simp: held_read_def)

lemma all_held_same:
  assumes "same_reads s t"
  shows "all_held t = all_held s"
proof -
  let ?n = "length (all_hooks s)"
  from assms obtain k where k: "length (all_hooks t) = ?n + k" by (metis same_reads_def le_Suc_ex)
  have old: "hook_resolved (hook_at t i) = hook_resolved (hook_at s i)" if "i < ?n" for i
    using assms k that by (intro resolved_eq) (simp_all add: same_reads_def)
  have new: "hook_resolved (hook_at t i) = None" if "?n \<le> i" "i < ?n + k" for i
  proof (cases "hook_resolved (hook_at t i)")
    case (Some r)
    with that k have "held_read t i r" by (simp add: held_read_def)
    with assms have "held_read s i r" by (simp add: same_reads_def)
    with that show ?thesis by (simp add: held_read_def)
  qed
  have "concat (map (\<lambda>i. option_list (hook_resolved (hook_at t i))) [?n..<?n + k]) = []" using new by simp
  moreover have "map (\<lambda>i. option_list (hook_resolved (hook_at t i))) [0..<?n] = map (\<lambda>i. option_list (hook_resolved (hook_at s i))) [0..<?n]"
    using old by simp
  moreover have "[0..<?n + k] = [0..<?n] @ [?n..<?n + k]" by (rule upt_add_eq_append) simp
  ultimately show ?thesis by (simp only: all_held_def k map_append concat_append append_Nil2)
qed

lemma concat_replace:
  assumes "i < n" and "\<And>j. j < n \<Longrightarrow> j \<noteq> i \<Longrightarrow> f j = g j"
  shows "mset (concat (map f [0..<n])) + mset (g i) = mset (concat (map g [0..<n])) + mset (f i)"
proof -
  obtain k where n: "n = i + Suc k" using assms(1) less_iff_Suc_add by auto
  have split: "[0..<n] = [0..<i] @ i # [Suc i..<n]"
    using upt_add_eq_append [OF le0, of i "Suc k"] upt_conv_Cons [of i "i + Suc k"] by (simp only: n less_add_Suc1)
  have eqs: "map f [0..<i] = map g [0..<i]" "map f [Suc i..<n] = map g [Suc i..<n]" using assms by auto
  show ?thesis
    by (simp only: split eqs map_append list.map concat_append concat.simps mset_append ac_simps)
qed

lemma settle_held_all:
  assumes "inbox_ok s"
  shows "mset (all_held (settle_read i result s)) = mset (all_held s) + mset (arrivals_of s (Settle i result))"
proof (cases "awaits_read i s")
  case True
  let ?t = "settle_read i result s"
  have len: "length (all_hooks ?t) = length (all_hooks s)" by (simp add: settle_read_def Let_def)
  have i: "i < length (all_hooks s)" "hook_resolved (hook_at s i) = None" using True by (simp_all add: awaits_read_def)
  have "held_read ?t i (new_read i result s)" using True by (simp add: settle_held [OF assms])
  then have new: "hook_resolved (hook_at ?t i) = Some (new_read i result s)" by (simp add: held_read_def)
  have "hook_resolved (hook_at ?t j) = hook_resolved (hook_at s j)" if "j < length (all_hooks s)" "j \<noteq> i" for j
    using that len by (intro resolved_eq) (auto simp: settle_held [OF assms])
  from concat_replace [OF i(1), of "\<lambda>j. option_list (hook_resolved (hook_at ?t j))" "\<lambda>j. option_list (hook_resolved (hook_at s j))"] this
  show ?thesis by (simp add: all_held_def len new i True arrivals_of_def)
next
  case False
  then show ?thesis by (simp add: settle_read_def arrivals_of_def)
qed

lemma consume_held_all:
  assumes "inbox_ok s"
  shows "mset (vals (all_held (snd (consume_next s)))) + mset (vals (consumed_by s Consume)) = mset (vals (all_held s))"
proof (cases "offered_read s")
  case (Some r)
  let ?i = "read_hook r"
  let ?t = "snd (consume_next s)"
  have i: "?i < length (all_hooks s)" using assms Some by (auto simp: inbox_ok_def offer_ok_def held_read_def end_read_def)
  have t: "length (all_hooks ?t) = length (all_hooks s)" "hook_resolved (hook_at ?t j) = (if j = ?i then None else hook_resolved (hook_at s j))" for j
    using i by (simp_all add: consume_next_def Some)
  have at: "hook_resolved (hook_at s ?i) = Some r \<or> hook_resolved (hook_at s ?i) = None \<and> read_result r = Done"
    using assms Some by (auto simp: inbox_ok_def offer_ok_def held_read_def end_read_def)
  from concat_replace [OF i, of "\<lambda>j. option_list (hook_resolved (hook_at ?t j))" "\<lambda>j. option_list (hook_resolved (hook_at s j))"]
  have "mset (all_held ?t) + mset (option_list (hook_resolved (hook_at s ?i))) = mset (all_held s)"
    by (simp add: all_held_def t)
  then have "filter_mset (\<lambda>r. read_result r \<noteq> Done) (mset (all_held ?t) + mset (option_list (hook_resolved (hook_at s ?i)))) =
      filter_mset (\<lambda>r. read_result r \<noteq> Done) (mset (all_held s))" by simp
  with at Some show ?thesis by (auto simp: vals_def consumed_by_def)
qed (simp add: consume_next_def consumed_by_def vals_def)

lemma step_conserves:
  assumes inv: "inbox_inv s"
  shows "mset (vals (all_held (inbox_step s e))) + mset (vals (consumed_by s e)) = mset (vals (all_held s)) + mset (vals (arrivals_of s e))"
proof (cases "takes_read e")
  case False
  from all_held_same [OF same_other [OF inv False]] False show ?thesis
    by (cases e) (simp_all add: consumed_by_def arrivals_of_def vals_def)
next
  case True
  have ok: "inbox_ok s" using inv by (simp add: inbox_inv_def)
  from True consider i result where "e = Settle i result" | "e = Consume" by (cases e) simp_all
  then show ?thesis
  proof cases
    case 1
    then show ?thesis using settle_held_all [OF ok, of i result] by (simp add: vals_def consumed_by_def)
  next
    case 2
    then show ?thesis using consume_held_all [OF ok] by (simp add: arrivals_of_def vals_def)
  qed
qed

lemma run_conserves:
  "inbox_inv s \<Longrightarrow> allowed_events s es \<Longrightarrow>
    mset (vals (all_held (foldl inbox_step s es))) + mset (vals (reads_consumed s es)) = mset (vals (all_held s)) + mset (vals (reads_arrived s es))"
proof (induction es arbitrary: s)
  case (Cons e es)
  then have inv: "inbox_inv (inbox_step s e)" and rest: "allowed_events (inbox_step s e) es" by (simp_all add: step_inv)
  from Cons.IH [OF inv rest] step_conserves [OF Cons.prems(1), of e] show ?case by (simp add: vals_def ac_simps)
qed (simp add: vals_def)

lemma arm_all_order: "next_order (foldl (\<lambda>s i. arm i s) s is) = next_order s"
  by (induction "is" arbitrary: s) simp_all

lemma step_order: "next_order s + length (arrivals_of s e) \<le> next_order (inbox_step s e)"
proof (cases e)
  case Next
  then show ?thesis by (simp add: arrivals_of_def next_read_def Let_def arm_all_order split: option.split)
next
  case (Window b)
  then show ?thesis
    by (simp add: arrivals_of_def set_authorization_window_def open_window_def close_window_def Let_def split: option.split)
qed (simp_all add: arrivals_of_def surface_def consume_next_def claim_stable_def claim_authorization_def split_beta dispose_inbox_def
    split: option.split list.split)

lemma arrivals_ordered:
  "sorted_wrt (<) (map read_order (reads_arrived s es)) \<and> (\<forall>r \<in> set (reads_arrived s es). next_order s \<le> read_order r)"
proof (induction es arbitrary: s)
  case (Cons e es)
  have one: "arrivals_of s e = [] \<or> (\<exists>r. arrivals_of s e = [r] \<and> read_order r = next_order s)"
    by (cases e) (simp_all add: arrivals_of_def new_read_def)
  show ?case
  proof (cases "arrivals_of s e")
    case Nil
    with Cons.IH [of "inbox_step s e"] step_order [of s e] show ?thesis by fastforce
  next
    case (Cons r rs)
    with one have "arrivals_of s e = [r]" "read_order r = next_order s" by auto
    with Cons.IH [of "inbox_step s e"] step_order [of s e] show ?thesis by fastforce
  qed
qed simp

lemma enabled_next:
  assumes "inbox_ok s" and "i < length (all_hooks s)"
  shows "hook_enabled (hook_at (snd (next_read s)) i) = hook_enabled (hook_at s i)"
proof -
  have "hook_enabled (hook_at (foldl (\<lambda>s i. arm i s) s is) j) = hook_enabled (hook_at s j)"
    if "\<forall>i \<in> set is. i < length (all_hooks s)" for "is" j
    using that by (induction "is" arbitrary: s) simp_all
  with assms show ?thesis
    by (simp add: next_read_def Let_def inbox_ok_def roles_ok_def split: option.split)
qed

lemma read_is_offered:
  assumes inv: "inbox_inv s" and held: "held_read s i r" and en: "hook_enabled (hook_at s i)" and "stable_hook s \<noteq> None"
  shows "\<exists>q. offered_read (surface (snd (next_read s))) = Some q"
proof -
  let ?t = "snd (next_read s)"
  have ok: "inbox_ok s" using inv by (simp add: inbox_inv_def)
  have t: "inbox_inv ?t" using step_inv [OF inv, of Next] by simp
  have "held_read ?t i r" using same_next [OF ok] held by (simp add: same_reads_def)
  moreover have "hook_enabled (hook_at ?t i)" using enabled_next [OF ok, of i] en held by (simp add: held_read_def)
  ultimately have "r \<in> set (ready_reads ?t) \<or> offered_read ?t = Some r" using t by (auto simp: inbox_inv_def inbox_ok_def surfaced_def)
  moreover have "offer_open ?t" using assms(4) by (auto simp: next_read_def Let_def)
  ultimately show ?thesis by (cases "ready_reads ?t"; cases "offered_read ?t") (auto simp: surface_def)
qed

section \<open>Order\<close>

definition oldest_first :: "'v command_inbox \<Rightarrow> bool" where
  "oldest_first s \<longleftrightarrow> (\<forall>r q. offered_read s = Some r \<longrightarrow> held_read s (read_hook r) r \<longrightarrow> q \<in> set (ready_reads s) \<longrightarrow>
     read_order r < read_order q)"

lemma oldest_keep:
  assumes "oldest_first s" and "offered_read t = offered_read s" and "\<And>i r. held_read t i r = held_read s i r"
    and "set (ready_reads t) \<subseteq> set (ready_reads s)"
  shows "oldest_first t"
  using assms by (auto simp: oldest_first_def)

lemma oldest_none: "offered_read s = None \<Longrightarrow> oldest_first s"
  by (simp add: oldest_first_def)

lemma enable_fresh [simp]: "ready_reads (enable (length (all_hooks s)) (snd (create_state t s))) = ready_reads s"
  by (simp add: enable_def Let_def)

lemma oldest_surface:
  assumes "inbox_ok s" and "oldest_first s"
  shows "oldest_first (surface s)"
proof (cases "offer_open s \<and> offered_read s = None \<and> ready_reads s \<noteq> []")
  case True
  then obtain r rs where r: "ready_reads s = r # rs" by (cases "ready_reads s") auto
  with assms(1) have "\<forall>q \<in> set rs. read_order r < read_order q"
    by (fastforce simp: inbox_ok_def queue_ok_def order.strict_iff_order)
  with True r show ?thesis by (simp add: surface_def oldest_first_def)
next
  case False
  then have "surface s = s" by (cases "ready_reads s") (auto simp: surface_def)
  with assms(2) show ?thesis by simp
qed

lemma oldest_settle:
  assumes ok: "inbox_ok s" and old: "oldest_first s"
  shows "oldest_first (settle_read i result s)"
proof -
  let ?t = "settle_read i result s"
  have ready: "set (ready_reads ?t) \<subseteq> insert (new_read i result s) (set (ready_reads s))"
    by (auto simp: settle_read_def Let_def)
  have new: "read_order (new_read i result s) = next_order s" by (simp add: new_read_def)
  show ?thesis
    unfolding oldest_first_def
  proof (intro allI impI)
    fix r q
    assume r: "offered_read ?t = Some r" and h: "held_read ?t (read_hook r) r" and q: "q \<in> set (ready_reads ?t)"
    from r have rs: "offered_read s = Some r" by simp
    have "held_read s (read_hook r) r"
    proof (rule ccontr)
      assume n: "\<not> held_read s (read_hook r) r"
      with h have "awaits_read i s" "read_hook r = i" by (auto simp: settle_held [OF ok] new_read_def)
      moreover from n rs ok have "end_read s r" by (auto simp: inbox_ok_def offer_ok_def)
      ultimately show False using ok closed_idle [of s i] by (auto simp: awaits_read_def end_read_def inbox_ok_def)
    qed
    moreover from this ok have "read_order r < next_order s" using held_facts by (auto simp: inbox_ok_def)
    ultimately show "read_order r < read_order q" using q ready rs old new unfolding oldest_first_def by auto
  qed
qed

lemma oldest_next:
  assumes ok: "inbox_ok s" and old: "oldest_first s"
  shows "oldest_first (snd (next_read s))"
proof (cases "stable_hook s = None \<or> offer_open s")
  case True
  with old show ?thesis by (cases "stable_hook s") (auto simp: next_read_def)
next
  case False
  then obtain st where st: "stable_hook s = Some st" and closed: "\<not> offer_open s" by auto
  let ?s = "foldl (\<lambda>s i. arm i s) s (states s)"
  have ids: "\<forall>i \<in> set (states s). i < length (all_hooks s)" using ok by (simp add: inbox_ok_def roles_ok_def)
  note a = arm_all [OF ok ids]
  have none: "offered_read s = None" using ok closed by (cases "offered_read s") (auto simp: inbox_ok_def offer_ok_def)
  show ?thesis
  proof (cases "list_all (\<lambda>i. hook_closed (hook_at ?s i)) (states s)")
    case False
    with st closed none a show ?thesis by (simp add: next_read_def Let_def oldest_none)
  next
    case True
    have st_in: "st \<in> set (states s)" using st by (simp add: states_def)
    with True ids a closed_has_no_read [of ?s st] have "\<not> held_read ?s st q" for q by (auto simp: list_all_iff held_read_def)
    with st closed True show ?thesis by (simp add: next_read_def Let_def oldest_first_def new_read_def)
  qed
qed

lemma oldest_enable:
  assumes ok: "inbox_ok s" and old: "oldest_first s" and a: "authorization_hook s = Some a" and off: "\<not> hook_enabled (hook_at s a)"
    and newer: "\<And>r q. offered_read s = Some r \<Longrightarrow> hook_resolved (hook_at s a) = Some q \<Longrightarrow> \<not> read_order q < read_order r"
  shows "oldest_first (enable a s)"
  unfolding oldest_first_def
proof (intro allI impI)
  note len = authorization_role(1) [OF ok a]
  fix r u
  assume r: "offered_read (enable a s) = Some r" and h: "held_read (enable a s) (read_hook r) r" and u: "u \<in> set (ready_reads (enable a s))"
  from r h len have rs: "offered_read s = Some r" and hs: "held_read s (read_hook r) r" by simp_all
  have ra: "read_hook r \<noteq> a" using ok rs off by (auto simp: inbox_ok_def offer_ok_def)
  from u consider "u \<in> set (ready_reads s)" | "hook_resolved (hook_at s a) = Some u"
    by (auto simp: enable_def Let_def split: option.splits)
  then show "read_order r < read_order u"
  proof cases
    case 1
    with old rs hs show ?thesis by (simp add: oldest_first_def)
  next
    case 2
    then have "held_read s a u" using len by (simp add: held_read_def)
    with ok hs ra have "read_order r \<noteq> read_order u" using held_once [of s "read_hook r" r a u] by (auto simp: inbox_ok_def)
    with newer [OF rs 2] show ?thesis by simp
  qed
qed

lemma oldest_open_window:
  assumes inv: "inbox_inv s" and old: "oldest_first s" and a: "authorization_hook s = Some a"
  shows "oldest_first (open_window a s)"
proof -
  have ok: "inbox_ok s" using inv by (simp add: inbox_inv_def)
  note len = authorization_role(1) [OF ok a]
  let ?s1 = "if hook_enabled (hook_at s a) then s else enable a s"
  have a1: "authorization_hook ?s1 = Some a" using a by simp
  have resolved: "hook_resolved (hook_at ?s1 a) = hook_resolved (hook_at s a)"
    using len by (simp add: enable_def Let_def split: option.split)
  have "oldest_first (reoffer a ?s1)"
  proof (cases rule: reoffer_cases [of a ?s1])
    case 1
    have "oldest_first ?s1"
    proof (cases "hook_enabled (hook_at s a)")
      case off: False
      have "\<not> read_order q < read_order r" if r: "offered_read s = Some r" and q: "hook_resolved (hook_at s a) = Some q" for r q
      proof (rule 1(2))
        show "offered_read ?s1 = Some r" using r by simp
        show "hook_resolved (hook_at ?s1 a) = Some q" using q resolved by simp
        from ok r off have "read_hook r \<noteq> a" by (auto simp: inbox_ok_def offer_ok_def)
        then show "\<not> is_authorization_read ?s1 r" using a1 by (simp add: is_authorization_read_def)
      qed
      from oldest_enable [OF ok old a off this] off show ?thesis by simp
    qed (use old in simp)
    with 1(1) show ?thesis by simp
  next
    case (2 r q)
    then show ?thesis by (simp add: oldest_none)
  qed
  moreover have "inbox_ok (reoffer a ?s1)" using reoffer_inv(1) [OF enable_window [OF inv a] a1] by (simp add: inbox_inv_def)
  moreover have "oldest_first (arm a u)" if "oldest_first u" and "inbox_ok u" and "a < length (all_hooks u)" for u :: "'a command_inbox"
    using that held_arm [of u a] by (intro oldest_keep [OF that(1)]) simp_all
  ultimately show ?thesis using len unfolding open_window_def Let_def by simp
qed

fun swaps_alias :: "'v inbox_event \<Rightarrow> bool" where
  "swaps_alias (Rekey_Claimed ok) = True"
| "swaps_alias e = False"

lemma oldest_step:
  assumes inv: "inbox_inv s" and old: "oldest_first s" and "\<not> swaps_alias e"
  shows "oldest_first (inbox_step s e)"
proof -
  have ok: "inbox_ok s" using inv by (simp add: inbox_inv_def)
  have same: "held_read (inbox_step s e) i r = held_read s i r" if "\<not> takes_read e" for i r
    using same_other [OF inv that] by (simp add: same_reads_def)
  show ?thesis
  proof (cases e)
    case (Settle i result)
    then show ?thesis using oldest_settle [OF ok old] by simp
  next
    case Surface
    then show ?thesis using oldest_surface [OF ok old] by simp
  next
    case Next
    then show ?thesis using oldest_next [OF ok old] by simp
  next
    case Consume
    show ?thesis using old by (cases "offered_read s") (simp_all add: Consume consume_next_def oldest_none)
  next
    case (Claim_Stable t b)
    show ?thesis
      by (rule oldest_keep [OF old]) (use same Claim_Stable in \<open>simp_all add: claim_stable_def split_beta split: option.splits\<close>)
  next
    case (Claim_Authorization t b)
    show ?thesis
      by (rule oldest_keep [OF old])
        (use same Claim_Authorization in \<open>simp_all add: claim_authorization_def split_beta split: option.splits\<close>)
  next
    case (Rekey t b)
    show ?thesis
      by (rule oldest_keep [OF old])
        (use same Rekey in \<open>simp_all add: rekey_continuation_def split_beta Let_def split: option.splits\<close>)
  next
    case (Rekey_Released b)
    show ?thesis
      by (rule oldest_keep [OF old]) (use same Rekey_Released in \<open>simp_all add: rekey_released_def split: rekey_phase.splits\<close>)
  next
    case (Window b)
    show ?thesis
    proof (cases "authorization_hook s")
      case None
      with old show ?thesis by (simp add: Window set_authorization_window_def)
    next
      case (Some a)
      show ?thesis
      proof (cases b)
        case True
        with oldest_open_window [OF inv old Some] Some Window show ?thesis by (simp add: set_authorization_window_def)
      next
        case False
        show ?thesis
          by (rule oldest_keep [OF old])
            (use same Window False Some in \<open>auto simp: set_authorization_window_def close_window_def dest: set_remove_first [THEN subsetD]\<close>)
      qed
    qed
  next
    case Dispose
    show ?thesis by (rule oldest_keep [OF old]) (use same Dispose in \<open>simp_all add: dispose_inbox_def\<close>)
  qed (use assms(3) in simp_all)
qed

lemma run_oldest:
  "inbox_inv s \<Longrightarrow> oldest_first s \<Longrightarrow> allowed_events s es \<Longrightarrow> list_all (\<lambda>e. \<not> swaps_alias e) es \<Longrightarrow>
   oldest_first (foldl inbox_step s es)"
  by (induction es arbitrary: s) (simp_all add: step_inv oldest_step)

section \<open>The inbox's contract\<close>


definition window_run :: "string inbox_event list" where
  "window_run = [Claim_Stable ''s'' True, Claim_Authorization ''a'' True, Next, Settle 1 (Value ''callback''), Settle 0 (Value ''hello''),
     Surface, Window True, Next, Surface, Consume, Window False, Next, Surface]"

lemmas run_defs = create_session_command_inbox_def claim_stable_def claim_authorization_def create_state_def enable_def
  change_hook_def next_read_def states_def arm_def settle_read_def awaits_read_def new_read_def enqueue_read_def surface_def
  set_authorization_window_def open_window_def close_window_def reoffer_def is_authorization_read_def consume_next_def
  rekey_continuation_def rekey_claimed_def option_list_def Let_def


text \<open>
  C2: reads surface in the order in which they arrived, across all hooks. As long as no alias is
  replaced, the read that is offered is the oldest one that any enabled hook holds, also when the
  authorization window opens while a younger read is offered; and while the window is closed the read
  offered is never an authorization callback.
\<close>
theorem inbox_serves_oldest:
  assumes "allowed_events create_session_command_inbox es" and "list_all (\<lambda>e. \<not> swaps_alias e) es"
    and "s = foldl inbox_step create_session_command_inbox es" and "offered_read s = Some r" and "read_result r \<noteq> Done"
  shows "held_read s (read_hook r) r \<and>
    (\<forall>i q. held_read s i q \<longrightarrow> hook_enabled (hook_at s i) \<longrightarrow> q \<noteq> r \<longrightarrow> read_order r < read_order q) \<and>
    (\<forall>a. authorization_hook s = Some a \<longrightarrow> \<not> hook_enabled (hook_at s a) \<longrightarrow> \<not> next_source s)"
proof -
  have inv: "inbox_inv s" using inbox_run_inv [OF fresh_inv assms(1)] by (simp add: assms(3))
  have "oldest_first create_session_command_inbox" by (rule oldest_none) (simp add: create_session_command_inbox_def)
  then have old: "oldest_first s" using run_oldest [OF fresh_inv _ assms(1,2)] by (simp add: assms(3))
  from inv assms(4,5) have held: "held_read s (read_hook r) r" and en: "hook_enabled (hook_at s (read_hook r))"
    by (auto simp: inbox_inv_def inbox_ok_def offer_ok_def end_read_def)
  have "read_order r < read_order q" if "held_read s i q" "hook_enabled (hook_at s i)" "q \<noteq> r" for i q
    using that inv old assms(4) held unfolding inbox_inv_def inbox_ok_def surfaced_def oldest_first_def by auto
  with held en assms(4) show ?thesis by (auto simp: next_source_def is_authorization_read_def)
qed

lemma inbox_serves_oldest_witness:
  "\<exists>r. offered_read (foldl inbox_step create_session_command_inbox (take 9 window_run)) = Some r \<and> read_result r = Value ''callback'' \<and>
     held_read (foldl inbox_step create_session_command_inbox (take 9 window_run)) (read_hook r) r"
proof -
  let ?es = "take 9 window_run"
  have run: "allowed_events create_session_command_inbox ?es" "list_all (\<lambda>e. \<not> swaps_alias e) ?es"
    by (simp_all add: window_run_def run_defs next_source_def)
  have "map_option read_result (offered_read (foldl inbox_step create_session_command_inbox ?es)) = Some (Value ''callback'')"
    by (simp add: window_run_def run_defs)
  then obtain r where "offered_read (foldl inbox_step create_session_command_inbox ?es) = Some r" "read_result r = Value ''callback''"
    by auto
  with inbox_serves_oldest [OF run refl this(1)] show ?thesis by simp
qed

text \<open>
  While an alias is replaced the order can be lost: the candidate is read before it is claimed, so its
  payload can be older than a read that was offered meanwhile, and is queued behind it.
\<close>
lemma rekey_breaks_order:
  "\<exists>s r q. s = foldl inbox_step create_session_command_inbox [Claim_Stable ''s'' True, Rekey ''old'' True, Next, Rekey ''new'' True,
      Settle 2 (Value ''first''), Settle 0 (Value ''second''), Surface, Rekey_Claimed True] \<and>
     offered_read s = Some r \<and> read_result r = Value ''second'' \<and> ready_reads s = [q] \<and> read_result q = Value ''first'' \<and>
     read_order q < read_order r"
  by (simp add: run_defs)

end
