(* ===== verification/Turn_Cancellation.thy ===== *)
theory Turn_Cancellation
  imports Json_Objects
begin

text \<open>
  The cancellation surface of one turn (\<open>execution/turn-cancellation-control.ts\<close>): a private hook whose
  reads are skipped until one is meant for this turn. The reads of the hook are a list; what is left of
  the loop is whether the abort has fired and with which payload.
\<close>

section \<open>Matching\<close>

definition matches_active_turn :: "json \<Rightarrow> string \<Rightarrow> bool" where
  "matches_active_turn payload expected = (case payload of
     JObj _ \<Rightarrow> jget payload ''turnId'' \<in> {JUndef, JStr expected}
   | _ \<Rightarrow> True)"

datatype hook_item = Item json | Hook_Done

record cancel_progress =
  cancel_aborted :: bool
  cancel_payload :: "json option"
  reads_taken :: nat

definition no_cancel :: cancel_progress where
  "no_cancel = \<lparr>cancel_aborted = False, cancel_payload = None, reads_taken = 0\<rparr>"

fun consume_matching_cancel :: "string \<Rightarrow> hook_item list \<Rightarrow> cancel_progress \<Rightarrow> cancel_progress" where
  \<comment> \<open>The loop on the reads that have settled; after the end it waits for ever.\<close>
  "consume_matching_cancel expected [] c = c"
| "consume_matching_cancel expected (Hook_Done # items) c = c\<lparr>reads_taken := Suc (reads_taken c)\<rparr>"
| "consume_matching_cancel expected (Item v # items) c =
     (if matches_active_turn v expected
      then c\<lparr>cancel_aborted := True, cancel_payload := Some v, reads_taken := Suc (reads_taken c)\<rparr>
      else consume_matching_cancel expected items (c\<lparr>reads_taken := Suc (reads_taken c)\<rparr>))"

datatype hook_claim = Claimed_Hook | Conflicting_Hook | Claim_Failed

datatype control_error = Claim_Error

definition create_turn_cancellation_control ::
  "hook_claim \<Rightarrow> string \<Rightarrow> json option \<Rightarrow> hook_item list \<Rightarrow> control_error + cancel_progress option" where
  "create_turn_cancellation_control claim expected initial items = (case claim of
     Claim_Failed \<Rightarrow> Inl Claim_Error
   | Conflicting_Hook \<Rightarrow> Inr None
   | Claimed_Hook \<Rightarrow> Inr (Some (case initial of
       Some v \<Rightarrow> if matches_active_turn v expected
         then no_cancel\<lparr>cancel_aborted := True, cancel_payload := Some v\<rparr>
         else consume_matching_cancel expected items no_cancel
     | None \<Rightarrow> consume_matching_cancel expected items no_cancel)))"

section \<open>The first matching read\<close>

definition item_matches :: "string \<Rightarrow> hook_item \<Rightarrow> bool" where
  "item_matches expected x = (case x of Item v \<Rightarrow> matches_active_turn v expected | Hook_Done \<Rightarrow> False)"

lemma consume_finds:
  "cancel_payload (consume_matching_cancel expected items no_cancel) =
     (case find (item_matches expected) (takeWhile (\<lambda>x. x \<noteq> Hook_Done) items) of Some (Item v) \<Rightarrow> Some v | _ \<Rightarrow> None) \<and>
   (cancel_aborted (consume_matching_cancel expected items no_cancel) \<longleftrightarrow>
     cancel_payload (consume_matching_cancel expected items no_cancel) \<noteq> None)"
proof -
  have "cancel_payload (consume_matching_cancel expected items c) =
      (case find (item_matches expected) (takeWhile (\<lambda>x. x \<noteq> Hook_Done) items) of Some (Item v) \<Rightarrow> Some v | _ \<Rightarrow> None) \<and>
    (cancel_aborted (consume_matching_cancel expected items c) \<longleftrightarrow>
      cancel_payload (consume_matching_cancel expected items c) \<noteq> None)"
    if "cancel_payload c = None" "\<not> cancel_aborted c" for c
    using that by (induction expected items c rule: consume_matching_cancel.induct) (auto simp: item_matches_def)
  then show ?thesis by (simp add: no_cancel_def)
qed

text \<open>A cancel meant for another turn never aborts this one.\<close>

lemma other_turn_ignored:
  assumes "\<forall>v. Item v \<in> set items \<longrightarrow> \<not> matches_active_turn v expected"
  shows "\<not> cancel_aborted (consume_matching_cancel expected items no_cancel)"
proof -
  have "\<not> cancel_aborted (consume_matching_cancel expected items c)" if "\<not> cancel_aborted c" for c
    using assms that by (induction expected items c rule: consume_matching_cancel.induct) auto
  then show ?thesis by (simp add: no_cancel_def)
qed

end
