(* ===== verification/Delivery_Relay.thy ===== *)
theory Delivery_Relay
  imports Step_Input
begin

text \<open>
  The relay between a session's command inbox and its active turn
  (\<open>execution/turn-control-receiver.ts\<close>). Which of the two sources wins a race is up to the workflow
  runtime: a run is an arbitrary sequence of events, one for each completed read. The receiver is the
  record of its fields together with the loop it is in; calls of durable steps are effects, appended to
  a log. Arrays and sets passed to the constructor are shared with the driver; the fields here are
  their contents.
\<close>

section \<open>Deliveries and commands\<close>

record hook_delivery = "json delivery" +
  task_delivery_id :: "string option"
  steers :: bool \<comment> \<open>\<open>turnPolicy === "steer"\<close>\<close>

datatype session_command =
  Deliver hook_delivery
| Clear
| Compact
| Session_Timeout
| Cancel (cancel_tasks: bool) (cancel_task_id: "string option") (cancel_turn_id: "string option")
| Reset

datatype inbox_read = Late_Action_Result | Undecodable | Command session_command

datatype 'a control_payload =
  Turn_Result 'a "hook_delivery list"
| Turn_Error
| Continuation_Token string
| Delivery_Request (request_token: string) (request_inbox: string) (request_of: string)
| Delivery_Accepted string
| Delivery_Cancelled string

datatype 'a event = From_Control "'a control_payload" | Control_Closed | From_Inbox inbox_read | Inbox_Closed

datatype session_control = Control_Clear | Control_Compact | Control_Expired | Control_Reset

datatype effect =
  Cancel_All_Tasks
| Forward_Cancellation bool "string option"
| Forward_Delivery string string hook_delivery
| Report_Dropped
| Rekey string

datatype mode =
  Waiting
| Serving string string \<comment> \<open>the request and the inbox of the turn\<close>
| Awaiting string hook_delivery

record mailbox = \<comment> \<open>shared by the driver with its receivers\<close>
  buffered :: "hook_delivery list"
  controls :: "session_control list"
  cancelled :: "string list"
  seen :: "string list"
  log :: "effect list"

record relay = mailbox +
  expected_turn :: string
  mode :: mode

datatype ('a, 'r) progress = Running 'r | Finished 'a 'r | Failed

section \<open>Task deliveries\<close>

definition delivery_id :: "hook_delivery \<Rightarrow> string option" where
  "delivery_id d = nullish (task_delivery_id d)
     (case delivery_caller d of None \<Rightarrow> None | Some c \<Rightarrow> jstr c ''taskId'')"

definition delivery_originates_from_task :: "string \<Rightarrow> string \<Rightarrow> bool" where
  "delivery_originates_from_task i t \<longleftrightarrow> i = t \<or> prefix (t @ '':'') i"

definition originates_from_cancelled_task :: "string list \<Rightarrow> string \<Rightarrow> bool" where
  "originates_from_cancelled_task ts i \<longleftrightarrow> list_ex (delivery_originates_from_task i) ts"

definition should_discard :: "string list \<Rightarrow> hook_delivery \<Rightarrow> bool" where
  "should_discard ts d = (case delivery_id d of None \<Rightarrow> False | Some i \<Rightarrow> originates_from_cancelled_task ts i)"

definition delivery_has_message :: "hook_delivery \<Rightarrow> bool" where
  "delivery_has_message d \<longleftrightarrow> list_ex (\<lambda>p. jget p ''message'' \<noteq> JUndef) (delivery_payloads d)"

definition accept_task_delivery :: "hook_delivery \<Rightarrow> relay \<Rightarrow> bool \<times> relay" where
  "accept_task_delivery d r = (case delivery_id d of
     None \<Rightarrow> (True, r)
   | Some i \<Rightarrow>
       if originates_from_cancelled_task (cancelled r) i then (False, r)
       else if i \<in> set (seen r) then (False, r)
       else (True, r\<lparr>seen := seen r @ [i]\<rparr>))"

definition set_add :: "'a \<Rightarrow> 'a list \<Rightarrow> 'a list" where
  "set_add x xs = (if x \<in> set xs then xs else xs @ [x])"

definition discard_task_deliveries :: "string \<Rightarrow> relay \<Rightarrow> relay" where
  "discard_task_deliveries t r = (let ts = set_add t (cancelled r) in
     r\<lparr>cancelled := ts, buffered := filter (\<lambda>d. \<not> should_discard ts d) (buffered r)\<rparr>)"

section \<open>Commands\<close>

definition log_effect :: "effect \<Rightarrow> relay \<Rightarrow> relay" where
  "log_effect e r = r\<lparr>log := log r @ [e]\<rparr>"

definition buffer_delivery :: "hook_delivery \<Rightarrow> relay \<Rightarrow> relay" where
  "buffer_delivery d r = (let r' = r\<lparr>buffered := buffered r @ [d]\<rparr> in
     if \<not> steers d \<or> \<not> delivery_has_message d then r'
     else log_effect (Forward_Cancellation False None) r')"

definition push_control :: "session_control \<Rightarrow> relay \<Rightarrow> relay" where
  "push_control c r = r\<lparr>controls := controls r @ [c]\<rparr>"

fun handle_session_command :: "session_command \<Rightarrow> relay \<Rightarrow> relay" where
  "handle_session_command (Deliver d) r =
     (let (ok, r') = accept_task_delivery d r in if ok then buffer_delivery d r' else r')"
| "handle_session_command Clear r = push_control Control_Clear r"
| "handle_session_command Compact r = push_control Control_Compact r"
| "handle_session_command Session_Timeout r = push_control Control_Expired r"
| "handle_session_command (Cancel tasks task turn) r =
     (let r1 = (if tasks then log_effect Cancel_All_Tasks r else r);
          r2 = (case task of None \<Rightarrow> r1 | Some t \<Rightarrow> discard_task_deliveries t r1);
          turn' = (if task \<noteq> None \<and> turn \<noteq> None \<and> turn \<noteq> Some (expected_turn r2) then None else turn)
      in log_effect (Forward_Cancellation tasks turn') r2)"
| "handle_session_command Reset r =
     push_control Control_Reset (log_effect (Forward_Cancellation False None) r)"

section \<open>Control payloads\<close>

definition buffer_turn_deliveries :: "hook_delivery list \<Rightarrow> relay \<Rightarrow> relay" where
  "buffer_turn_deliveries ds r =
     r\<lparr>buffered := filter (\<lambda>d. \<not> should_discard (cancelled r) d) ds @ buffered r\<rparr>"

fun read_terminal_control :: "'a control_payload \<Rightarrow> relay \<Rightarrow> ('a, relay) progress" where
  "read_terminal_control Turn_Error r = Failed"
| "read_terminal_control (Turn_Result a ds) r = Finished a (buffer_turn_deliveries ds r)"
| "read_terminal_control _ r = Running r"

definition take_input_response_delivery :: "hook_delivery list \<Rightarrow> (hook_delivery \<times> hook_delivery list) option" where
  "take_input_response_delivery ds = (case dropWhile delivery_has_message ds of
     [] \<Rightarrow> None
   | d # rest \<Rightarrow> Some (d, takeWhile delivery_has_message ds @ rest))"

definition restore :: "hook_delivery \<Rightarrow> relay \<Rightarrow> relay" where
  "restore d r = (if should_discard (cancelled r) d then r else r\<lparr>buffered := d # buffered r\<rparr>)"

definition forward_delivery :: "string \<Rightarrow> string \<Rightarrow> hook_delivery \<Rightarrow> relay \<Rightarrow> relay" where
  "forward_delivery i inbox d r = (log_effect (Forward_Delivery inbox i d) r)\<lparr>mode := Awaiting i d\<rparr>"

definition service_delivery_request :: "string \<Rightarrow> string \<Rightarrow> string \<Rightarrow> relay \<Rightarrow> relay" where
  \<comment> \<open>Up to the first read of its loop.\<close>
  "service_delivery_request token inbox i r =
     (let r1 = log_effect (Rekey token) r in
      case take_input_response_delivery (buffered r1) of
        None \<Rightarrow> r1\<lparr>mode := Serving i inbox\<rparr>
      | Some (d, rest) \<Rightarrow> forward_delivery i inbox d (r1\<lparr>buffered := rest\<rparr>))"

section \<open>The three loops\<close>

datatype 'a selected = Got_Command session_command | Got_Control "'a control_payload" | Again | Closed_Or_Error

fun next_control_or_command :: "'a event \<Rightarrow> relay \<Rightarrow> 'a selected \<times> relay" where
  "next_control_or_command Inbox_Closed r = (Closed_Or_Error, r)"
| "next_control_or_command (From_Inbox Late_Action_Result) r = (Again, r)"
| "next_control_or_command (From_Inbox Undecodable) r = (Again, log_effect Report_Dropped r)"
| "next_control_or_command (From_Inbox (Command c)) r = (Got_Command c, r)"
| "next_control_or_command Control_Closed r = (Closed_Or_Error, r)"
| "next_control_or_command (From_Control Turn_Error) r = (Closed_Or_Error, r)"
| "next_control_or_command (From_Control (Continuation_Token t)) r = (Again, log_effect (Rekey t) r)"
| "next_control_or_command (From_Control p) r = (Got_Control p, r)"

definition wait_for_action :: "'a event \<Rightarrow> relay \<Rightarrow> ('a, relay) progress" where
  "wait_for_action e r = (case next_control_or_command e r of
     (Closed_Or_Error, _) \<Rightarrow> Failed
   | (Again, r) \<Rightarrow> Running r
   | (Got_Command c, r) \<Rightarrow> Running (handle_session_command c r)
   | (Got_Control p, r) \<Rightarrow>
       (case read_terminal_control p r of
          Running r \<Rightarrow> (case p of
              Delivery_Request token inbox i \<Rightarrow> Running (service_delivery_request token inbox i r)
            | _ \<Rightarrow> Running r)
        | other \<Rightarrow> other))"

fun serve_delivery_request :: "string \<Rightarrow> string \<Rightarrow> 'a event \<Rightarrow> relay \<Rightarrow> ('a, relay) progress" where
  "serve_delivery_request i inbox Control_Closed r = Failed"
| "serve_delivery_request i inbox (From_Control (Continuation_Token t)) r = Running (log_effect (Rekey t) r)"
| "serve_delivery_request i inbox (From_Control p) r = (case read_terminal_control p r of
     Running r \<Rightarrow> Running (if p = Delivery_Cancelled i then r\<lparr>mode := Waiting\<rparr> else r)
   | other \<Rightarrow> other)"
| "serve_delivery_request i inbox Inbox_Closed r = Failed"
| "serve_delivery_request i inbox (From_Inbox Late_Action_Result) r = Running r"
| "serve_delivery_request i inbox (From_Inbox Undecodable) r = Running (log_effect Report_Dropped r)"
| "serve_delivery_request i inbox (From_Inbox (Command (Deliver d))) r =
     (let (ok, r') = accept_task_delivery d r in
      if \<not> ok then Running r'
      else if delivery_has_message d then Running (buffer_delivery d r')
      else Running (forward_delivery i inbox d r'))"
| "serve_delivery_request i inbox (From_Inbox (Command c)) r = Running (handle_session_command c r)"

definition await_forwarded_delivery :: "string \<Rightarrow> hook_delivery \<Rightarrow> 'a event \<Rightarrow> relay \<Rightarrow> ('a, relay) progress" where
  "await_forwarded_delivery i d e r = (case next_control_or_command e r of
     (Closed_Or_Error, _) \<Rightarrow> Failed
   | (Again, r) \<Rightarrow> Running r
   | (Got_Command c, r) \<Rightarrow> Running (handle_session_command c r)
   | (Got_Control p, r) \<Rightarrow>
       (case p of
          Delivery_Accepted j \<Rightarrow> Running (if j = i then r\<lparr>mode := Waiting\<rparr> else r)
        | _ \<Rightarrow>
          if p = Delivery_Cancelled i then Running ((restore d r)\<lparr>mode := Waiting\<rparr>)
          else read_terminal_control p (case p of Turn_Result _ _ \<Rightarrow> restore d r | _ \<Rightarrow> r)))"

definition relay_step :: "'a event \<Rightarrow> relay \<Rightarrow> ('a, relay) progress" where
  "relay_step e r = (case mode r of
     Waiting \<Rightarrow> wait_for_action e r
   | Serving i inbox \<Rightarrow> serve_delivery_request i inbox e r
   | Awaiting i d \<Rightarrow> await_forwarded_delivery i d e r)"

fun relay_run :: "'a event list \<Rightarrow> relay \<Rightarrow> ('a, relay) progress" where
  "relay_run [] r = Running r"
| "relay_run (e # es) r = (case relay_step e r of Running r' \<Rightarrow> relay_run es r' | other \<Rightarrow> other)"

section \<open>What a step does to the buffer\<close>

lemma should_discard_mono:
  "set ts \<subseteq> set us \<Longrightarrow> should_discard ts d \<Longrightarrow> should_discard us d"
  by (auto simp: should_discard_def originates_from_cancelled_task_def list_ex_iff split: option.splits)

lemma set_set_add [simp]: "set (set_add x xs) = insert x (set xs)"
  by (auto simp: set_add_def)

definition arrived :: "'a event \<Rightarrow> hook_delivery list" where
  "arrived e = (case e of From_Inbox (Command (Deliver d)) \<Rightarrow> [d] | _ \<Rightarrow> [])"

definition cancels :: "'a event \<Rightarrow> string list \<Rightarrow> string list" where
  "cancels e ts = (case e of From_Inbox (Command (Cancel _ (Some t) _)) \<Rightarrow> set_add t ts | _ \<Rightarrow> ts)"

definition admitted :: "'a event \<Rightarrow> relay \<Rightarrow> hook_delivery list" where
  "admitted e r = filter (\<lambda>d. fst (accept_task_delivery d r)) (arrived e)"

definition seen_by :: "'a event \<Rightarrow> relay \<Rightarrow> string list" where
  "seen_by e r = (case arrived e of [] \<Rightarrow> seen r | d # _ \<Rightarrow> seen (snd (accept_task_delivery d r)))"

definition kept :: "string list \<Rightarrow> hook_delivery list \<Rightarrow> hook_delivery list" where
  "kept ts ds = filter (\<lambda>d. \<not> should_discard ts d) ds"

definition clean :: "relay \<Rightarrow> bool" where
  "clean r \<longleftrightarrow> (\<forall>d \<in> set (buffered r). \<not> should_discard (cancelled r) d)"

lemma kept_simps [simp]:
  "kept ts [] = []" "kept ts (xs @ ys) = kept ts xs @ kept ts ys"
  "kept ts (d # ds) = (if should_discard ts d then kept ts ds else d # kept ts ds)"
  "set (kept ts xs) = {d \<in> set xs. \<not> should_discard ts d}"
  by (simp_all add: kept_def)

lemma filter_kept: "filter P (kept ts ds) = kept ts (filter P ds)"
  by (simp add: kept_def conj_commute)

lemma kept_kept: "set ts \<subseteq> set us \<Longrightarrow> kept us (kept ts ds) = kept us ds"
  by (auto simp: kept_def intro!: filter_cong dest: should_discard_mono)

lemma kept_clean [simp]: "clean r \<Longrightarrow> kept (cancelled r) (buffered r) = buffered r"
  by (simp add: kept_def clean_def filter_id_conv)

lemma log_effect_simps [simp]:
  "buffered (log_effect e r) = buffered r" "cancelled (log_effect e r) = cancelled r"
  "seen (log_effect e r) = seen r" "mode (log_effect e r) = mode r" "log (log_effect e r) = log r @ [e]"
  by (simp_all add: log_effect_def)

lemma push_control_simps [simp]:
  "buffered (push_control e r) = buffered r" "cancelled (push_control e r) = cancelled r"
  "seen (push_control e r) = seen r" "mode (push_control e r) = mode r" "log (push_control e r) = log r"
  by (simp_all add: push_control_def)

lemma buffer_delivery_simps [simp]:
  "buffered (buffer_delivery d r) = buffered r @ [d]" "cancelled (buffer_delivery d r) = cancelled r"
  "seen (buffer_delivery d r) = seen r" "mode (buffer_delivery d r) = mode r"
  "set (log r) \<subseteq> set (log (buffer_delivery d r))"
  by (auto simp: buffer_delivery_def Let_def)

lemma accept_simps [simp]:
  "buffered (snd (accept_task_delivery d r)) = buffered r" "cancelled (snd (accept_task_delivery d r)) = cancelled r"
  "mode (snd (accept_task_delivery d r)) = mode r" "log (snd (accept_task_delivery d r)) = log r"
  by (simp_all add: accept_task_delivery_def split: option.split)

lemma accept_not_discarded: "fst (accept_task_delivery d r) \<Longrightarrow> \<not> should_discard (cancelled r) d"
  by (auto simp: accept_task_delivery_def should_discard_def split: option.splits if_splits)

lemma command_step:
  assumes "clean r" and "r' = handle_session_command c r" and "e = From_Inbox (Command c)"
  shows "buffered r' = kept (cancelled r') (buffered r) @ admitted e r" and "cancelled r' = cancels e (cancelled r)"
    and "seen r' = seen_by e r" and "mode r' = mode r" and "set (log r) \<subseteq> set (log r')"
proof -
  have "buffered r' = kept (cancelled r') (buffered r) @ admitted e r \<and> cancelled r' = cancels e (cancelled r) \<and>
    seen r' = seen_by e r \<and> mode r' = mode r \<and> set (log r) \<subseteq> set (log r')"
  proof (cases c)
    case (Deliver d)
    with assms show ?thesis
      using buffer_delivery_simps(5) [of "snd (accept_task_delivery d r)" d]
      by (auto simp: Let_def case_prod_beta admitted_def arrived_def cancels_def seen_by_def)
  next
    case (Cancel tasks task turn)
    with assms show ?thesis
      by (auto simp: Let_def admitted_def arrived_def cancels_def seen_by_def discard_task_deliveries_def kept_def
          clean_def filter_id_conv split: option.split)
  qed (use assms in \<open>auto simp: admitted_def arrived_def cancels_def seen_by_def\<close>)
  then show "buffered r' = kept (cancelled r') (buffered r) @ admitted e r" and "cancelled r' = cancels e (cancelled r)"
    and "seen r' = seen_by e r" and "mode r' = mode r" and "set (log r) \<subseteq> set (log r')" by auto
qed

lemma take_input_response:
  assumes "take_input_response_delivery ds = Some (d, rest)"
  shows "\<not> delivery_has_message d" and "filter delivery_has_message rest = filter delivery_has_message ds"
    and "set ds = insert d (set rest)"
proof -
  from assms obtain tl where tl: "dropWhile delivery_has_message ds = d # tl"
    and rest: "rest = takeWhile delivery_has_message ds @ tl"
    by (auto simp: take_input_response_delivery_def split: list.splits)
  then have ds: "ds = takeWhile delivery_has_message ds @ d # tl" by (metis takeWhile_dropWhile_id)
  show d: "\<not> delivery_has_message d" using hd_dropWhile [of delivery_has_message ds] tl by auto
  show "filter delivery_has_message rest = filter delivery_has_message ds"
    by (metis ds rest d filter.simps(2) filter_append)
  show "set ds = insert d (set rest)" by (subst ds) (simp add: rest)
qed

definition tracked :: "relay \<Rightarrow> hook_delivery \<Rightarrow> bool" where
  \<comment> \<open>In the buffer, or forwarded to the turn and not yet resolved.\<close>
  "tracked r d \<longleftrightarrow> d \<in> set (buffered r) \<or>
     (\<exists>i inbox. mode r = Awaiting i d \<and> Forward_Delivery inbox i d \<in> set (log r))"

definition relay_ok :: "relay \<Rightarrow> bool" where
  \<comment> \<open>No buffered delivery is of a cancelled task; the outstanding one is a forwarded input response.\<close>
  "relay_ok r \<longleftrightarrow> clean r \<and> (case mode r of
     Awaiting i d \<Rightarrow> \<not> delivery_has_message d \<and> (\<exists>inbox. Forward_Delivery inbox i d \<in> set (log r))
   | _ \<Rightarrow> True)"

lemma relay_okD: "relay_ok r \<Longrightarrow> clean r"
  "relay_ok r \<Longrightarrow> mode r = Awaiting i d \<Longrightarrow> \<not> delivery_has_message d \<and> (\<exists>inbox. Forward_Delivery inbox i d \<in> set (log r))"
  by (auto simp: relay_ok_def)

lemma relay_ok_mode:
  "relay_ok r \<Longrightarrow> clean r' \<Longrightarrow> mode r' = mode r \<or> (\<forall>i d. mode r' \<noteq> Awaiting i d) \<Longrightarrow>
     set (log r) \<subseteq> set (log r') \<Longrightarrow> relay_ok r'"
  by (cases "mode r'") (auto simp: relay_ok_def split: mode.splits)

definition stepped :: "'a event \<Rightarrow> relay \<Rightarrow> relay \<Rightarrow> bool" where
  "stepped e r r' \<longleftrightarrow> relay_ok r' \<and> cancelled r' = cancels e (cancelled r) \<and> seen r' = seen_by e r \<and>
     set (log r) \<subseteq> set (log r') \<and>
     filter delivery_has_message (buffered r') =
       filter delivery_has_message (kept (cancelled r') (buffered r) @ admitted e r) \<and>
     (\<forall>d. \<not> should_discard (cancelled r') d \<longrightarrow> tracked r d \<or> d \<in> set (admitted e r) \<longrightarrow>
        tracked r' d \<or> (\<exists>i inbox. e = From_Control (Delivery_Accepted i) \<and>
          Forward_Delivery inbox i d \<in> set (log r')))"

lemma cancels_sub: "set ts \<subseteq> set (cancels e ts)"
  by (auto simp: cancels_def split: event.split inbox_read.split session_command.split option.split)

lemma admitted_clean: "d \<in> set (admitted e r) \<Longrightarrow> cancels e (cancelled r) = cancelled r \<and> \<not> should_discard (cancelled r) d"
  by (auto simp: admitted_def arrived_def cancels_def dest: accept_not_discarded
      split: event.splits inbox_read.splits session_command.splits)

lemma command_stepped:
  assumes "relay_ok r" and "r' = handle_session_command c r" and "e = From_Inbox (Command c)"
  shows "stepped e r r'"
proof -
  note c = command_step [OF relay_okD(1) [OF assms(1)] assms(2,3)]
  have "clean r'" unfolding clean_def c(1) using admitted_clean [of _ e r] by (auto simp: c(2))
  with relay_ok_mode [OF assms(1)] c have "relay_ok r'" by blast
  with c show ?thesis by (auto simp: stepped_def tracked_def)
qed

lemma silent_stepped:
  \<comment> \<open>A step that at most logs.\<close>
  assumes "relay_ok r" and "arrived e = []" and "cancels e (cancelled r) = cancelled r"
    and "buffered r' = buffered r" "cancelled r' = cancelled r" "seen r' = seen r"
    "set (log r) \<subseteq> set (log r')" "mode r' = mode r \<or> (\<forall>i d. mode r \<noteq> Awaiting i d \<and> mode r' \<noteq> Awaiting i d)"
  shows "stepped e r r'"
proof -
  have cl: "clean r" "clean r'" using relay_okD(1) [OF assms(1)] assms(4,5) by (simp_all add: clean_def)
  with relay_ok_mode [OF assms(1)] assms have "relay_ok r'" by blast
  moreover have "filter delivery_has_message (buffered r') =
      filter delivery_has_message (kept (cancelled r') (buffered r) @ admitted e r)"
    using cl assms by (simp add: admitted_def)
  moreover have "tracked r d \<Longrightarrow> tracked r' d" for d
    using assms by (auto simp: tracked_def)
  ultimately show ?thesis using assms by (auto simp: stepped_def admitted_def seen_by_def)
qed

lemma forward_simps [simp]:
  "buffered (forward_delivery i inbox d r) = buffered r" "cancelled (forward_delivery i inbox d r) = cancelled r"
  "seen (forward_delivery i inbox d r) = seen r" "mode (forward_delivery i inbox d r) = Awaiting i d"
  "log (forward_delivery i inbox d r) = log r @ [Forward_Delivery inbox i d]"
  by (simp_all add: forward_delivery_def)

lemma service_stepped:
  assumes "relay_ok r" and "\<forall>i d. mode r \<noteq> Awaiting i d" and "e = From_Control (Delivery_Request token inbox i)"
  shows "stepped e r (service_delivery_request token inbox i r)"
proof (cases "take_input_response_delivery (buffered r)")
  case None
  then show ?thesis
    using assms by (intro silent_stepped) (auto simp: service_delivery_request_def Let_def arrived_def cancels_def)
next
  case (Some p)
  obtain d rest where p: "p = (d, rest)" by fastforce
  note t = take_input_response [OF Some [unfolded p]]
  have cl: "clean r" by (rule relay_okD(1) [OF assms(1)])
  then have "relay_ok (service_delivery_request token inbox i r)"
    using t by (auto simp: service_delivery_request_def Let_def Some p clean_def relay_ok_def)
  with assms t cl show ?thesis
    by (auto simp: stepped_def service_delivery_request_def Let_def Some p cancels_def seen_by_def arrived_def
        admitted_def tracked_def)
qed

lemma restore_simps [simp]:
  "cancelled (restore d r) = cancelled r" "seen (restore d r) = seen r" "log (restore d r) = log r"
  "mode (restore d r) = mode r" "buffered (restore d r) = kept (cancelled r) [d] @ buffered r"
  by (simp_all add: restore_def)

lemma next_events:
  assumes "next_control_or_command e r = (sel, r1)"
  shows "buffered r1 = buffered r" "cancelled r1 = cancelled r" "seen r1 = seen r" "mode r1 = mode r"
    "set (log r) \<subseteq> set (log r1)"
    "sel = Got_Command c \<Longrightarrow> e = From_Inbox (Command c) \<and> r1 = r"
    "sel = Got_Control p \<Longrightarrow> e = From_Control p \<and> r1 = r"
    "sel = Again \<Longrightarrow> arrived e = [] \<and> cancels e (cancelled r) = cancelled r"
  using assms by (cases "(e, r)" rule: next_control_or_command.cases; auto simp: arrived_def cancels_def)+

lemma control_not_command [simp]: "arrived (From_Control p) = []" "cancels (From_Control p) ts = ts"
  by (simp_all add: arrived_def cancels_def)

lemma terminal_running: "read_terminal_control p r = Running r' \<Longrightarrow> r' = r"
  by (cases p) auto

lemma wait_stepped:
  assumes "relay_ok r" and "mode r = Waiting" and "wait_for_action e r = Running r'"
  shows "stepped e r r'"
proof -
  obtain sel r1 where n: "next_control_or_command e r = (sel, r1)" by fastforce
  note ev = next_events [OF n]
  show ?thesis
  proof (cases sel)
    case (Got_Command c)
    with assms n ev(6) show ?thesis by (intro command_stepped) (auto simp: wait_for_action_def)
  next
    case Again
    with assms n ev show ?thesis by (intro silent_stepped) (auto simp: wait_for_action_def)
  next
    case (Got_Control p)
    with ev(7) have e: "e = From_Control p" "r1 = r" by auto
    show ?thesis
    proof (cases "\<exists>token inbox i. p = Delivery_Request token inbox i")
      case True
      with assms n Got_Control e show ?thesis
        by (auto simp: wait_for_action_def intro!: service_stepped)
    next
      case False
      with assms n Got_Control e have "r' = r"
        by (auto simp: wait_for_action_def dest: terminal_running
            split: progress.splits control_payload.splits)
      with assms e show ?thesis by (intro silent_stepped) auto
    qed
  qed (use assms n in \<open>simp add: wait_for_action_def\<close>)
qed

lemma serve_stepped:
  assumes "relay_ok r" and "mode r = Serving i inbox" and "serve_delivery_request i inbox e r = Running r'"
  shows "stepped e r r'"
proof (cases e)
  case (From_Control p)
  with assms show ?thesis
    by (cases p; intro silent_stepped) (auto split: if_splits)
next
  case (From_Inbox c)
  show ?thesis
  proof (cases c)
    case (Command sc)
    show ?thesis
    proof (cases "\<exists>d. sc = Deliver d \<and> \<not> delivery_has_message d \<and> fst (accept_task_delivery d r)")
      case False
      with assms From_Inbox Command show ?thesis
        by (intro command_stepped [of r r' sc]) (cases sc; auto simp: Let_def case_prod_beta split: if_splits)+
    next
      case True
      then obtain d where d: "sc = Deliver d" "\<not> delivery_has_message d" "fst (accept_task_delivery d r)" by blast
      with assms From_Inbox Command have "r' = forward_delivery i inbox d (snd (accept_task_delivery d r))"
        by (auto simp: Let_def case_prod_beta)
      with d assms From_Inbox Command show ?thesis
        using relay_okD(1) [OF assms(1)]
        by (auto simp: stepped_def relay_ok_def clean_def tracked_def admitted_def arrived_def cancels_def seen_by_def)
    qed
  qed (use assms From_Inbox in \<open>auto simp: arrived_def cancels_def intro!: silent_stepped\<close>)
qed (use assms in auto)

lemma await_stepped:
  assumes "relay_ok r" and "mode r = Awaiting i d" and "await_forwarded_delivery i d e r = Running r'"
  shows "stepped e r r'"
proof -
  have cl: "clean r" and out: "\<not> delivery_has_message d" "\<exists>inbox. Forward_Delivery inbox i d \<in> set (log r)"
    using relay_okD [OF assms(1)] assms(2) by blast+
  obtain sel r1 where n: "next_control_or_command e r = (sel, r1)" by fastforce
  note ev = next_events [OF n]
  show ?thesis
  proof (cases sel)
    case (Got_Command c)
    with assms n ev(6) show ?thesis by (intro command_stepped) (auto simp: await_forwarded_delivery_def)
  next
    case Again
    with assms n ev show ?thesis by (intro silent_stepped) (auto simp: await_forwarded_delivery_def)
  next
    case (Got_Control p)
    with ev(7) have e: "e = From_Control p" "r1 = r" by auto
    note step = assms(3) [unfolded await_forwarded_delivery_def n Got_Control e, simplified]
    consider "p = Delivery_Accepted i" | "p = Delivery_Cancelled i"
      | "p \<noteq> Delivery_Accepted i" "p \<noteq> Delivery_Cancelled i" by blast
    then show ?thesis
    proof cases
      case 1
      with step assms(2) e cl out show ?thesis
        by (auto simp: stepped_def relay_ok_def clean_def tracked_def admitted_def seen_by_def)
    next
      case 2
      with step assms(2) e cl out show ?thesis
        by (auto simp: stepped_def relay_ok_def clean_def tracked_def admitted_def seen_by_def
            split: if_splits)
    next
      case 3
      with step n Got_Control e have "r' = r" by (cases p) auto
      with assms e show ?thesis by (intro silent_stepped) auto
    qed
  qed (use assms n in \<open>simp add: await_forwarded_delivery_def\<close>)
qed

lemma relay_stepped:
  "relay_ok r \<Longrightarrow> relay_step e r = Running r' \<Longrightarrow> stepped e r r'"
  by (cases "mode r") (auto simp: relay_step_def intro: wait_stepped serve_stepped await_stepped)

section \<open>Runs\<close>

definition arrivals :: "'a event list \<Rightarrow> hook_delivery list" where
  "arrivals es = concat (map arrived es)"

fun fresh :: "string list \<Rightarrow> hook_delivery list \<Rightarrow> hook_delivery list" where
  \<comment> \<open>The specification of admission: a task delivery counts once.\<close>
  "fresh known [] = []"
| "fresh known (d # ds) = (case delivery_id d of
     None \<Rightarrow> d # fresh known ds
   | Some i \<Rightarrow> if i \<in> set known then fresh known ds else d # fresh (known @ [i]) ds)"

lemma fresh_cong:
  assumes "\<And>i. \<not> originates_from_cancelled_task ts i \<Longrightarrow> i \<in> set xs \<longleftrightarrow> i \<in> set ys"
  shows "kept ts (fresh xs ds) = kept ts (fresh ys ds)"
  using assms
proof (induction ds arbitrary: xs ys)
  case (Cons d ds)
  show ?case
  proof (cases "delivery_id d")
    case None
    with Cons.IH [OF Cons.prems] show ?thesis by simp
  next
    case (Some i)
    have eq: "kept ts (fresh (xs @ [i]) ds) = kept ts (fresh (ys @ [i]) ds)"
      by (rule Cons.IH) (simp add: Cons.prems)
    show ?thesis
    proof (cases "originates_from_cancelled_task ts i")
      case False
      then have "i \<in> set xs \<longleftrightarrow> i \<in> set ys" by (rule Cons.prems)
      moreover have "kept ts (fresh xs ds) = kept ts (fresh ys ds)" by (rule Cons.IH [OF Cons.prems])
      ultimately show ?thesis using eq Some by simp
    next
      case True
      have "kept ts (fresh xs ds) = kept ts (fresh ys ds)" by (rule Cons.IH [OF Cons.prems])
      moreover have "kept ts (fresh (xs @ [i]) ds) = kept ts (fresh xs ds)"
        "kept ts (fresh (ys @ [i]) ds) = kept ts (fresh ys ds)"
        by (rule Cons.IH; use True in force)+
      ultimately show ?thesis using True Some by (simp add: should_discard_def)
    qed
  qed
qed simp

lemma admitted_fresh:
  assumes "set (cancelled r) \<subseteq> set ts"
  shows "kept ts (admitted e r @ fresh (seen_by e r) ds) = kept ts (fresh (seen r) (arrived e @ ds))"
proof (cases "arrived e")
  case (Cons d tl)
  then have tl: "arrived e = [d]"
    by (auto simp: arrived_def split: event.splits inbox_read.splits session_command.splits)
  show ?thesis
  proof (cases "delivery_id d")
    case (Some i)
    show ?thesis
    proof (cases "originates_from_cancelled_task (cancelled r) i")
      case True
      then have "originates_from_cancelled_task ts i"
        using assms by (auto simp: originates_from_cancelled_task_def list_ex_iff)
      then have "kept ts (fresh (seen r @ [i]) ds) = kept ts (fresh (seen r) ds)" "should_discard ts d"
        by (auto intro!: fresh_cong simp: should_discard_def Some)
      with True Some tl show ?thesis
        by (simp add: admitted_def seen_by_def accept_task_delivery_def)
    qed (simp add: admitted_def seen_by_def accept_task_delivery_def tl Some)
  qed (simp add: admitted_def seen_by_def accept_task_delivery_def tl)
qed (simp add: admitted_def seen_by_def)

lemma kept_filter_eq: "kept ts xs = kept ts ys \<Longrightarrow> kept ts (filter P xs) = kept ts (filter P ys)"
  by (metis filter_kept)

lemma run_messages:
  assumes "relay_run es r = Running r'" and "relay_ok r"
  shows "relay_ok r' \<and> set (cancelled r) \<subseteq> set (cancelled r') \<and>
    filter delivery_has_message (buffered r') =
      kept (cancelled r') (filter delivery_has_message (buffered r @ fresh (seen r) (arrivals es)))"
  using assms
proof (induction es arbitrary: r)
  case Nil
  then show ?case using relay_okD(1) [of r'] by (simp add: arrivals_def flip: filter_kept)
next
  case (Cons e es)
  then obtain r1 where step: "relay_step e r = Running r1" and run: "relay_run es r1 = Running r'"
    by (auto split: progress.splits)
  from relay_stepped [OF Cons.prems(2) step] have ok: "relay_ok r1"
    and c1: "cancelled r1 = cancels e (cancelled r)" and s1: "seen r1 = seen_by e r"
    and b1: "filter delivery_has_message (buffered r1) =
       filter delivery_has_message (kept (cancelled r1) (buffered r) @ admitted e r)"
    by (auto simp: stepped_def)
  from Cons.IH [OF run ok] have ok': "relay_ok r'" and sub: "set (cancelled r1) \<subseteq> set (cancelled r')"
    and b': "filter delivery_has_message (buffered r') =
      kept (cancelled r') (filter delivery_has_message (buffered r1 @ fresh (seen r1) (arrivals es)))" by auto
  have sub': "set (cancelled r) \<subseteq> set (cancelled r')" using sub cancels_sub [of "cancelled r" e] c1 by auto
  have "kept (cancelled r') (filter delivery_has_message (kept (cancelled r1) (buffered r))) =
      kept (cancelled r') (filter delivery_has_message (buffered r))"
    using kept_filter_eq [OF kept_kept [OF sub]] .
  moreover have "kept (cancelled r') (filter delivery_has_message (admitted e r @ fresh (seen_by e r) (arrivals es))) =
      kept (cancelled r') (filter delivery_has_message (fresh (seen r) (arrived e @ arrivals es)))"
    by (rule kept_filter_eq [OF admitted_fresh [OF sub']])
  ultimately show ?case
    using ok' sub' by (simp add: b' b1 s1 arrivals_def)
qed

lemma turn_result_step:
  assumes "relay_ok r"
  shows "\<exists>r'. relay_step (From_Control (Turn_Result a ds)) r = Finished a r' \<and> cancelled r' = cancelled r \<and>
    log r' = log r \<and>
    filter delivery_has_message (buffered r') =
      kept (cancelled r) (filter delivery_has_message ds) @ filter delivery_has_message (buffered r) \<and>
    (\<forall>d. tracked r d \<longrightarrow> \<not> should_discard (cancelled r) d \<longrightarrow> d \<in> set (buffered r'))"
proof (cases "mode r")
  case (Awaiting i d)
  with relay_okD(2) [OF assms this] show ?thesis
    by (auto simp: relay_step_def await_forwarded_delivery_def buffer_turn_deliveries_def kept_def tracked_def conj_commute)
qed (auto simp: relay_step_def wait_for_action_def buffer_turn_deliveries_def kept_def tracked_def conj_commute)

lemma run_append: "relay_run es r = Running r1 \<Longrightarrow> relay_run (es @ fs) r = relay_run fs r1"
  by (induction es arbitrary: r) (auto split: progress.splits)

definition taken_by_turn :: "'a event list \<Rightarrow> relay \<Rightarrow> hook_delivery \<Rightarrow> bool" where
  \<comment> \<open>The delivery was forwarded to the turn for a request that the turn has accepted.\<close>
  "taken_by_turn es r d \<longleftrightarrow> (\<exists>i inbox. From_Control (Delivery_Accepted i) \<in> set es \<and>
     Forward_Delivery inbox i d \<in> set (log r))"

lemma run_tracks:
  assumes "relay_run es r = Running r'" and "relay_ok r"
    and "tracked r d \<or> d \<in> set (fresh (seen r) (arrivals es))" and "\<not> should_discard (cancelled r') d"
  shows "tracked r' d \<or> taken_by_turn es r' d"
  using assms
proof (induction es arbitrary: r)
  case (Cons e es)
  then obtain r1 where step: "relay_step e r = Running r1" and run: "relay_run es r1 = Running r'"
    by (auto split: progress.splits)
  note st = relay_stepped [OF Cons.prems(2) step, unfolded stepped_def]
  then have ok: "relay_ok r1" by blast
  from run_messages [OF run ok] have sub: "set (cancelled r1) \<subseteq> set (cancelled r')" by blast
  then have keep1: "\<not> should_discard (cancelled r1) d" using Cons.prems(4) should_discard_mono by blast
  have sub': "set (cancelled r) \<subseteq> set (cancelled r')" using sub cancels_sub [of "cancelled r" e] st by auto
  have "tracked r d \<or> d \<in> set (admitted e r) \<or> d \<in> set (fresh (seen r1) (arrivals es))"
  proof (cases "tracked r d")
    case False
    with Cons.prems(3) have "d \<in> set (fresh (seen r) (arrived e @ arrivals es))" by (simp add: arrivals_def)
    with Cons.prems(4) have "d \<in> set (kept (cancelled r') (fresh (seen r) (arrived e @ arrivals es)))" by simp
    with st show ?thesis unfolding admitted_fresh [OF sub', symmetric] by auto
  qed simp
  with st keep1 consider "tracked r1 d \<or> d \<in> set (fresh (seen r1) (arrivals es))"
    | i inbox where "e = From_Control (Delivery_Accepted i)" "Forward_Delivery inbox i d \<in> set (log r1)" by blast
  then show ?case
  proof cases
    case 1
    from Cons.IH [OF run ok 1 Cons.prems(4)] show ?thesis by (auto simp: taken_by_turn_def)
  next
    case 2
    have "set (log r1) \<subseteq> set (log r')" using run ok
    proof (induction es arbitrary: r1)
      case (Cons f fs)
      then obtain r2 where "relay_step f r1 = Running r2" "relay_run fs r2 = Running r'"
        by (auto split: progress.splits)
      with Cons relay_stepped [of r1 f r2] show ?case by (force simp: stepped_def)
    qed simp
    with 2 show ?thesis by (auto simp: taken_by_turn_def)
  qed
qed (simp add: arrivals_def)

section \<open>A whole turn\<close>

lemma run_then_result:
  assumes "relay_run es r = Running r1" and "relay_ok r"
  shows "\<exists>r'. relay_run (es @ [From_Control (Turn_Result a ds)]) r = Finished a r' \<and> cancelled r' = cancelled r1 \<and>
    log r' = log r1 \<and>
    filter delivery_has_message (buffered r') =
      kept (cancelled r1) (filter delivery_has_message ds) @ filter delivery_has_message (buffered r1) \<and>
    (\<forall>d. tracked r1 d \<longrightarrow> \<not> should_discard (cancelled r1) d \<longrightarrow> d \<in> set (buffered r'))"
proof -
  have "relay_ok r1" using run_messages [OF assms] by blast
  from turn_result_step [OF this, of a ds] show ?thesis
    by (auto simp: run_append [OF assms(1)])
qed

definition plain_delivery :: "json \<Rightarrow> hook_delivery" where
  "plain_delivery p = \<lparr>delivery_auth = None, delivery_caller = None, delivery_metadata = [], delivery_payloads = [p],
     delivery_rest = JUndef, task_delivery_id = None, steers = False\<rparr>"

definition hello :: hook_delivery where
  "hello = plain_delivery (JObj [(''message'', JStr ''hello'')])"

definition answer :: hook_delivery where
  "answer = plain_delivery (JObj [(''inputResponses'', JArr [])])"

definition new_relay :: relay where
  "new_relay = \<lparr>buffered = [], controls = [], cancelled = [], seen = [], log = [], expected_turn = ''turn1'', mode = Waiting\<rparr>"

definition busy_turn :: "nat event list" where
  "busy_turn = [From_Inbox (Command (Deliver hello)), From_Control (Delivery_Request ''tok'' ''inbox1'' ''r1''),
     From_Inbox (Command (Deliver answer)), From_Control (Delivery_Accepted ''r1'')]"

lemma hello_answer [simp]:
  "delivery_has_message hello" "\<not> delivery_has_message answer" "delivery_id hello = None" "delivery_id answer = None"
  "\<not> should_discard ts hello" "\<not> should_discard ts answer" "\<not> steers hello" "\<not> steers answer"
  by (simp_all add: hello_def answer_def plain_delivery_def delivery_has_message_def delivery_id_def nullish_def
      should_discard_def)

lemma new_relay_ok: "relay_ok new_relay"
  by (simp add: relay_ok_def clean_def new_relay_def)

lemma busy_turn_runs: "\<exists>r. relay_run busy_turn new_relay = Running r"
  by (simp add: busy_turn_def relay_step_def wait_for_action_def new_relay_def accept_task_delivery_def
      buffer_delivery_def service_delivery_request_def take_input_response_delivery_def log_effect_def forward_delivery_def
      await_forwarded_delivery_def Let_def)

text \<open>
  C33: no user message is lost, duplicated or reordered by the relay. Whatever the order in which the
  turn's control channel and the session inbox deliver, when the turn reports its result the
  message-carrying deliveries in the buffer are exactly: the ones the turn gives back, then the ones
  that were buffered when it started, then the ones that arrived, in order of arrival, each task delivery
  once, without those of cancelled tasks.
\<close>
theorem relayed_messages_in_order:
  assumes "relay_run es r = Running r1" and "relay_ok r"
  shows "\<exists>r'. relay_run (es @ [From_Control (Turn_Result a ds)]) r = Finished a r' \<and>
    filter delivery_has_message (buffered r') =
      kept (cancelled r') (filter delivery_has_message (ds @ buffered r @ fresh (seen r) (arrivals es)))"
  using run_then_result [OF assms, of a ds] run_messages [OF assms] by auto

lemma relayed_messages_in_order_witness:
  "\<exists>r'. relay_run (busy_turn @ [From_Control (Turn_Result 0 [])]) new_relay = Finished 0 r' \<and>
     filter delivery_has_message (buffered r') = [hello]"
proof -
  obtain r1 where "relay_run busy_turn new_relay = Running r1" using busy_turn_runs by blast
  from relayed_messages_in_order [OF this new_relay_ok, of 0 "[]"] show ?thesis
    by (simp add: arrivals_def busy_turn_def arrived_def new_relay_def)
qed

text \<open>
  C34: an input response is never lost between the session and its turn. A delivery that was buffered at
  the start or arrives during the turn, and is not of a cancelled task, is in the buffer when the turn has
  reported its result, or it was forwarded to the turn for a request that the turn accepted.
\<close>
theorem relayed_responses_not_lost:
  assumes "relay_run es r = Running r1" and "relay_ok r"
    and "d \<in> set (buffered r @ fresh (seen r) (arrivals es))" and "\<not> should_discard (cancelled r1) d"
  shows "\<exists>r'. relay_run (es @ [From_Control (Turn_Result a ds)]) r = Finished a r' \<and>
    (d \<in> set (buffered r') \<or> taken_by_turn es r' d)"
proof -
  have "tracked r d \<or> d \<in> set (fresh (seen r) (arrivals es))" using assms(3) by (auto simp: tracked_def)
  from run_tracks [OF assms(1,2) this assms(4)] run_then_result [OF assms(1,2), of a ds] assms(4)
  show ?thesis by (auto simp: taken_by_turn_def)
qed

lemma relayed_responses_not_lost_witness:
  "\<exists>r'. relay_run (busy_turn @ [From_Control (Turn_Result 0 [])]) new_relay = Finished 0 r' \<and>
     (answer \<in> set (buffered r') \<or> taken_by_turn busy_turn r' answer)"
proof -
  obtain r1 where r1: "relay_run busy_turn new_relay = Running r1" using busy_turn_runs by blast
  have "answer \<in> set (buffered new_relay @ fresh (seen new_relay) (arrivals busy_turn))"
    by (simp add: arrivals_def busy_turn_def arrived_def new_relay_def)
  from relayed_responses_not_lost [OF r1 new_relay_ok this] show ?thesis by simp
qed

end
