(* ===== verification/Parked_Wait.thy ===== *)
theory Parked_Wait
  imports Delivery_Relay
begin

text \<open>
  The driver's wait while no turn runs (\<open>execution/parked-delivery-wait.ts\<close>). The reads of the command
  inbox are a list, in the order the inbox offers them, each with the hook family it came from; a run
  that uses up its reads is still parked. Routing a delivery to the children is a chain of durable steps
  and a parameter, as is whether an authorization read is ready when the wait starts.
\<close>

section \<open>Taking a turn from the buffer\<close>

fun turn_partition ::
  "bool \<Rightarrow> json option \<Rightarrow> hook_delivery list \<Rightarrow> hook_delivery list \<times> hook_delivery list" where
  \<comment> \<open>The deliveries that join the first one, and the rest; \<open>caller\<close> is the caller so far.\<close>
  "turn_partition first_is_task caller [] = ([], [])"
| "turn_partition first_is_task caller (d # ds) =
     (if first_is_task \<or> task_delivery_id d \<noteq> None \<or> (caller \<noteq> None \<and> delivery_caller d \<noteq> None)
      then ([], d # ds)
      else (let (taken, rest) = turn_partition first_is_task (nullish caller (delivery_caller d)) ds
            in (d # taken, rest)))"

definition take_buffered_turn_delivery ::
  "hook_delivery list \<Rightarrow> delivery_error + (hook_delivery \<times> hook_delivery list)" where
  "take_buffered_turn_delivery ds = (case ds of
     [] \<Rightarrow> Inl EmptyBatch
   | first # others \<Rightarrow>
       (let (taken, rest) = turn_partition (task_delivery_id first \<noteq> None) (delivery_caller first) others
        in bindR (coalesce_deliveries (first # taken)) (\<lambda>d. Inr (d, rest))))"

section \<open>The next session action\<close>

datatype parked_read =
  Authorization_Closed
| Authorization "json list"
| Session_Closed
| Session inbox_read

datatype next_action =
  Next_Control session_control
| Next_Authorization bool "json list"
| Next_Delivery "hook_delivery option"

definition cancel_while_parked :: "bool \<Rightarrow> string option \<Rightarrow> mailbox \<Rightarrow> mailbox" where
  "cancel_while_parked tasks task m =
     (let m1 = (if tasks then m\<lparr>log := log m @ [Cancel_All_Tasks]\<rparr> else m)
      in case task of None \<Rightarrow> m1 | Some t \<Rightarrow>
           (let ts = set_add t (cancelled m1) in
            m1\<lparr>cancelled := ts, buffered := filter (\<lambda>d. \<not> should_discard ts d) (buffered m1)\<rparr>))"

fun read_next_action ::
  "bool \<Rightarrow> parked_read list \<Rightarrow> mailbox \<Rightarrow> next_action option \<times> parked_read list \<times> mailbox" where
  "read_next_action hold [] m = (None, [], m)"
| "read_next_action hold (Authorization_Closed # xs) m = (Some (Next_Authorization True []), xs, m)"
| "read_next_action hold (Authorization ps # xs) m = (Some (Next_Authorization False ps), xs, m)"
| "read_next_action hold (Session_Closed # xs) m = (Some (Next_Delivery None), xs, m)"
| "read_next_action hold (Session Late_Action_Result # xs) m = read_next_action hold xs m"
| "read_next_action hold (Session Undecodable # xs) m =
     read_next_action hold xs (m\<lparr>log := log m @ [Report_Dropped]\<rparr>)"
| "read_next_action hold (Session (Command Session_Timeout) # xs) m = (Some (Next_Control Control_Expired), xs, m)"
| "read_next_action hold (Session (Command Clear) # xs) m = (Some (Next_Control Control_Clear), xs, m)"
| "read_next_action hold (Session (Command Compact) # xs) m = (Some (Next_Control Control_Compact), xs, m)"
| "read_next_action hold (Session (Command Reset) # xs) m = (Some (Next_Control Control_Reset), xs, m)"
| "read_next_action hold (Session (Command (Cancel tasks task turn)) # xs) m =
     read_next_action hold xs (cancel_while_parked tasks task m)"
| "read_next_action hold (Session (Command (Deliver d)) # xs) m =
     (let deliver = (\<lambda>m. if hold then read_next_action hold xs (m\<lparr>buffered := buffered m @ [d]\<rparr>)
            else (Some (Next_Delivery (Some d)), xs, m))
      in case delivery_id d of
           None \<Rightarrow> deliver m
         | Some i \<Rightarrow>
             if originates_from_cancelled_task (cancelled m) i then read_next_action hold xs m
             else if i \<in> set (seen m) then read_next_action hold xs m
             else deliver (m\<lparr>seen := seen m @ [i]\<rparr>))"

definition wait_for_next_session_action ::
  "bool \<Rightarrow> bool \<Rightarrow> parked_read list \<Rightarrow> mailbox \<Rightarrow>
     delivery_error + next_action option \<times> parked_read list \<times> mailbox" where
  "wait_for_next_session_action hold ready reads m = (case controls m of
     c # cs \<Rightarrow> Inr (Some (Next_Control c), reads, m\<lparr>controls := cs\<rparr>)
   | [] \<Rightarrow>
       (let m1 = m\<lparr>buffered := dropWhile (should_discard (cancelled m)) (buffered m)\<rparr> in
        if \<not> hold \<and> \<not> ready \<and> buffered m1 \<noteq> [] then
          bindR (take_buffered_turn_delivery (buffered m1)) (\<lambda>(d, rest).
            Inr (Some (Next_Delivery (Some d)), reads, m1\<lparr>buffered := rest\<rparr>))
        else Inr (read_next_action hold reads m1)))"

section \<open>The next turn\<close>

datatype 's routed = Routed_Cancel 's | Routed "hook_delivery option" 's

datatype turn_instruction =
  Turn_Control session_control
| Turn_Closed
| Turn_Cancel
| Turn_Authorization bool "json list"
| Turn_Run hook_delivery

lemma read_cases:
  obtains "x = Authorization_Closed" | ps where "x = Authorization ps" | "x = Session_Closed"
  | "x = Session Late_Action_Result" | "x = Session Undecodable"
  | d where "x = Session (Command (Deliver d))"
  | tasks task turn where "x = Session (Command (Cancel tasks task turn))"
  | "x = Session (Command Clear)" | "x = Session (Command Compact)"
  | "x = Session (Command Session_Timeout)" | "x = Session (Command Reset)"
  by (metis inbox_read.exhaust parked_read.exhaust session_command.exhaust)

lemma held_no_delivery: "fst (read_next_action True reads m) \<noteq> Some (Next_Delivery (Some d))"
proof (induction reads arbitrary: m)
  case (Cons x xs)
  then show ?case by (cases x rule: read_cases) (simp_all add: Let_def split: option.split)
qed simp

lemma read_delivery_shorter:
  "read_next_action hold reads m = (Some (Next_Delivery (Some d)), rest, m') \<Longrightarrow>
     length rest < length reads \<and> length (buffered m') \<le> length (buffered m)"
proof (induction reads arbitrary: m)
  case (Cons x xs)
  have hold: "\<not> hold" using Cons.prems held_no_delivery [of "x # xs" m d] by (cases hold) auto
  show ?case
  proof (cases x rule: read_cases)
    case (7 tasks task turn)
    have "length (buffered (cancel_while_parked tasks task m)) \<le> length (buffered m)"
      by (simp add: cancel_while_parked_def Let_def split: option.split)
    with Cons.prems 7 Cons.IH [of "cancel_while_parked tasks task m"] show ?thesis by simp
  qed (use Cons hold in \<open>force simp: Let_def split: option.splits if_splits\<close>)+
qed simp

lemma partition_length: "turn_partition f c ds = (taken, rest) \<Longrightarrow> length rest \<le> length ds"
  by (induction f c ds arbitrary: taken rule: turn_partition.induct)
    (force simp: Let_def split: if_splits prod.splits)+

lemma take_shorter: "take_buffered_turn_delivery ds = Inr (d, rest) \<Longrightarrow> length rest < length ds"
  by (auto simp: take_buffered_turn_delivery_def Let_def split: list.splits prod.splits dest!: partition_length)

lemma wait_shorter:
  assumes "wait_for_next_session_action hold ready reads m = Inr (Some (Next_Delivery (Some d)), rest, m')"
  shows "length rest + length (buffered m') < length reads + length (buffered m)"
proof -
  have le: "length (dropWhile P xs) \<le> length xs" for P and xs :: "hook_delivery list"
    by (induction xs) auto
  show ?thesis
    using assms le [of "should_discard (cancelled m)" "buffered m"] read_delivery_shorter take_shorter
    by (fastforce simp: wait_for_next_session_action_def Let_def split: list.splits if_splits)
qed

function next_turn_delivery ::
  "(parked_read list \<Rightarrow> bool) \<Rightarrow> (hook_delivery \<Rightarrow> 's \<Rightarrow> 's routed) \<Rightarrow> bool \<Rightarrow> parked_read list \<Rightarrow> mailbox \<Rightarrow> 's \<Rightarrow>
     delivery_error + turn_instruction option \<times> parked_read list \<times> mailbox \<times> 's" where
  "next_turn_delivery ready route_children hold reads m s =
     (case wait_for_next_session_action hold (ready reads) reads m of
        Inl e \<Rightarrow> Inl e
      | Inr (None, rest, m') \<Rightarrow> Inr (None, rest, m', s)
      | Inr (Some (Next_Authorization c ps), rest, m') \<Rightarrow> Inr (Some (Turn_Authorization c ps), rest, m', s)
      | Inr (Some (Next_Control c), rest, m') \<Rightarrow> Inr (Some (Turn_Control c), rest, m', s)
      | Inr (Some (Next_Delivery None), rest, m') \<Rightarrow> Inr (Some Turn_Closed, rest, m', s)
      | Inr (Some (Next_Delivery (Some d)), rest, m') \<Rightarrow>
          (case route_children d s of
             Routed_Cancel s' \<Rightarrow> Inr (Some Turn_Cancel, rest, m', s')
           | Routed (Some d') s' \<Rightarrow> Inr (Some (Turn_Run d'), rest, m', s')
           | Routed None s' \<Rightarrow> next_turn_delivery ready route_children hold rest m' s'))"
  by pat_completeness auto
termination
  by (relation "measure (\<lambda>(ready, route_children, hold, reads, m, s). length reads + length (buffered m))")
    (auto dest: wait_shorter)

declare next_turn_delivery.simps [simp del]

section \<open>A turn's delivery\<close>

lemma partition_append: "turn_partition f c ds = (taken, rest) \<Longrightarrow> taken @ rest = ds"
  by (induction f c ds arbitrary: taken rule: turn_partition.induct)
    (force simp: Let_def split: if_splits prod.splits)+

definition joins :: "hook_delivery list \<Rightarrow> hook_delivery \<Rightarrow> bool" where
  \<comment> \<open>The specification of what may still join a turn: no task delivery on either side, and at most one
    caller.\<close>
  "joins ds d \<longleftrightarrow> task_delivery_id (hd ds) = None \<and> task_delivery_id d = None \<and>
     (delivery_caller d = None \<or> (\<forall>x \<in> set ds. delivery_caller x = None))"

lemma nullish_None [simp]: "nullish a b = None \<longleftrightarrow> a = None \<and> b = None"
  by (simp add: nullish_def split: option.split)

lemma partition_spec:
  assumes "turn_partition f c ds = (taken, rest)"
  shows "(taken \<noteq> [] \<longrightarrow> \<not> f) \<and> (\<forall>x \<in> set taken. task_delivery_id x = None) \<and>
    length (filter (\<lambda>x. delivery_caller x \<noteq> None) taken) \<le> (if c = None then 1 else 0) \<and>
    (rest \<noteq> [] \<longrightarrow> f \<or> task_delivery_id (hd rest) \<noteq> None \<or>
      (delivery_caller (hd rest) \<noteq> None \<and> (c \<noteq> None \<or> (\<exists>x \<in> set taken. delivery_caller x \<noteq> None))))"
  using assms
proof (induction f c ds arbitrary: taken rule: turn_partition.induct)
  case (2 f c d ds)
  show ?case
  proof (cases "f \<or> task_delivery_id d \<noteq> None \<or> (c \<noteq> None \<and> delivery_caller d \<noteq> None)")
    case True
    with "2.prems" show ?thesis by auto
  next
    case False
    with "2.prems" obtain tl where tl: "turn_partition f (nullish c (delivery_caller d)) ds = (tl, rest)"
      and "taken = d # tl" by (auto simp: Let_def split: prod.splits)
    with "2.IH" [OF False tl] False show ?thesis by (auto split: if_splits)
  qed
qed simp

lemma coalesce_partition:
  assumes "turn_partition f c ds = (taken, rest)" and "delivery_caller acc = c"
  shows "\<exists>d. coalesce_rest acc taken = Inr d"
  using assms
proof (induction f c ds arbitrary: taken acc rule: turn_partition.induct)
  case (2 f c d ds)
  show ?case
  proof (cases "f \<or> task_delivery_id d \<noteq> None \<or> (c \<noteq> None \<and> delivery_caller d \<noteq> None)")
    case True
    with "2.prems" show ?thesis by auto
  next
    case False
    with "2.prems" obtain tl where tl: "turn_partition f (nullish c (delivery_caller d)) ds = (tl, rest)"
      and taken: "taken = d # tl" by (auto simp: Let_def split: prod.splits)
    from False "2.prems" obtain b where b: "coalesce_delivery acc d = Inr b"
      "delivery_caller b = nullish c (delivery_caller d)"
      by (auto simp: coalesce_delivery_def nullish_def split: option.split)
    from "2.IH" [OF False tl b(2)] b(1) show ?thesis by (simp add: taken)
  qed
qed simp

lemma take_spec:
  assumes "ds \<noteq> []" and "\<forall>d \<in> set ds. wf_delivery d"
  shows "\<exists>d taken rest. take_buffered_turn_delivery ds = Inr (d, rest) \<and> ds = taken @ rest \<and> taken \<noteq> [] \<and>
    delivery_payloads d = concat (map delivery_payloads taken) \<and> tagged d = concat (map tagged taken) \<and>
    length (filter (\<lambda>x. delivery_caller x \<noteq> None) taken) \<le> 1 \<and>
    (length taken > 1 \<longrightarrow> (\<forall>x \<in> set taken. task_delivery_id x = None)) \<and>
    (rest \<noteq> [] \<longrightarrow> \<not> joins taken (hd rest))"
proof -
  from assms(1) obtain x xs where ds: "ds = x # xs" by (cases ds) auto
  obtain tl rest where p: "turn_partition (task_delivery_id x \<noteq> None) (delivery_caller x) xs = (tl, rest)"
    by fastforce
  from coalesce_partition [OF p refl] obtain d where d: "coalesce_rest x tl = Inr d" by blast
  have app: "tl @ rest = xs" by (rule partition_append [OF p])
  with assms(2) ds have wf: "wf_delivery x" "\<forall>y \<in> set tl. wf_delivery y" by auto
  have "take_buffered_turn_delivery ds = Inr (d, rest)" by (simp add: take_buffered_turn_delivery_def ds p d del: not_None_eq)
  moreover have "ds = (x # tl) @ rest" by (simp add: ds app)
  moreover from coalesce_rest_spec [OF d wf] have
    "delivery_payloads d = concat (map delivery_payloads (x # tl))" "tagged d = concat (map tagged (x # tl))" by auto
  moreover from partition_spec [OF p] have "length (filter (\<lambda>x. delivery_caller x \<noteq> None) (x # tl)) \<le> 1"
    "length (x # tl) > 1 \<longrightarrow> (\<forall>y \<in> set (x # tl). task_delivery_id y = None)"
    "rest \<noteq> [] \<longrightarrow> \<not> joins (x # tl) (hd rest)"
    by (auto simp: joins_def split: if_splits)
  ultimately show ?thesis by blast
qed

lemma hello_waits: "wf_delivery hello" "delivery_caller hello = None" "task_delivery_id hello = None"
  by (simp_all add: hello_def plain_delivery_def wf_delivery_def)

text \<open>
  C35: a parked session's next turn takes from the buffer without ever failing. It merges a prefix of the
  queued deliveries, keeps their payloads in order and every metadata entry on its payload, takes at most
  one caller's delivery, keeps a task delivery alone, and leaves a delivery in the buffer only if that one
  may not join.
\<close>
theorem parked_turn_takes_prefix:
  assumes "ds \<noteq> []" and "\<forall>d \<in> set ds. wf_delivery d"
  shows "\<exists>d taken rest. take_buffered_turn_delivery ds = Inr (d, rest) \<and> ds = taken @ rest \<and> taken \<noteq> [] \<and>
    delivery_payloads d = concat (map delivery_payloads taken) \<and> tagged d = concat (map tagged taken) \<and>
    length (filter (\<lambda>x. delivery_caller x \<noteq> None) taken) \<le> 1 \<and>
    (length taken > 1 \<longrightarrow> (\<forall>x \<in> set taken. task_delivery_id x = None)) \<and>
    (rest \<noteq> [] \<longrightarrow> \<not> joins taken (hd rest))"
  by (rule take_spec [OF assms])

lemma parked_turn_takes_prefix_witness:
  "\<exists>d. take_buffered_turn_delivery [hello, hello] = Inr (d, []) \<and>
     delivery_payloads d = delivery_payloads hello @ delivery_payloads hello"
proof -
  have "[hello, hello] \<noteq> []" and "\<forall>d \<in> set [hello, hello]. wf_delivery d" using hello_waits(1) by auto
  from parked_turn_takes_prefix [OF this] obtain d taken rest where t: "take_buffered_turn_delivery [hello, hello] = Inr (d, rest)"
    and app: "[hello, hello] = taken @ rest" and ne: "taken \<noteq> []"
    and p: "delivery_payloads d = concat (map delivery_payloads taken)"
    and r: "rest \<noteq> [] \<longrightarrow> \<not> joins taken (hd rest)"
    by blast
  have "joins taken (hd rest)" if "rest \<noteq> []"
    using that app ne by (cases taken; cases "tl taken") (auto simp: joins_def hello_waits Cons_eq_append_conv)
  with r have "rest = []" by blast
  with t p app show ?thesis by auto
qed

end
