(* ===== verification/Ordered_Emitter.thy ===== *)
theory Ordered_Emitter
  imports Json_Values
begin

text \<open>
  The ordered stream emitter (\<open>harness/ordered-stream-emitter.ts\<close>): a queue between the model stream and
  the durable sink that folds adjacent appends while a write is in flight. An operation is one call of
  \<open>emit\<close> or \<open>closeAndDrain\<close>, or the settlement of the write in flight; \<open>written\<close> records the calls of the
  sink. The waiters are not part of the state: a call of \<open>emit\<close> waits exactly while
  \<open>has_capacity\<close> fails, and \<open>closeAndDrain\<close> exactly while the emitter is not idle.
\<close>

section \<open>Events\<close>

record coordinates =
  sequence :: json
  step_index :: json
  turn_id :: json

datatype stream_event =
  Message_Appended coordinates (message_delta: string) (rest: json)
| Reasoning_Appended coordinates (reasoning_delta: string) (rest: json)
| Action_Input_Appended (call_id: string) coordinates (input_text_delta: string) (rest: json)
| Action_Partial (call_id: string) (rest: json)
| Other_Event json

fun append_key :: "stream_event \<Rightarrow> string option" where
  "append_key (Message_Appended _ _ _) = Some ''message.appended''"
| "append_key (Reasoning_Appended _ _ _) = Some ''reasoning.appended''"
| "append_key (Action_Input_Appended c _ _ _) = Some (''action.input.appended:'' @ c)"
| "append_key _ = None"

fun append_delta :: "stream_event \<Rightarrow> string option" where
  "append_delta (Message_Appended _ d _) = Some d"
| "append_delta (Reasoning_Appended _ d _) = Some d"
| "append_delta (Action_Input_Appended _ _ d _) = Some d"
| "append_delta _ = None"

fun event_coordinates :: "stream_event \<Rightarrow> coordinates option" where
  "event_coordinates (Message_Appended c _ _) = Some c"
| "event_coordinates (Reasoning_Appended c _ _) = Some c"
| "event_coordinates (Action_Input_Appended _ c _ _) = Some c"
| "event_coordinates _ = None"

definition same_coordinates :: "stream_event \<Rightarrow> stream_event \<Rightarrow> bool" where
  "same_coordinates a b \<longleftrightarrow> event_coordinates a = event_coordinates b"

section \<open>The queue\<close>

record 'm emission =
  delta_characters :: nat
  delta_parts :: "string list option"
  emitted :: stream_event
  messages :: "'m option"
  source_events :: nat

definition delta_text :: "stream_event \<Rightarrow> string" where
  "delta_text e = (case append_delta e of None \<Rightarrow> [] | Some d \<Rightarrow> d)"

definition merge_adjacent_emissions ::
  "'m emission \<Rightarrow> stream_event \<Rightarrow> 'm option \<Rightarrow> 'm emission option" where
  \<comment> \<open>The left emission after the merge, or nothing when the events do not fold.\<close>
  "merge_adjacent_emissions l right ms =
     (let lk = append_key (emitted l); rk = append_key right in
      if lk \<noteq> None \<or> rk \<noteq> None then
        (if lk = None \<or> lk \<noteq> rk \<or> \<not> same_coordinates (emitted l) right then None
         else Some (l\<lparr>delta_parts := Some ((case delta_parts l of None \<Rightarrow> [delta_text (emitted l)] | Some ps \<Rightarrow> ps)
                @ [delta_text right]),
              emitted := right, messages := ms\<rparr>))
      else (case (emitted l, right) of
          (Action_Partial a _, Action_Partial b _) \<Rightarrow>
            if a \<noteq> b then None else Some (l\<lparr>emitted := right, messages := ms\<rparr>)
        | _ \<Rightarrow> None))"

fun with_delta :: "string \<Rightarrow> stream_event \<Rightarrow> stream_event" where
  "with_delta d (Message_Appended c _ r) = Message_Appended c d r"
| "with_delta d (Reasoning_Appended c _ r) = Reasoning_Appended c d r"
| "with_delta d (Action_Input_Appended i c _ r) = Action_Input_Appended i c d r"
| "with_delta d e = e"

definition materialize_event :: "'m emission \<Rightarrow> stream_event" where
  "materialize_event em = (case delta_parts em of None \<Rightarrow> emitted em
     | Some ps \<Rightarrow> with_delta (concat ps) (emitted em))"

section \<open>The emitter\<close>

record ('m, 'e) emitter =
  max_pending :: nat
  pending :: "'m emission list"
  close_requested :: bool
  pending_characters :: nat
  pending_events :: nat
  failure :: "'e option"
  in_flight :: bool
  written :: "(stream_event \<times> 'm option) list"

datatype 'e emit_error = Invalid_Maximum | Already_Failed 'e | Emitter_Closed

definition max_pending_delta_characters :: nat where
  "max_pending_delta_characters = 64 * 1024"

definition create_ordered_stream_emitter :: "nat \<Rightarrow> 'e emit_error + ('m, 'e) emitter" where
  \<comment> \<open>The default maximum is 64.\<close>
  "create_ordered_stream_emitter n = (if n < 1 then Inl Invalid_Maximum
     else Inr \<lparr>max_pending = n, pending = [], close_requested = False, pending_characters = 0,
       pending_events = 0, failure = None, in_flight = False, written = []\<rparr>)"

definition has_capacity :: "('m, 'e) emitter \<Rightarrow> bool" where
  "has_capacity s \<longleftrightarrow> pending_events s < max_pending s \<and> pending_characters s < max_pending_delta_characters"

definition pump :: "('m, 'e) emitter \<Rightarrow> ('m, 'e) emitter" where
  \<comment> \<open>From the start of the loop to its next write, when no write is in flight.\<close>
  "pump s = (if in_flight s \<or> failure s \<noteq> None then s
     else case pending s of
       [] \<Rightarrow> s
     | x # xs \<Rightarrow> s\<lparr>pending := xs, pending_characters := pending_characters s - delta_characters x,
         pending_events := pending_events s - source_events x, in_flight := True,
         written := written s @ [(materialize_event x, messages x)]\<rparr>)"

definition write_settled :: "('m, 'e) emitter \<Rightarrow> ('m, 'e) emitter" where
  "write_settled s = (if in_flight s then pump (s\<lparr>in_flight := False\<rparr>) else s)"

definition write_failed :: "'e \<Rightarrow> ('m, 'e) emitter \<Rightarrow> ('m, 'e) emitter" where
  "write_failed e s = (if in_flight s then
     s\<lparr>failure := Some e, pending := [], pending_characters := 0, pending_events := 0, in_flight := False\<rparr> else s)"

definition enqueue :: "stream_event \<Rightarrow> 'm option \<Rightarrow> 'm emission list \<Rightarrow> 'm emission list" where
  "enqueue e ms q =
     (let new = \<lparr>delta_characters = length (delta_text e), delta_parts = None, emitted = e, messages = ms,
        source_events = 1\<rparr> in
      if q = [] then [new]
      else case merge_adjacent_emissions (last q) e ms of
          None \<Rightarrow> q @ [new]
        | Some l \<Rightarrow> butlast q @ [l\<lparr>delta_characters := delta_characters l + length (delta_text e),
            source_events := source_events l + 1\<rparr>])"

definition emit :: "stream_event \<Rightarrow> 'm option \<Rightarrow> ('m, 'e) emitter \<Rightarrow> 'e emit_error + ('m, 'e) emitter" where
  \<comment> \<open>Up to the wait for capacity.\<close>
  "emit e ms s = (case failure s of
     Some x \<Rightarrow> Inl (Already_Failed x)
   | None \<Rightarrow>
       if close_requested s then Inl Emitter_Closed
       else Inr (pump (s\<lparr>pending := enqueue e ms (pending s),
          pending_characters := pending_characters s + length (delta_text e),
          pending_events := pending_events s + 1\<rparr>)))"

definition close_and_drain :: "('m, 'e) emitter \<Rightarrow> ('m, 'e) emitter" where
  "close_and_drain s = pump (s\<lparr>close_requested := True\<rparr>)"

definition idle :: "('m, 'e) emitter \<Rightarrow> bool" where
  "idle s \<longleftrightarrow> \<not> in_flight s \<and> pending s = []"

datatype ('m, 'e) operation = Emit stream_event "'m option" | Settled | Failed_Write 'e | Close

fun emitter_step :: "('m, 'e) operation \<Rightarrow> ('m, 'e) emitter \<Rightarrow> ('m, 'e) emitter" where
  "emitter_step (Emit e ms) s = (case emit e ms s of Inl _ \<Rightarrow> s | Inr s' \<Rightarrow> s')"
| "emitter_step Settled s = write_settled s"
| "emitter_step (Failed_Write e) s = write_failed e s"
| "emitter_step Close s = close_and_drain s"

definition emitter_run :: "('m, 'e) operation list \<Rightarrow> ('m, 'e) emitter \<Rightarrow> ('m, 'e) emitter" where
  "emitter_run ops s = fold emitter_step ops s"

section \<open>Counters\<close>

definition accounted_queue :: "('m, 'e) emitter \<Rightarrow> bool" where
  \<comment> \<open>The counters are the sums over the queue, and a queue waits only behind a write.\<close>
  "accounted_queue s \<longleftrightarrow> pending_events s = sum_list (map source_events (pending s)) \<and>
     pending_characters s = sum_list (map delta_characters (pending s)) \<and>
     (\<forall>x \<in> set (pending s). 1 \<le> source_events x) \<and>
     (failure s = None \<longrightarrow> pending s \<noteq> [] \<longrightarrow> in_flight s) \<and> (failure s \<noteq> None \<longrightarrow> idle s)"

lemma merge_counts:
  "merge_adjacent_emissions l e ms = Some l' \<Longrightarrow>
     delta_characters l' = delta_characters l \<and> source_events l' = source_events l"
  by (auto simp: merge_adjacent_emissions_def Let_def split: if_splits stream_event.splits)

lemma enqueue_counts:
  "sum_list (map source_events (enqueue e ms q)) = sum_list (map source_events q) + 1 \<and>
   sum_list (map delta_characters (enqueue e ms q)) = sum_list (map delta_characters q) + length (delta_text e) \<and>
   (Ball (set q) (\<lambda>x. 1 \<le> source_events x) \<longrightarrow> Ball (set (enqueue e ms q)) (\<lambda>x. 1 \<le> source_events x))"
proof (cases q rule: rev_cases)
  case (snoc xs x)
  then show ?thesis
    by (auto simp: enqueue_def Let_def split: option.split dest!: merge_counts)
qed (simp add: enqueue_def)

lemma pump_accounted:
  assumes "pending_events s = sum_list (map source_events (pending s))"
    and "pending_characters s = sum_list (map delta_characters (pending s))"
    and "\<forall>x \<in> set (pending s). 1 \<le> source_events x" and "failure s = None"
  shows "accounted_queue (pump s)"
  using assms by (auto simp: pump_def accounted_queue_def split: list.splits)

lemma step_accounted: "accounted_queue s \<Longrightarrow> accounted_queue (emitter_step op s)"
proof (cases op)
  case (Emit e ms)
  assume s: "accounted_queue s"
  show ?thesis
  proof (cases "failure s = None \<and> \<not> close_requested s")
    case True
    let ?s = "s\<lparr>pending := enqueue e ms (pending s), pending_characters := pending_characters s + length (delta_text e),
      pending_events := pending_events s + 1\<rparr>"
    have "accounted_queue (pump ?s)"
      using s True enqueue_counts [of e ms "pending s"] by (intro pump_accounted) (auto simp: accounted_queue_def)
    with True Emit show ?thesis by (simp add: emit_def)
  next
    case False
    with s Emit show ?thesis by (auto simp: emit_def split: option.split)
  qed
qed (auto simp: write_settled_def write_failed_def close_and_drain_def accounted_queue_def idle_def pump_def
    split: list.split)

section \<open>Folding keeps the stream\<close>

text \<open>
  The specification of folding: two neighbours with the same append key and coordinates become one with
  both deltas, two partials of one call become the later one. A stream is read up to folding: \<open>folded\<close>
  folds every foldable pair of neighbours.
\<close>

fun fold_pair :: "stream_event \<Rightarrow> stream_event \<Rightarrow> stream_event option" where
  "fold_pair (Message_Appended c d _) (Message_Appended c' d' r) =
     (if c = c' then Some (Message_Appended c (d @ d') r) else None)"
| "fold_pair (Reasoning_Appended c d _) (Reasoning_Appended c' d' r) =
     (if c = c' then Some (Reasoning_Appended c (d @ d') r) else None)"
| "fold_pair (Action_Input_Appended i c d _) (Action_Input_Appended j c' d' r) =
     (if i = j \<and> c = c' then Some (Action_Input_Appended i c (d @ d') r) else None)"
| "fold_pair (Action_Partial i _) (Action_Partial j r) = (if i = j then Some (Action_Partial i r) else None)"
| "fold_pair _ _ = None"

fun folded :: "stream_event list \<Rightarrow> stream_event list" where
  "folded [] = []"
| "folded (e # es) = (case folded es of
     [] \<Rightarrow> [e]
   | f # fs \<Rightarrow> (case fold_pair e f of None \<Rightarrow> e # f # fs | Some g \<Rightarrow> g # fs))"

lemma fold_pair_assoc:
  "fold_pair a b = Some ab \<Longrightarrow> fold_pair b c = Some bc \<Longrightarrow> fold_pair ab c = fold_pair a bc \<and> fold_pair a bc \<noteq> None"
  by (cases "(a, b)" rule: fold_pair.cases; cases c) (auto split: if_splits)

lemma fold_pair_left: "fold_pair a b = Some ab \<Longrightarrow> fold_pair b c = None \<Longrightarrow> fold_pair ab c = None"
  by (cases "(a, b)" rule: fold_pair.cases; cases c) (auto split: if_splits)

lemma fold_pair_right: "fold_pair b c = Some bc \<Longrightarrow> fold_pair a b = None \<Longrightarrow> fold_pair a bc = None"
  by (cases "(b, c)" rule: fold_pair.cases; cases a) (auto split: if_splits)

lemma folded_pair: "fold_pair a b = Some ab \<Longrightarrow> folded (a # b # es) = folded (ab # es)"
  using fold_pair_assoc [of a b ab] fold_pair_left [of a b ab] fold_pair_right [of b _ _ a]
  by (force split: list.split option.split)

lemma folded_cong: "folded ys = folded zs \<Longrightarrow> folded (xs @ ys) = folded (xs @ zs)"
  by (induction xs) simp_all

lemma folded_merge: "fold_pair a b = Some ab \<Longrightarrow> folded (xs @ a # b # ys) = folded (xs @ ab # ys)"
  by (rule folded_cong) (rule folded_pair)

definition wf_emission :: "'m emission \<Rightarrow> bool" where
  "wf_emission l \<longleftrightarrow> delta_parts l = None \<or> append_key (emitted l) \<noteq> None"

lemma with_delta_id: "append_delta e = Some d \<Longrightarrow> with_delta d e = e"
  by (cases e) auto

lemma merge_folds:
  assumes "merge_adjacent_emissions l e ms = Some l'" and "wf_emission l"
  shows "fold_pair (materialize_event l) e = Some (materialize_event l')" and "wf_emission l'"
proof -
  show "wf_emission l'"
    using assms by (auto simp: merge_adjacent_emissions_def Let_def wf_emission_def split: if_splits stream_event.splits)
  show "fold_pair (materialize_event l) e = Some (materialize_event l')"
    using assms
    by (cases "emitted l"; cases e)
      (auto simp: merge_adjacent_emissions_def Let_def wf_emission_def materialize_event_def same_coordinates_def
        delta_text_def split: if_splits option.splits)
qed

definition represented :: "('m, 'e) emitter \<Rightarrow> stream_event list" where
  "represented s = map fst (written s) @ map materialize_event (pending s)"

lemma materialize_new [simp]: "delta_parts l = None \<Longrightarrow> materialize_event l = emitted l"
  by (simp add: materialize_event_def)

lemma materialize_counts [simp]:
  "materialize_event (l\<lparr>delta_characters := n, source_events := k\<rparr>) = materialize_event l"
  "wf_emission (l\<lparr>delta_characters := n, source_events := k\<rparr>) = wf_emission l"
  by (simp_all add: materialize_event_def wf_emission_def split: option.split)

lemma enqueue_folds:
  assumes "\<forall>l \<in> set q. wf_emission l"
  shows "folded (xs @ map materialize_event (enqueue e ms q)) = folded (xs @ map materialize_event q @ [e])"
    and "\<forall>l \<in> set (enqueue e ms q). wf_emission l"
proof -
  have "folded (xs @ map materialize_event (enqueue e ms q)) = folded (xs @ map materialize_event q @ [e]) \<and>
    (\<forall>l \<in> set (enqueue e ms q). wf_emission l)"
  proof (cases q rule: rev_cases)
    case (snoc q' l)
    show ?thesis
    proof (cases "merge_adjacent_emissions l e ms")
      case None
      with snoc assms show ?thesis by (simp add: enqueue_def Let_def wf_emission_def)
    next
      case (Some l')
      have wf: "wf_emission l" using assms snoc by simp
      note m = merge_folds [OF Some wf]
      from folded_merge [OF m(1), of "xs @ map materialize_event q'" "[]"] m(2) Some snoc assms
      show ?thesis by (simp add: enqueue_def Let_def)
    qed
  qed (simp add: enqueue_def wf_emission_def)
  then show "folded (xs @ map materialize_event (enqueue e ms q)) = folded (xs @ map materialize_event q @ [e])"
    and "\<forall>l \<in> set (enqueue e ms q). wf_emission l" by auto
qed

lemma represented_flags [simp]:
  "represented (s\<lparr>in_flight := b\<rparr>) = represented s" "represented (s\<lparr>close_requested := b\<rparr>) = represented s"
  by (simp_all add: represented_def)

lemma pump_represented [simp]:
  "represented (pump s) = represented s" "failure (pump s) = failure s"
  "close_requested (pump s) = close_requested s" "set (pending (pump s)) \<subseteq> set (pending s)"
  by (auto simp: pump_def represented_def split: list.split)

fun emitted_by :: "('m, 'e) operation list \<Rightarrow> stream_event list" where
  \<comment> \<open>The events emitted before the emitter is closed.\<close>
  "emitted_by [] = []"
| "emitted_by (Emit e _ # ops) = e # emitted_by ops"
| "emitted_by (Close # ops) = []"
| "emitted_by (_ # ops) = emitted_by ops"

lemma step_failure: "failure (emitter_step op s) = None \<Longrightarrow> failure s = None"
  by (cases op) (auto simp: emit_def write_settled_def write_failed_def close_and_drain_def split: if_splits option.splits)

lemma run_failure: "failure (emitter_run ops s) = None \<Longrightarrow> failure s = None"
  by (induction ops arbitrary: s) (auto simp: emitter_run_def dest: step_failure)

lemma step_represented:
  assumes "failure (emitter_step op s) = None" and "\<forall>l \<in> set (pending s). wf_emission l"
  shows "folded (represented (emitter_step op s)) =
      folded (represented s @ (if close_requested s then [] else emitted_by [op]))"
    and "\<forall>l \<in> set (pending (emitter_step op s)). wf_emission l"
    and "close_requested (emitter_step op s) \<longleftrightarrow> close_requested s \<or> op = Close"
proof -
  have ok: "failure s = None" by (rule step_failure [OF assms(1)])
  have "folded (represented (emitter_step op s)) =
      folded (represented s @ (if close_requested s then [] else emitted_by [op])) \<and>
    (\<forall>l \<in> set (pending (emitter_step op s)). wf_emission l) \<and>
    (close_requested (emitter_step op s) \<longleftrightarrow> close_requested s \<or> op = Close)"
  proof (cases op)
    case (Emit e ms)
    show ?thesis
    proof (cases "close_requested s")
      case False
      let ?s = "s\<lparr>pending := enqueue e ms (pending s), pending_characters := pending_characters s + length (delta_text e),
        pending_events := pending_events s + 1\<rparr>"
      have "emitter_step op s = pump ?s" using ok False Emit by (simp add: emit_def)
      moreover have "folded (represented ?s) = folded (represented s @ [e])"
        using enqueue_folds(1) [OF assms(2), of "map fst (written s)" e ms] by (simp add: represented_def)
      ultimately show ?thesis
        using False Emit enqueue_folds(2) [OF assms(2), of e ms] pump_represented(4) [of ?s] by auto
    qed (use ok Emit assms(2) in \<open>simp add: emit_def\<close>)
  next
    case Settled
    with assms(2) pump_represented(4) [of "s\<lparr>in_flight := False\<rparr>"] show ?thesis
      by (auto simp: write_settled_def)
  next
    case (Failed_Write x)
    with assms ok show ?thesis by (auto simp: write_failed_def split: if_splits)
  next
    case Close
    with assms(2) pump_represented(4) [of "s\<lparr>close_requested := True\<rparr>"] show ?thesis
      by (auto simp: close_and_drain_def)
  qed
  then show "folded (represented (emitter_step op s)) =
      folded (represented s @ (if close_requested s then [] else emitted_by [op]))"
    and "\<forall>l \<in> set (pending (emitter_step op s)). wf_emission l"
    and "close_requested (emitter_step op s) \<longleftrightarrow> close_requested s \<or> op = Close" by blast+
qed

lemma folded_left: "folded (folded xs @ zs) = folded (xs @ zs)"
proof (induction xs)
  case (Cons e es)
  have "folded ((e # es) @ zs) = folded (e # folded es @ zs)" by (simp add: Cons)
  also have "\<dots> = folded (folded (e # es) @ zs)"
  proof (cases "folded es")
    case (Cons f fs)
    show ?thesis
    proof (cases "fold_pair e f")
      case (Some g)
      from folded_pair [OF Some, of "fs @ zs"] Some Cons show ?thesis by simp
    qed (simp add: Cons)
  qed simp
  finally show ?case by simp
qed simp

lemma folded_append_cong: "folded xs = folded ys \<Longrightarrow> folded (xs @ zs) = folded (ys @ zs)"
  by (metis folded_left)

lemma run_represented:
  assumes "failure (emitter_run ops s) = None" and "\<forall>l \<in> set (pending s). wf_emission l"
  shows "folded (represented (emitter_run ops s)) =
    folded (represented s @ (if close_requested s then [] else emitted_by ops))"
  using assms
proof (induction ops arbitrary: s)
  case (Cons op ops)
  let ?s = "emitter_step op s"
  have run: "failure (emitter_run ops ?s) = None" using Cons.prems(1) by (simp add: emitter_run_def)
  note st = step_represented [OF run_failure [OF run] Cons.prems(2)]
  have "folded (represented (emitter_run (op # ops) s)) =
      folded (represented ?s @ (if close_requested ?s then [] else emitted_by ops))"
    using Cons.IH [OF run st(2)] by (simp add: emitter_run_def)
  also have "\<dots> = folded ((represented s @ (if close_requested s then [] else emitted_by [op])) @
      (if close_requested ?s then [] else emitted_by ops))"
    by (rule folded_append_cong [OF st(1)])
  also have "\<dots> = folded (represented s @ (if close_requested s then [] else emitted_by (op # ops)))"
    using st(3) by (cases op) auto
  finally show ?case .
qed (simp add: emitter_run_def)

section \<open>Draining and back-pressure\<close>

lemma settle_drains:
  assumes "accounted_queue s" and "failure s = None"
  shows "\<exists>k \<le> length (pending s) + 1. idle (emitter_run (replicate k Settled) s) \<and>
    failure (emitter_run (replicate k Settled) s) = None"
  using assms
proof (induction "length (pending s)" arbitrary: s)
  case 0
  then show ?case
    by (intro exI [of _ 1]) (auto simp: emitter_run_def write_settled_def pump_def idle_def)
next
  case (Suc n)
  then obtain x xs where q: "pending s = x # xs" and fl: "in_flight s"
    by (cases "pending s") (auto simp: accounted_queue_def)
  let ?s = "write_settled s"
  have "pending ?s = xs" "failure ?s = None" using q fl Suc.prems by (auto simp: write_settled_def pump_def)
  moreover have "accounted_queue ?s" using step_accounted [OF Suc.prems(1), of Settled] by simp
  ultimately obtain k where "k \<le> length xs + 1" "idle (emitter_run (replicate k Settled) ?s)"
    "failure (emitter_run (replicate k Settled) ?s) = None" using Suc.hyps(1) [of ?s] Suc.hyps(2) q by auto
  then show ?case by (intro exI [of _ "Suc k"]) (auto simp: emitter_run_def q)
qed

fun paced :: "('m, 'e) operation list \<Rightarrow> ('m, 'e) emitter \<Rightarrow> bool" where
  \<comment> \<open>The producer emits only when the previous call of \<open>emit\<close> has returned.\<close>
  "paced [] s \<longleftrightarrow> True"
| "paced (op # ops) s \<longleftrightarrow> (case op of Emit _ _ \<Rightarrow> has_capacity s | _ \<Rightarrow> True) \<and> paced ops (emitter_step op s)"

lemma pump_le: "pending_events (pump s) \<le> pending_events s" "max_pending (pump s) = max_pending s"
  "pending_characters (pump s) \<le> pending_characters s"
  by (auto simp: pump_def split: list.split)

lemma paced_bounded:
  assumes "paced ops s" and "pending_events s \<le> max_pending s"
    and "pending_characters s < max_pending_delta_characters + n"
    and "\<forall>e \<in> set (emitted_by (filter (\<lambda>op. op \<noteq> Close) ops)). length (delta_text e) \<le> n" and "0 < n"
  shows "pending_events (emitter_run ops s) \<le> max_pending s \<and>
    pending_characters (emitter_run ops s) < max_pending_delta_characters + n"
  using assms
proof (induction ops arbitrary: s)
  case (Cons op ops)
  let ?s = "emitter_step op s"
  have "max_pending ?s = max_pending s \<and> pending_events ?s \<le> max_pending s \<and>
    pending_characters ?s < max_pending_delta_characters + n"
  proof (cases op)
    case (Emit e ms)
    let ?t = "s\<lparr>pending := enqueue e ms (pending s), pending_characters := pending_characters s + length (delta_text e),
        pending_events := pending_events s + 1\<rparr>"
    from Cons.prems Emit have cap: "has_capacity s" and d: "length (delta_text e) \<le> n" by auto
    with pump_le [of ?t] Cons.prems Emit show ?thesis
      by (auto simp: emit_def has_capacity_def split: option.split)
  next
    case Close
    with pump_le [of "s\<lparr>close_requested := True\<rparr>"] Cons.prems show ?thesis by (simp add: close_and_drain_def)
  next
    case Settled
    with pump_le [of "s\<lparr>in_flight := False\<rparr>"] Cons.prems show ?thesis by (simp add: write_settled_def)
  qed (use Cons.prems in \<open>simp add: write_failed_def\<close>)
  moreover have "\<forall>e \<in> set (emitted_by (filter (\<lambda>op. op \<noteq> Close) ops)). length (delta_text e) \<le> n"
    using Cons.prems(4) by (cases op) auto
  ultimately show ?case using Cons.IH [of ?s] Cons.prems(1,5) by (simp add: emitter_run_def)
qed (simp add: emitter_run_def)

section \<open>A whole stream\<close>

lemma created:
  assumes "create_ordered_stream_emitter n = Inr s"
  shows "accounted_queue s" and "pending s = []" and "written s = []" and "\<not> close_requested s"
    and "pending_events s = 0" and "pending_characters s = 0" and "max_pending s = n"
  using assms by (auto simp: create_ordered_stream_emitter_def accounted_queue_def split: if_splits)

lemma run_accounted: "accounted_queue s \<Longrightarrow> accounted_queue (emitter_run ops s)"
  by (induction ops arbitrary: s) (auto simp: emitter_run_def step_accounted)

lemma emitter_run_append: "emitter_run (xs @ ys) s = emitter_run ys (emitter_run xs s)"
  by (simp add: emitter_run_def)

lemma emitted_by_settled: "emitted_by (ops @ Close # replicate k Settled) = emitted_by ops"
proof (induction ops)
  case (Cons op ops)
  then show ?case by (cases op) auto
qed simp

lemma accounted_length: "accounted_queue s \<Longrightarrow> length (pending s) \<le> pending_events s"
proof -
  have "length xs \<le> sum_list (map source_events xs)" if "\<forall>x \<in> set xs. 1 \<le> source_events x" for xs :: "'a emission list"
    using that by (induction xs) fastforce+
  then show "accounted_queue s \<Longrightarrow> length (pending s) \<le> pending_events s" by (simp add: accounted_queue_def)
qed

definition says :: "string \<Rightarrow> stream_event" where
  "says d = Message_Appended \<lparr>sequence = JNum 1, step_index = JNum 0, turn_id = JStr ''turn1''\<rparr> d JUndef"

definition fresh_emitter :: "(nat, nat) emitter" where
  "fresh_emitter = \<lparr>max_pending = 2, pending = [], close_requested = False, pending_characters = 0, pending_events = 0,
     failure = None, in_flight = False, written = []\<rparr>"

lemma fresh_emitter_created: "create_ordered_stream_emitter 2 = Inr fresh_emitter"
  by (simp add: create_ordered_stream_emitter_def fresh_emitter_def)

lemmas emitter_evals = emitter_run_def emit_def enqueue_def pump_def fresh_emitter_def merge_adjacent_emissions_def
  same_coordinates_def says_def Let_def

text \<open>
  C36: an emitter whose sink does not fail writes the whole stream. After any operations without a write
  failure, closing it and letting at most one write per queued event settle, and one for the write in
  flight, makes it idle; what it has written is then, up to folding of adjacent appends, exactly what was
  emitted before the close, in order.
\<close>
theorem emitter_writes_stream:
  assumes "create_ordered_stream_emitter n = Inr s" and "failure (emitter_run ops s) = None"
  shows "\<exists>k \<le> length (pending (emitter_run (ops @ [Close]) s)) + 1.
    let t = emitter_run (ops @ Close # replicate k Settled) s in
      idle t \<and> failure t = None \<and> folded (map fst (written t)) = folded (emitted_by ops)"
proof -
  let ?c = "emitter_run (ops @ [Close]) s"
  have acc: "accounted_queue ?c" by (rule run_accounted [OF created(1) [OF assms(1)]])
  have "failure ?c = None" using assms(2)
    by (simp add: emitter_run_append) (simp add: emitter_run_def close_and_drain_def)
  from settle_drains [OF acc this] obtain k where k: "k \<le> length (pending ?c) + 1"
    and idle: "idle (emitter_run (replicate k Settled) ?c)"
    and ok: "failure (emitter_run (replicate k Settled) ?c) = None" by blast
  let ?t = "emitter_run (ops @ Close # replicate k Settled) s"
  have t: "emitter_run (replicate k Settled) ?c = ?t" by (simp flip: emitter_run_append)
  note idle = idle [unfolded t] and ok = ok [unfolded t]
  have "folded (represented ?t) = folded (emitted_by ops)"
    using run_represented [OF ok] created [OF assms(1)] by (simp add: represented_def emitted_by_settled)
  then have "folded (map fst (written ?t)) = folded (emitted_by ops)"
    using idle by (simp add: represented_def idle_def)
  with k idle ok show ?thesis by (auto simp: Let_def)
qed

lemma emitter_writes_stream_witness:
  "\<exists>k. let t = emitter_run ([Emit (says ''a'') None, Emit (says ''b'') None, Emit (says ''c'') None] @ Close # replicate k Settled)
     fresh_emitter in idle t \<and> folded (map fst (written t)) = [says ''abc'']"
proof -
  have "failure (emitter_run [Emit (says ''a'') None, Emit (says ''b'') None, Emit (says ''c'') None] fresh_emitter) = None"
    by (simp add: emitter_evals)
  from emitter_writes_stream [OF fresh_emitter_created this] show ?thesis
    by (auto simp: Let_def) (auto simp: says_def)
qed

text \<open>
  C37: the emitter's memory is bounded. A producer that waits for each call of \<open>emit\<close> before the next one
  never leaves more than the configured number of events in the queue, and the queued text stays below
  the 64k threshold plus the longest single delta, whatever the sink does.
\<close>
theorem emitter_queue_bounded:
  assumes "create_ordered_stream_emitter n = Inr s" and "paced ops s" and "0 < m"
    and "\<forall>e \<in> set (emitted_by (filter (\<lambda>op. op \<noteq> Close) ops)). length (delta_text e) \<le> m"
  shows "length (pending (emitter_run ops s)) \<le> n \<and> pending_events (emitter_run ops s) \<le> n \<and>
    pending_characters (emitter_run ops s) < max_pending_delta_characters + m"
proof -
  have "pending_events s \<le> max_pending s" and "pending_characters s < max_pending_delta_characters + m"
    using created [OF assms(1)] assms(3) by simp_all
  from paced_bounded [OF assms(2) this assms(4,3)] show ?thesis
    using accounted_length [OF run_accounted [OF created(1) [OF assms(1)]], of ops] created(7) [OF assms(1)] by auto
qed

lemma emitter_queue_bounded_witness:
  "length (pending (emitter_run [Emit (says ''a'') None, Emit (says ''b'') None] fresh_emitter)) \<le> 2"
proof -
  have "paced [Emit (says ''a'') None, Emit (says ''b'') None] fresh_emitter"
    by (simp add: emitter_evals has_capacity_def max_pending_delta_characters_def)
  from emitter_queue_bounded [OF fresh_emitter_created this, of 1] show ?thesis
    by (simp add: says_def delta_text_def)
qed

end
