(* ===== verification/Migration_Chain.thy ===== *)
theory Migration_Chain
  imports Json_Objects
begin

text \<open>
  The version-walking migrations of durable wire shapes
  (\<open>execution/durable-session-migrations/\<close>): the runner of \<open>chain.ts\<close> and the migrations of the turn
  workflow input and the session snapshot. A migration that throws is \<open>Inl\<close> of its message.
\<close>

section \<open>The runner\<close>

datatype chain_error =
  No_Numeric_Version
| Not_A_Positive_Integer
| Newer_Version rat
| No_Migration rat
| Must_Step_One
| Wrong_Version_Produced
| Migration_Failed string

record version_migration =
  from_version :: rat
  to_version :: rat
  migrate :: "json \<Rightarrow> string + json"

function walk_chain :: "version_migration list \<Rightarrow> rat \<Rightarrow> rat \<Rightarrow> json \<Rightarrow> chain_error + json" where
  \<comment> \<open>The loop at a value of version \<open>n\<close>.\<close>
  "walk_chain ms target n v =
     (if n < target then
        case find (\<lambda>m. from_version m = n) ms of
          None \<Rightarrow> Inl (No_Migration n)
        | Some m \<Rightarrow>
            if to_version m \<noteq> from_version m + 1 then Inl Must_Step_One
            else case migrate m v of
                Inl e \<Rightarrow> Inl (Migration_Failed e)
              | Inr next_v \<Rightarrow>
                  if jget next_v ''version'' \<noteq> JNum (to_version m) then Inl Wrong_Version_Produced
                  else walk_chain ms target (to_version m) next_v
      else Inr v)"
  by pat_completeness auto
termination
proof (relation "measure (\<lambda>(ms, target, n, v). nat \<lceil>target - n\<rceil>)")
  fix ms target n and v next_v :: json and m
  assume n: "n < target" and m: "find (\<lambda>m. from_version m = n) ms = Some m"
    and step: "\<not> to_version m \<noteq> from_version m + 1"
  from m have "from_version m = n" by (auto simp: find_Some_iff)
  with step have "target - to_version m = (target - n) - 1" by simp
  with n show "((ms, target, to_version m, next_v), ms, target, n, v) \<in> measure (\<lambda>(ms, target, n, v). nat \<lceil>target - n\<rceil>)"
    by (simp add: nat_mono_iff) linarith
qed simp

declare walk_chain.simps [simp del]

definition run_migration_chain ::
  "version_migration list \<Rightarrow> rat \<Rightarrow> rat option \<Rightarrow> json \<Rightarrow> chain_error + json" where
  "run_migration_chain ms target initial v =
     (let start = (case v of
          JObj _ \<Rightarrow>
            (case jget v ''version'' of
               JNum n \<Rightarrow> Inr (Some n, v)
             | JNonFinite _ \<Rightarrow> Inr (None, v)
             | _ \<Rightarrow> (case initial of
                  Some n \<Rightarrow> if has_member ''version'' v then Inl No_Numeric_Version
                    else Inr (Some n, spread v [(''version'', JNum n)])
                | None \<Rightarrow> Inl No_Numeric_Version))
        | JArr _ \<Rightarrow> (case initial of
             Some n \<Rightarrow> Inr (Some n, spread v [(''version'', JNum n)]) | None \<Rightarrow> Inl No_Numeric_Version)
        | _ \<Rightarrow> Inl No_Numeric_Version)
      in bindR start (\<lambda>(n, current).
        case n of
          None \<Rightarrow> Inl Not_A_Positive_Integer
        | Some n \<Rightarrow>
            if \<not> whole n \<or> n < (case initial of Some i \<Rightarrow> i | None \<Rightarrow> 1) then Inl Not_A_Positive_Integer
            else if target < n then Inl (Newer_Version n)
            else walk_chain ms target n current))"

section \<open>The turn workflow input and the session snapshot\<close>

definition turn_workflow_v0_to_v1 :: version_migration where
  "turn_workflow_v0_to_v1 = \<lparr>from_version = 0, to_version = 1, migrate = (\<lambda>prior.
     if \<not> has_member ''delivery'' prior
     then Inl ''turn workflow input: version 0 value is not a recognized pre-version shape.''
     else Inr (JObj [
       (''capabilities'', jget prior ''capabilities''), (''completionToken'', jget prior ''completionToken''),
       (''mode'', jget prior ''mode''),
       (''stepInput'', JObj [(''input'', jget prior ''delivery''), (''parentWritable'', jget prior ''parentWritable''),
          (''serializedContext'', jget prior ''serializedContext''), (''sessionState'', jget prior ''sessionState'')]),
       (''version'', JNum 1)]))\<rparr>"

definition turn_workflow_v1_to_v2 :: version_migration where
  "turn_workflow_v1_to_v2 = \<lparr>from_version = 1, to_version = 2,
     migrate = (\<lambda>prior. Inr (spread prior [(''version'', JNum 2)]))\<rparr>"

definition turn_workflow_input_version :: rat where
  "turn_workflow_input_version = 2"

definition migrate_turn_workflow_input :: "json \<Rightarrow> chain_error + json" where
  "migrate_turn_workflow_input =
     run_migration_chain [turn_workflow_v0_to_v1, turn_workflow_v1_to_v2] turn_workflow_input_version (Some 0)"

definition create_turn_workflow_input :: "json \<Rightarrow> json" where
  "create_turn_workflow_input i = JObj [
     (''capabilities'', jget i ''capabilities''), (''completionToken'', jget i ''completionToken''),
     (''driverCapabilities'', JObj [(''cancelledTurnSettle'', JBool True), (''turnInbox'', JBool True)]),
     (''initialCancellation'', jget i ''initialCancellation''), (''initialStep'', jget i ''initialStep''),
     (''mode'', jget i ''mode''),
     (''stepInput'', JObj [(''input'', jget i ''delivery''), (''parentWritable'', jget i ''parentWritable''),
        (''serializedContext'', jget i ''serializedContext''), (''sessionState'', jget i ''sessionState'')]),
     (''version'', JNum turn_workflow_input_version)]"

definition migrate_durable_session_snapshot :: "json \<Rightarrow> chain_error + json" where
  "migrate_durable_session_snapshot = run_migration_chain [] 1 None"

section \<open>Where a chain ends\<close>

lemma whole_step:
  assumes "whole m" and "whole n" and "m < n"
  shows "m + 1 \<le> n"
proof -
  from assms obtain i j where "m = of_int i" and "n = of_int j" unfolding whole_def by metis
  with \<open>m < n\<close> have "of_int (i + 1) \<le> (of_int j :: rat)" by (simp only: of_int_less_iff of_int_le_iff)
  with \<open>m = of_int i\<close> \<open>n = of_int j\<close> show ?thesis by simp
qed

lemma walk_version:
  "walk_chain ms target n v = Inr w \<Longrightarrow> jget v ''version'' = JNum n \<Longrightarrow> whole n \<Longrightarrow> whole target \<Longrightarrow> n \<le> target \<Longrightarrow>
     jget w ''version'' = JNum target"
proof (induction ms target n v rule: walk_chain.induct)
  case (1 ms target n v)
  show ?case
  proof (cases "n < target")
    case True
    with "1.prems"(1) obtain m v' where m: "find (\<lambda>m. from_version m = n) ms = Some m"
      and to: "to_version m = from_version m + 1" and v': "migrate m v = Inr v'"
      "jget v' ''version'' = JNum (to_version m)" and rec: "walk_chain ms target (to_version m) v' = Inr w"
      by (subst (asm) walk_chain.simps) (auto split: option.splits sum.splits if_splits)
    from m have "from_version m = n" by (auto simp: find_Some_iff)
    moreover have "whole (n + 1)" using "1.prems"(3) by (simp add: whole_def)
    moreover have "n + 1 \<le> target"
      using whole_step [OF "1.prems"(3,4) True] .
    ultimately show ?thesis using "1.IH" [OF True m _ v'(1)] to v'(2) rec "1.prems"(4) by auto
  next
    case False
    with "1.prems" show ?thesis by (subst (asm) walk_chain.simps) auto
  qed
qed

lemma chain_version:
  assumes "run_migration_chain ms target initial v = Inr w" and "whole target"
  shows "jget w ''version'' = JNum target"
  using assms walk_version
  by (fastforce simp: run_migration_chain_def Let_def split: json.splits option.splits if_splits)

end
