(* ===== verification/Inbox_Wire.thy ===== *)
theory Inbox_Wire
  imports Migration_Chain
begin

text \<open>
  Decoding a persisted session-inbox payload (\<open>execution/wire/\<close>): the normaliser of workflow-VM records,
  the migrations from the unversioned era to version 6 and the decoder of \<open>session-inbox-wire.ts\<close>. The
  decoded command is the object the decoder returns.
\<close>

section \<open>Normalisation\<close>

fun normalize_wire_value :: "bool \<Rightarrow> json \<Rightarrow> json" where
  "normalize_wire_value fallback JUndef = (if fallback then JNull else JUndef)"
| "normalize_wire_value fallback (JArr xs) = JArr (map (normalize_wire_value True) xs)"
| "normalize_wire_value fallback (JObj ps) =
     JObj (map (\<lambda>(k, v). (k, normalize_wire_value False v)) (filter (\<lambda>p. snd p \<noteq> JUndef) ps))"
| "normalize_wire_value fallback j = j"

section \<open>Migrations\<close>

definition migrate_legacy_send :: "json \<Rightarrow> string + json" where
  "migrate_legacy_send send =
     (if \<not> is_object (jget send ''payload'') then Inl ''legacy send command has no object payload field.''
      else if jget send ''delivery'' \<noteq> JUndef \<and> \<not> is_object (jget send ''delivery'')
      then Inl ''legacy send command has a non-object delivery field.''
      else Inr (JObj [
        (''auth'', jget send ''auth''), (''caller'', jget send ''caller''),
        (''deliveryMetadata'', if jget send ''delivery'' = JUndef then JUndef
          else JArr [spread (jget send ''delivery'') [(''payloadIndex'', JNum 0)]]),
        (''kind'', JStr ''deliver''), (''payload'', jget send ''payload''),
        (''payloads'', JArr [jget send ''payload'']), (''requestId'', jget send ''requestId''),
        (''taskDeliveryId'', jget send ''taskDeliveryId''), (''turnPolicy'', jget send ''turnPolicy''),
        (''version'', JNum 1)]))"

definition migrate_wire_v0 :: "json \<Rightarrow> string + json" where
  "migrate_wire_v0 value =
     (if jget value ''kind'' = JStr ''send'' then migrate_legacy_send value
      else if jget value ''kind'' = JStr ''deliver'' \<and>
        \<not> (case jget value ''payloads'' of JArr ps \<Rightarrow> list_all is_object ps | _ \<Rightarrow> False)
      then Inl ''legacy deliver payload has no object-array payloads field.''
      else Inr (spread value [(''version'', JNum 1)]))"

definition migrate_wire_v1 :: "json \<Rightarrow> string + json" where
  "migrate_wire_v1 value = Inr (spread value ((''version'', JNum 2) #
     (if jget value ''kind'' = JStr ''deliver'' \<and> \<not> has_member ''payload'' value then [(''payload'', JObj [])] else [])))"

definition input_request_entries :: "json \<Rightarrow> json list" where
  "input_request_entries entry =
     (if \<not> is_object entry then []
      else if has_member ''request'' entry \<or> has_member ''requests'' entry then [entry]
      else if \<not> is_object (jget entry ''hookPayload'') \<or> jstr entry ''taskId'' = None then []
      else
        (let hook = jget entry ''hookPayload''; event = jget hook ''event'' in
         case (jget event ''requests'', jget event ''sequence'', jget event ''stepIndex'') of
           (JArr rs, s, i) \<Rightarrow>
             if jstr hook ''childContinuationToken'' = None \<or> \<not> is_object event \<or>
               \<not> (case s of JNum _ \<Rightarrow> True | JNonFinite _ \<Rightarrow> True | _ \<Rightarrow> False) \<or>
               \<not> (case i of JNum _ \<Rightarrow> True | JNonFinite _ \<Rightarrow> True | _ \<Rightarrow> False) \<or> jstr event ''turnId'' = None
             then []
             else map (\<lambda>r. spread entry [(''replyTo'', jget hook ''childContinuationToken''), (''request'', r),
                 (''sequence'', s), (''stepIndex'', i), (''taskId'', jget entry ''taskId''),
                 (''turnId'', jget event ''turnId'')]) rs
         | _ \<Rightarrow> []))"

definition migrate_input_requests :: "json \<Rightarrow> json" where
  "migrate_input_requests j = (case j of JArr xs \<Rightarrow> JArr (concat (map input_request_entries xs)) | _ \<Rightarrow> JUndef)"

definition migrate_task_view :: "json \<Rightarrow> json" where
  "migrate_task_view j =
     (if \<not> is_object j \<or> \<not> is_object (jget j ''executor'') then j
      else (let b = jget (jget j ''executor'') ''binding'' in
        spread j [(''executor'', if b = JUndef then JUndef else JObj [(''binding'', b)])]))"

definition migrate_payload :: "json \<Rightarrow> json" where
  "migrate_payload p =
     (if \<not> is_object p \<or> \<not> is_object (jget p ''task'') then p
      else (let task = jget p ''task'' in spread p [(''task'', JObj [
        (''agentRequests'', jget task ''agentRequests''),
        (''authorizationEvents'', jget task ''authorizationEvents''),
        (''inputRequests'', migrate_input_requests (jget task ''inputRequests'')),
        (''views'', (case jget task ''views'' of JArr vs \<Rightarrow> JArr (map migrate_task_view vs) | v \<Rightarrow> v))])]))"

definition migrate_wire_v3 :: "json \<Rightarrow> string + json" where
  "migrate_wire_v3 prior =
     (if \<not> is_object prior then Inl ''session inbox wire v3 value is not an object.''
      else if jget prior ''kind'' \<noteq> JStr ''deliver'' then Inr (spread prior [(''version'', JNum 4)])
      else Inr (spread prior [
        (''payload'', migrate_payload (jget prior ''payload'')),
        (''payloads'', (case jget prior ''payloads'' of JArr ps \<Rightarrow> JArr (map migrate_payload ps) | v \<Rightarrow> v)),
        (''version'', JNum 4)]))"

definition stamp_object :: "string \<Rightarrow> rat \<Rightarrow> json \<Rightarrow> string + json" where
  "stamp_object msg n prior = (if \<not> is_object prior then Inl msg else Inr (spread prior [(''version'', JNum n)]))"

definition session_inbox_migrations :: "version_migration list" where
  "session_inbox_migrations = [
     \<lparr>from_version = 0, to_version = 1, migrate = migrate_wire_v0\<rparr>,
     \<lparr>from_version = 1, to_version = 2, migrate = migrate_wire_v1\<rparr>,
     \<lparr>from_version = 2, to_version = 3, migrate = (\<lambda>prior. Inr (spread prior [(''version'', JNum 3)]))\<rparr>,
     \<lparr>from_version = 3, to_version = 4, migrate = migrate_wire_v3\<rparr>,
     \<lparr>from_version = 4, to_version = 5, migrate = stamp_object ''session inbox wire v4 value is not an object.'' 5\<rparr>,
     \<lparr>from_version = 5, to_version = 6, migrate = stamp_object ''session inbox wire v5 value is not an object.'' 6\<rparr>]"

definition session_inbox_wire_version :: rat where
  "session_inbox_wire_version = 6"

section \<open>Decoding\<close>

datatype wire_error =
  No_Wire_Version
| Shape_Mismatch
| Chain_Failed chain_error
| Unexpected_Version
| Unrecognized_Kind

definition has_current_task_messages :: "json \<Rightarrow> bool" where
  "has_current_task_messages p \<longleftrightarrow> is_object p \<and> is_object (jget p ''task'') \<and>
     (has_member ''agentRequests'' (jget p ''task'') \<or>
      (case jget (jget p ''task'') ''inputRequests'' of
         JArr rs \<Rightarrow> list_ex (\<lambda>r. is_object r \<and> (has_member ''request'' r \<or> has_member ''requests'' r)) rs
       | _ \<Rightarrow> False))"

definition contains_current_task_messages :: "json \<Rightarrow> bool" where
  "contains_current_task_messages v \<longleftrightarrow> is_object v \<and> jget v ''kind'' = JStr ''deliver'' \<and>
     (case jget v ''payloads'' of JArr ps \<Rightarrow> list_ex has_current_task_messages ps | _ \<Rightarrow> False)"

definition select :: "string list \<Rightarrow> json \<Rightarrow> (string \<times> json) list" where
  "select ks j = map (\<lambda>k. (k, jget j k)) ks"

definition normalize_wire :: "json \<Rightarrow> wire_error + json" where
  "normalize_wire w =
     (if jget w ''kind'' = JStr ''deliver'' then
        Inr (JObj (select [''auth'', ''caller'', ''deliveryMetadata'', ''kind'', ''payloads'', ''requestId'',
          ''taskDeliveryId'', ''turnPolicy''] w))
      else if jget w ''kind'' \<in> {JStr ''session-timeout'', JStr ''clear'', JStr ''compact''} then
        Inr (JObj (select [''kind''] w))
      else if jget w ''kind'' = JStr ''reset'' then Inr (JObj (select [''kind'', ''reason''] w))
      else if jget w ''kind'' = JStr ''cancel'' then
        Inr (JObj (select [''kind'', ''taskId'', ''tasks'', ''turnId''] w))
      else Inl Unrecognized_Kind)"

definition declared_version :: "json \<Rightarrow> rat option" where
  "declared_version v = (case jget v ''version'' of JNum n \<Rightarrow> Some n | _ \<Rightarrow> None)"

definition numeric_version :: "json \<Rightarrow> bool" where
  "numeric_version v = (case jget v ''version'' of JNum _ \<Rightarrow> True | JNonFinite _ \<Rightarrow> True | _ \<Rightarrow> False)"

definition decode :: "json \<Rightarrow> wire_error + json" where
  "decode v =
     (if has_member ''version'' v \<and> \<not> numeric_version v then Inl No_Wire_Version
      else
        (let normalized = normalize_wire_value False v; declared = declared_version v in
         if declared \<in> {Some 1, Some 2, Some 3} \<and> contains_current_task_messages normalized then Inl Shape_Mismatch
         else case run_migration_chain session_inbox_migrations session_inbox_wire_version (Some 0) normalized of
             Inl e \<Rightarrow> Inl (Chain_Failed e)
           | Inr migrated \<Rightarrow>
               (let wire = normalize_wire_value False migrated in
                if jget wire ''version'' \<noteq> JNum session_inbox_wire_version then Inl Unexpected_Version
                else if (case declared of Some n \<Rightarrow> 2 \<le> n | None \<Rightarrow> False) \<and> jget wire ''kind'' = JStr ''deliver'' \<and>
                  \<not> has_member ''payload'' wire then Inl Shape_Mismatch
                else normalize_wire wire)))"

section \<open>Every version of a command decodes alike\<close>

definition stamped :: "(string \<times> json) list \<Rightarrow> rat \<Rightarrow> json" where
  "stamped ps n = JObj (ps @ [(''version'', JNum n)])"

definition wire_value :: "(string \<times> json) list \<Rightarrow> bool" where
  \<comment> \<open>The members of a value that came from JSON, before the version stamp.\<close>
  "wire_value ps \<longleftrightarrow> ''version'' \<notin> set (map fst ps) \<and> normalize_wire_value False (JObj ps) = JObj ps"

definition taskless :: "json \<Rightarrow> bool" where
  "taskless p \<longleftrightarrow> \<not> is_object (jget p ''task'')"

definition version_neutral :: "(string \<times> json) list \<Rightarrow> bool" where
  \<comment> \<open>A control, or a delivery that carries its payload twice and no task envelope.\<close>
  "version_neutral ps \<longleftrightarrow> wire_value ps \<and> jget (JObj ps) ''kind'' \<noteq> JStr ''send'' \<and>
     (jget (JObj ps) ''kind'' = JStr ''deliver'' \<longrightarrow>
        has_member ''payload'' (JObj ps) \<and> taskless (jget (JObj ps) ''payload'') \<and>
        (\<exists>qs. jget (JObj ps) ''payloads'' = JArr qs \<and> (\<forall>q \<in> set qs. is_object q \<and> taskless q)))"

lemma spread_stamped: "wire_value ps \<Longrightarrow> spread (stamped ps n) [(''version'', JNum m)] = stamped ps m"
  by (simp add: spread_def stamped_def wire_value_def update_new_key)

lemma spread_unstamped: "wire_value ps \<Longrightarrow> spread (JObj ps) [(''version'', JNum m)] = stamped ps m"
  using update_new_key [of "''version''" ps _ "[]"] by (simp add: spread_def stamped_def wire_value_def)

lemma key_lookup: "k \<in> set (map fst ps) \<longleftrightarrow> map_of ps k \<noteq> None"
  by (simp add: map_of_eq_None_iff)

lemma jget_stamped:
  "jget (stamped ps n) k = (if k = ''version'' \<and> k \<notin> set (map fst ps) then JNum n else jget (JObj ps) k)"
  by (auto simp: stamped_def map_of_append key_lookup simp del: set_map split: option.split)

lemma stamped_simps [simp]:
  "wire_value ps \<Longrightarrow> jget (stamped ps n) ''version'' = JNum n"
  "k \<noteq> ''version'' \<Longrightarrow> jget (stamped ps n) k = jget (JObj ps) k"
  "is_object (stamped ps n)"
  "k \<noteq> ''version'' \<Longrightarrow> has_member k (stamped ps n) \<longleftrightarrow> has_member k (JObj ps)"
  "has_member ''version'' (stamped ps n)"
  by (simp_all add: jget_stamped wire_value_def) (simp_all add: stamped_def is_object_def has_member_def)

lemma normalize_stamped [simp]:
  "wire_value ps \<Longrightarrow> normalize_wire_value False (stamped ps n) = stamped ps n"
  by (simp add: stamped_def wire_value_def)

lemma migrate_payload_taskless: "taskless p \<Longrightarrow> migrate_payload p = p"
  by (simp add: migrate_payload_def taskless_def)

lemma migrate_wire_v3_neutral:
  assumes "version_neutral ps"
  shows "migrate_wire_v3 (stamped ps n) = Inr (stamped ps 4)"
proof (cases "jget (JObj ps) ''kind'' = JStr ''deliver''")
  case False
  with assms show ?thesis
    by (simp add: migrate_wire_v3_def version_neutral_def spread_stamped del: jget_JObj)
next
  case True
  with assms obtain qs where w: "wire_value ps" and p: "has_member ''payload'' (JObj ps)"
    and tp: "taskless (jget (JObj ps) ''payload'')" and qs: "jget (JObj ps) ''payloads'' = JArr qs"
    and tq: "\<forall>q \<in> set qs. taskless q"
    by (auto simp: version_neutral_def simp del: jget_JObj)
  have ps1: "map_of ps ''payload'' = Some (jget (JObj ps) ''payload'')"
    using p by (auto simp: has_member_def key_lookup simp del: set_map)
  have ps2: "map_of ps ''payloads'' = Some (JArr qs)"
    using qs by (simp split: option.splits)
  have "map migrate_payload qs = qs" using tq by (simp add: map_idI migrate_payload_taskless)
  then have "migrate_wire_v3 (stamped ps n) =
      Inr (spread (stamped ps n) [(''payload'', jget (JObj ps) ''payload''), (''payloads'', JArr qs), (''version'', JNum 4)])"
    using True tp qs by (simp add: migrate_wire_v3_def migrate_payload_taskless del: jget_JObj)
  also have "\<dots> = Inr (stamped ps 4)"
    using ps1 ps2 spread_stamped [OF w, of n 4]
    by (simp add: spread_def stamped_def update_same map_of_append del: jget_JObj)
  finally show ?thesis .
qed

lemma walk_neutral:
  assumes "version_neutral ps" and "n \<in> {1, 2, 3, 4, 5, 6}"
  shows "walk_chain session_inbox_migrations 6 n (stamped ps n) = Inr (stamped ps 6)"
proof -
  let ?w = "\<lambda>n. walk_chain session_inbox_migrations 6 n (stamped ps n)"
  have w: "wire_value ps" using assms(1) by (simp add: version_neutral_def)
  have 6: "?w 6 = Inr (stamped ps 6)" by (subst walk_chain.simps) simp
  have 5: "?w 5 = ?w 6" by (subst walk_chain.simps) (simp add: session_inbox_migrations_def stamp_object_def spread_stamped w)
  have 4: "?w 4 = ?w 5" by (subst walk_chain.simps) (simp add: session_inbox_migrations_def stamp_object_def spread_stamped w)
  have 3: "?w 3 = ?w 4"
    by (subst walk_chain.simps) (simp add: session_inbox_migrations_def migrate_wire_v3_neutral [OF assms(1)] w)
  have 2: "?w 2 = ?w 3" by (subst walk_chain.simps) (simp add: session_inbox_migrations_def spread_stamped w)
  have v1: "migrate_wire_v1 (stamped ps 1) = Inr (stamped ps 2)"
    using assms(1) by (auto simp: migrate_wire_v1_def version_neutral_def spread_stamped simp del: jget_JObj)
  have 1: "?w 1 = ?w 2" by (subst walk_chain.simps) (simp add: session_inbox_migrations_def v1 w)
  from assms(2) show ?thesis using 1 2 3 4 5 6 by auto
qed

lemma walk_unversioned:
  assumes "version_neutral ps"
  shows "walk_chain session_inbox_migrations 6 0 (stamped ps 0) = Inr (stamped ps 6)"
proof -
  have w: "wire_value ps" using assms by (simp add: version_neutral_def)
  have v0: "migrate_wire_v0 (stamped ps 0) = Inr (stamped ps 1)"
    using assms by (auto simp: migrate_wire_v0_def version_neutral_def list_all_iff spread_stamped simp del: jget_JObj)
  have "walk_chain session_inbox_migrations 6 0 (stamped ps 0) = walk_chain session_inbox_migrations 6 1 (stamped ps 1)"
    by (subst walk_chain.simps) (simp add: session_inbox_migrations_def v0 w)
  then show ?thesis using walk_neutral [OF assms, of 1] by simp
qed

lemma contains_neutral: "version_neutral ps \<Longrightarrow> \<not> contains_current_task_messages (stamped ps n)"
  by (auto simp: contains_current_task_messages_def version_neutral_def has_current_task_messages_def
      taskless_def list_ex_iff simp del: jget_JObj)

lemma normalize_wire_stamped [simp]: "normalize_wire (stamped ps n) = normalize_wire (JObj ps)"
  by (simp add: normalize_wire_def select_def del: jget_JObj)

lemma decode_stamped:
  assumes "version_neutral ps" and n: "n \<in> {1, 2, 3, 4, 5, 6}"
  shows "decode (stamped ps n) = normalize_wire (JObj ps)"
proof -
  have w: "wire_value ps" using assms(1) by (simp add: version_neutral_def)
  have "whole n" and "\<not> n < 0" and "\<not> 6 < n" using n by (auto simp: whole_def)
  moreover obtain ms where "stamped ps n = JObj ms" by (simp add: stamped_def)
  ultimately have "run_migration_chain session_inbox_migrations 6 (Some 0) (stamped ps n) = Inr (stamped ps 6)"
    using walk_neutral [OF assms] stamped_simps(1) [OF w, of n]
    by (simp add: run_migration_chain_def Let_def del: jget_JObj)
  moreover have "jget (JObj ps) ''kind'' = JStr ''deliver'' \<longrightarrow> has_member ''payload'' (JObj ps)"
    using assms(1) by (simp add: version_neutral_def del: jget_JObj)
  ultimately show ?thesis
    using w assms(1)
    by (auto simp: decode_def numeric_version_def declared_version_def contains_neutral session_inbox_wire_version_def
        Let_def simp del: jget_JObj)
qed

lemma decode_unversioned:
  assumes "version_neutral ps"
  shows "decode (JObj ps) = normalize_wire (JObj ps)"
proof -
  have w: "wire_value ps" using assms by (simp add: version_neutral_def)
  then have no: "\<not> has_member ''version'' (JObj ps)" and v: "jget (JObj ps) ''version'' = JUndef"
    by (auto simp: wire_value_def has_member_def key_lookup simp del: set_map)
  have "run_migration_chain session_inbox_migrations 6 (Some 0) (JObj ps) = Inr (stamped ps 6)"
    using walk_unversioned [OF assms] v no spread_unstamped [OF w]
    by (simp add: run_migration_chain_def Let_def whole_def del: jget_JObj)
  moreover have "normalize_wire_value False (JObj ps) = JObj ps" using w by (simp add: wire_value_def)
  ultimately show ?thesis
    using w no v
    by (simp add: decode_def declared_version_def session_inbox_wire_version_def Let_def
        del: jget_JObj normalize_wire_value.simps)
qed

lemma decode_newer:
  assumes w: "wire_value ps" and n: "whole n" "6 < n"
  shows "decode (stamped ps n) = Inl (Chain_Failed (Newer_Version n))"
proof -
  obtain ms where "stamped ps n = JObj ms" by (simp add: stamped_def)
  then have "run_migration_chain session_inbox_migrations 6 (Some 0) (stamped ps n) = Inl (Newer_Version n)"
    using n stamped_simps(1) [OF w, of n]
    by (simp add: run_migration_chain_def Let_def del: jget_JObj)
  with w n show ?thesis
    by (auto simp: decode_def numeric_version_def declared_version_def session_inbox_wire_version_def Let_def
        simp del: jget_JObj)
qed

definition hello_wire :: "(string \<times> json) list" where
  "hello_wire = [(''kind'', JStr ''deliver''), (''payload'', JObj [(''message'', JStr ''hello'')]),
     (''payloads'', JArr [JObj [(''message'', JStr ''hello'')]])]"

lemma hello_wire_neutral: "version_neutral hello_wire"
  by (simp add: version_neutral_def wire_value_def hello_wire_def has_member_def taskless_def is_object_def)



end
