(* ===== verification/Network_Address.thy ===== *)
theory Network_Address
  imports Json_Text
begin

text \<open>
  Loopback and reserved addresses (\<open>shared/network-address.ts\<close>). The classification of an IP literal
  (\<open>isIP\<close>), the membership of an address in a block list (\<open>BlockList.check\<close>) and the URL parser are the
  host's: the fields of \<open>platform\<close>.
\<close>

type_synonym subnet = "string \<times> nat \<times> nat"
  \<comment> \<open>address, prefix length, family\<close>

record platform =
  parse_url :: "string \<Rightarrow> (string \<times> string) option" \<comment> \<open>protocol and host name\<close>
  is_ip :: "string \<Rightarrow> nat"
  block_list_check :: "subnet list \<Rightarrow> string \<Rightarrow> nat \<Rightarrow> bool"

definition reserved_ranges :: "subnet list" where
  "reserved_ranges = [(''0.0.0.0'', 8, 4), (''10.0.0.0'', 8, 4), (''100.64.0.0'', 10, 4), (''169.254.0.0'', 16, 4),
     (''172.16.0.0'', 12, 4), (''192.0.0.0'', 24, 4), (''192.0.2.0'', 24, 4), (''192.88.99.0'', 24, 4),
     (''192.168.0.0'', 16, 4), (''198.18.0.0'', 15, 4), (''198.51.100.0'', 24, 4), (''203.0.113.0'', 24, 4),
     (''224.0.0.0'', 4, 4), (''240.0.0.0'', 4, 4), (''::'', 128, 6), (''::'', 96, 6), (''64:ff9b::'', 96, 6),
     (''64:ff9b:1::'', 48, 6), (''100::'', 64, 6), (''2001::'', 23, 6), (''2001:db8::'', 32, 6), (''2002::'', 16, 6),
     (''fc00::'', 7, 6), (''fe80::'', 10, 6), (''ff00::'', 8, 6)]"

definition loopback_ranges :: "subnet list" where
  "loopback_ranges = [(''127.0.0.0'', 8, 4), (''::1'', 128, 6)]"

definition strip_brackets :: "string \<Rightarrow> string" where
  \<comment> \<open>\<open>replace(/^\[(.*)\]$/u, "$1")\<close>; the dot matches no line terminator.\<close>
  "strip_brackets s =
     (if 2 \<le> length s \<and> hd s = CHR ''['' \<and> last s = CHR '']'' \<and>
         (\<forall>c \<in> set (butlast (tl s)). c \<noteq> CHR 0x0A \<and> c \<noteq> CHR 0x0D)
      then butlast (tl s) else s)"

definition normalize_address :: "platform \<Rightarrow> string \<Rightarrow> string" where
  "normalize_address p host =
     (let without_zone = takeWhile (\<lambda>c. c \<noteq> CHR ''%'') (strip_brackets (trim host)) in
      if take 7 (lower_case without_zone) = ''::ffff:'' \<and> is_ip p (drop 7 without_zone) = 4
      then drop 7 without_zone else without_zone)"

definition drop_final_dot :: "string \<Rightarrow> string" where
  \<comment> \<open>\<open>replace(/\.$/u, "")\<close>\<close>
  "drop_final_dot s = (if s \<noteq> [] \<and> last s = CHR ''.'' then butlast s else s)"

definition is_loopback_hostname :: "platform \<Rightarrow> string \<Rightarrow> bool" where
  "is_loopback_hostname p hostname =
     (let normalized = drop_final_dot (lower_case (normalize_address p hostname)) in
      normalized = ''localhost'' \<or> suffix ''.localhost'' normalized \<or>
      (is_ip p normalized \<noteq> 0 \<and> block_list_check p loopback_ranges normalized (if is_ip p normalized = 4 then 4 else 6)))"

definition is_reserved_ip_address :: "platform \<Rightarrow> string \<Rightarrow> bool" where
  "is_reserved_ip_address p host =
     (let normalized = normalize_address p host in
      if is_loopback_hostname p normalized then False
      else if is_ip p normalized = 0 then False
      else block_list_check p reserved_ranges normalized (if is_ip p normalized = 4 then 4 else 6))"

definition is_private_or_reserved_ip_address :: "platform \<Rightarrow> string \<Rightarrow> bool" where
  "is_private_or_reserved_ip_address p host \<longleftrightarrow> is_loopback_hostname p host \<or> is_reserved_ip_address p host"

end
