(* ===== verification/Proxy_Requests.thy ===== *)
theory Proxy_Requests
  imports Session_State Json_Objects Network_Address
begin

text \<open>
  The routes of human-input requests that a session proxies for its descendants
  (\<open>harness/proxy-input-requests.ts\<close>): the parser of the stored map, its writers and the projection of a
  child's event into routes. The inbox address a route carries stays \<open>json\<close>: the parser checks it and
  stores it unchanged. \<open>SessionInboxAddress\<close> is from \<open>execution/wire/session-inbox-contract.ts\<close>.
\<close>

section \<open>Routes\<close>

datatype request_kind = Question | Session_Limit | Tool_Approval

definition kind_name :: "request_kind \<Rightarrow> string" where
  "kind_name k = (case k of Question \<Rightarrow> ''question'' | Session_Limit \<Rightarrow> ''session-limit''
     | Tool_Approval \<Rightarrow> ''tool-approval'')"

definition input_request_kind :: "json \<Rightarrow> request_kind option" where
  "input_request_kind j = (case j of
     JStr s \<Rightarrow> find (\<lambda>k. kind_name k = s) [Question, Session_Limit, Tool_Approval] | _ \<Rightarrow> None)"

record request_batch =
  approval_request_ids :: "string list"
  request_ids :: "string list"

record proxy_request =
  answer_hook :: "string option" \<comment> \<open>the run id of the route\<close>
  route_batch :: "request_batch option"
  child_token :: string
  child_inbox :: "json option"
  child_request_id :: "string option"
  child_response_url :: "string option"
  route_kind :: request_kind
  route_task :: "string option"

definition proxy_input_requests_key :: string where
  "proxy_input_requests_key = ''eve.runtime.proxyInputRequests''"

definition create_task_input_request_id :: "string \<Rightarrow> string \<Rightarrow> string" where
  "create_task_input_request_id task child = task @ '':'' @ child"

definition is_session_inbox_address :: "json \<Rightarrow> bool" where
  "is_session_inbox_address v =
     ((case jget v ''sessionId'' of JStr s \<Rightarrow> s \<noteq> [] \<and> CHR '':'' \<notin> set s | _ \<Rightarrow> False) \<and>
      (case jget v ''version'' of JNum n \<Rightarrow> whole n \<and> \<bar>n\<bar> \<le> 9007199254740991 \<and> 0 < n | _ \<Rightarrow> False))"

definition is_allowed_child_response_url :: "platform \<Rightarrow> string \<Rightarrow> bool" where
  "is_allowed_child_response_url p v = (case parse_url p v of
     None \<Rightarrow> False
   | Some (protocol, hostname) \<Rightarrow>
       protocol = ''https:'' \<or> (protocol = ''http:'' \<and> is_loopback_hostname p hostname))"

section \<open>Parsing a stored route\<close>

definition parse_answer_hook_route :: "json \<Rightarrow> string option" where
  "parse_answer_hook_route v = non_empty_string (jget v ''runId'')"

definition string_array :: "json \<Rightarrow> string list option" where
  "string_array j = (case j of JArr xs \<Rightarrow> array_schema string_schema xs | _ \<Rightarrow> None)"

definition parse_proxy_input_request_batch :: "json \<Rightarrow> request_batch option" where
  "parse_proxy_input_request_batch v =
     (case (string_array (jget v ''approvalRequestIds''), string_array (jget v ''requestIds'')) of
        (Some as, Some is) \<Rightarrow>
          if length (js_set is) \<noteq> length is \<or> list_ex (\<lambda>a. a \<notin> set is) as then None
          else Some \<lparr>approval_request_ids = as, request_ids = is\<rparr>
      | _ \<Rightarrow> None)"

definition optional_member :: "(json \<Rightarrow> 'a option) \<Rightarrow> json \<Rightarrow> 'a option option" where
  \<comment> \<open>\<open>undefined\<close> is accepted and stays absent; another value has to pass the check.\<close>
  "optional_member chk v = (if v = JUndef then Some None else map_option Some (chk v))"

definition parse_proxy_input_request :: "platform \<Rightarrow> string \<Rightarrow> json \<Rightarrow> proxy_request option" where
  "parse_proxy_input_request p i v =
     (case (jget v ''childContinuationToken'', input_request_kind (jget v ''kind''),
            optional_member non_empty_string (jget v ''taskId''),
            optional_member non_empty_string (jget v ''childRequestId''),
            optional_member (url_schema (is_allowed_child_response_url p)) (jget v ''childResponseUrl''),
            optional_member (\<lambda>a. if is_session_inbox_address a then Some a else None) (jget v ''childSessionInbox'')) of
        (JStr token, Some kind, Some task, Some child, Some url, Some inbox) \<Rightarrow>
          (let hook = parse_answer_hook_route (jget v ''answerHook'') in
           if (task = None) \<noteq> (child = None) then None
           else if has_member ''answerHook'' v \<and> hook = None then None
           else Some \<lparr>answer_hook = hook,
             route_batch = (case parse_proxy_input_request_batch (jget v ''batch'') of
                Some b \<Rightarrow> if i \<in> set (request_ids b) then Some b else None | None \<Rightarrow> None),
             child_token = token, child_inbox = inbox, child_request_id = child, child_response_url = url,
             route_kind = kind, route_task = task\<rparr>)
      | _ \<Rightarrow> None)"

section \<open>The stored map\<close>

type_synonym routes = "(string \<times> proxy_request) list"

definition read_map :: "platform \<Rightarrow> state_map option \<Rightarrow> routes" where
  "read_map p s = (case state_get s proxy_input_requests_key of
     JObj ps \<Rightarrow> List.map_filter (\<lambda>(k, v). map_option (Pair k) (parse_proxy_input_request p k v)) ps
   | _ \<Rightarrow> [])"

definition get_proxy_input_requests :: "platform \<Rightarrow> state_map option \<Rightarrow> routes" where
  "get_proxy_input_requests = read_map"

definition has_proxy_input_requests :: "platform \<Rightarrow> state_map option \<Rightarrow> bool" where
  "has_proxy_input_requests p s \<longleftrightarrow> read_map p s \<noteq> []"

definition route_batch_json :: "request_batch \<Rightarrow> json" where
  "route_batch_json b = JObj [(''approvalRequestIds'', JArr (map JStr (approval_request_ids b))),
     (''requestIds'', JArr (map JStr (request_ids b)))]"

definition route_json :: "proxy_request \<Rightarrow> json" where
  "route_json r = JObj (
     opt_json ''answerHook'' (\<lambda>i. JObj [(''runId'', JStr i)]) (answer_hook r) @
     opt_json ''batch'' route_batch_json (route_batch r) @
     [(''childContinuationToken'', JStr (child_token r)), (''kind'', JStr (kind_name (route_kind r)))] @
     opt_json ''childRequestId'' JStr (child_request_id r) @
     opt_json ''childResponseUrl'' JStr (child_response_url r) @
     opt_json ''childSessionInbox'' id (child_inbox r) @
     opt_json ''taskId'' JStr (route_task r))"

definition routes_json :: "routes \<Rightarrow> json" where
  "routes_json rs = JObj (map (\<lambda>(i, r). (i, route_json r)) rs)"

definition upsert_proxy_input_request_state ::
  "platform \<Rightarrow> routes \<Rightarrow> string \<Rightarrow> state_map option \<Rightarrow> state_map option" where
  "upsert_proxy_input_request_state p entries token s =
     (let kept = filter (\<lambda>(i, r). child_token r \<noteq> token) (read_map p s);
          next_map = foldl (\<lambda>m (i, r). AList.update i r m) kept entries
      in state_or_undefined
          (if next_map = [] then AList.delete proxy_input_requests_key (own_state s)
           else state_put proxy_input_requests_key (routes_json next_map) s))"

definition upsert_proxy_input_requests ::
  "platform \<Rightarrow> routes \<Rightarrow> string \<Rightarrow> 'a stateful_scheme \<Rightarrow> 'a stateful_scheme" where
  "upsert_proxy_input_requests p entries token session =
     session\<lparr>state := upsert_proxy_input_request_state p entries token (state session)\<rparr>"

definition write_map :: "'a stateful_scheme \<Rightarrow> routes \<Rightarrow> 'a stateful_scheme" where
  "write_map session entries =
     (if entries = []
      then session\<lparr>state := state_or_undefined (AList.delete proxy_input_requests_key (own_state (state session)))\<rparr>
      else session\<lparr>state := Some (state_put proxy_input_requests_key (routes_json entries) (state session))\<rparr>)"

definition clear_proxy_input_requests_where ::
  "platform \<Rightarrow> 'a stateful_scheme \<Rightarrow> (proxy_request \<Rightarrow> bool) \<Rightarrow> 'a stateful_scheme" where
  "clear_proxy_input_requests_where p session sel =
     (let current = read_map p (state session) in
      if list_ex (\<lambda>(i, r). sel r) current then write_map session (filter (\<lambda>(i, r). \<not> sel r) current) else session)"

definition clear_proxy_input_requests_for_child ::
  "platform \<Rightarrow> 'a stateful_scheme \<Rightarrow> string \<Rightarrow> 'a stateful_scheme" where
  "clear_proxy_input_requests_for_child p session token =
     clear_proxy_input_requests_where p session (\<lambda>r. child_token r = token)"

definition clear_proxy_input_requests_for_task ::
  "platform \<Rightarrow> 'a stateful_scheme \<Rightarrow> string \<Rightarrow> 'a stateful_scheme" where
  "clear_proxy_input_requests_for_task p session task =
     clear_proxy_input_requests_where p session (\<lambda>r. route_task r = Some task)"

definition retire_proxy_input_requests ::
  "platform \<Rightarrow> 'a stateful_scheme \<Rightarrow> string list \<Rightarrow> 'a stateful_scheme" where
  "retire_proxy_input_requests p session ids =
     (let (next_map, changed) = foldl (\<lambda>(m, changed) i.
            if i \<in> set (map fst m) then (AList.delete i m, True) else (m, changed))
          (read_map p (state session), False) ids
      in if changed then write_map session next_map else session)"

definition clear_all_proxy_input_requests :: "platform \<Rightarrow> 'a stateful_scheme \<Rightarrow> 'a stateful_scheme" where
  "clear_all_proxy_input_requests p session =
     (if has_proxy_input_requests p (state session) then write_map session [] else session)"

section \<open>From a child's event to routes\<close>

record hook_request =
  hook_request_id :: string
  hook_request_kind :: request_kind

record input_request_hook =
  hook_child_token :: string
  hook_child_session :: string
  hook_child_inbox :: "json option"
  hook_requests :: "hook_request list"

definition to_proxy_input_request_entries :: "input_request_hook \<Rightarrow> string option \<Rightarrow> routes" where
  "to_proxy_input_request_entries payload task =
     (let rs = hook_requests payload;
          b = \<lparr>approval_request_ids =
                map hook_request_id (filter (\<lambda>r. hook_request_kind r = Tool_Approval) rs),
               request_ids = map hook_request_id rs\<rparr>
      in map (\<lambda>r. (hook_request_id r,
           \<lparr>answer_hook = None, route_batch = Some b, child_token = hook_child_token payload,
            child_inbox = (case hook_child_inbox payload of
              Some a \<Rightarrow> if jget a ''sessionId'' = JStr (hook_child_session payload) then Some a else None
            | None \<Rightarrow> None),
            child_request_id = None, child_response_url = None,
            route_kind = hook_request_kind r, route_task = task\<rparr>)) rs)"

section \<open>A route survives the round trip\<close>

definition wf_batch :: "request_batch \<Rightarrow> bool" where
  "wf_batch b \<longleftrightarrow> distinct (request_ids b) \<and> set (approval_request_ids b) \<subseteq> set (request_ids b)"

definition wf_route :: "platform \<Rightarrow> string \<Rightarrow> proxy_request \<Rightarrow> bool" where
  "wf_route p i r \<longleftrightarrow> answer_hook r \<noteq> Some [] \<and>
     (\<forall>b. route_batch r = Some b \<longrightarrow> wf_batch b \<and> i \<in> set (request_ids b)) \<and>
     (\<forall>a. child_inbox r = Some a \<longrightarrow> is_session_inbox_address a) \<and>
     child_request_id r \<noteq> Some [] \<and> route_task r \<noteq> Some [] \<and>
     ((route_task r = None) = (child_request_id r = None)) \<and>
     (\<forall>u. child_response_url r = Some u \<longrightarrow> is_allowed_child_response_url p u)"

lemma string_array_map [simp]: "string_array (JArr (map JStr xs)) = Some xs"
  by (simp add: string_array_def array_schema_map string_schema_def)

lemma input_request_kind_name [simp]: "input_request_kind (JStr (kind_name k)) = Some k"
  by (cases k) (simp_all add: input_request_kind_def kind_name_def)

lemma parse_batch_json [simp]: "wf_batch b \<Longrightarrow> parse_proxy_input_request_batch (route_batch_json b) = Some b"
  by (auto simp: parse_proxy_input_request_batch_def route_batch_json_def wf_batch_def length_js_set_eq list_ex_iff)

lemma inbox_address_object [simp]: "\<not> is_session_inbox_address JUndef"
  by (simp add: is_session_inbox_address_def jget_def)

lemma opt_json_key [simp]: "k \<in> fst ` set (opt_json k' f x) \<longleftrightarrow> k = k' \<and> x \<noteq> None"
  by (cases x) auto

lemma jget_route_json:
  "jget (route_json r) ''answerHook'' = (case answer_hook r of None \<Rightarrow> JUndef | Some i \<Rightarrow> JObj [(''runId'', JStr i)])"
  "jget (route_json r) ''batch'' = (case route_batch r of None \<Rightarrow> JUndef | Some b \<Rightarrow> route_batch_json b)"
  "jget (route_json r) ''childContinuationToken'' = JStr (child_token r)"
  "jget (route_json r) ''kind'' = JStr (kind_name (route_kind r))"
  "jget (route_json r) ''childRequestId'' = (case child_request_id r of None \<Rightarrow> JUndef | Some i \<Rightarrow> JStr i)"
  "jget (route_json r) ''childResponseUrl'' = (case child_response_url r of None \<Rightarrow> JUndef | Some i \<Rightarrow> JStr i)"
  "jget (route_json r) ''childSessionInbox'' = (case child_inbox r of None \<Rightarrow> JUndef | Some i \<Rightarrow> i)"
  "jget (route_json r) ''taskId'' = (case route_task r of None \<Rightarrow> JUndef | Some i \<Rightarrow> JStr i)"
  by (simp_all add: route_json_def opt_json_def split: option.split)

lemma has_answer_hook [simp]: "has_member ''answerHook'' (route_json r) \<longleftrightarrow> answer_hook r \<noteq> None"
  by (simp add: route_json_def has_member_def image_Un del: not_None_eq)

lemma parse_route_json:
  assumes "wf_route p i r"
  shows "parse_proxy_input_request p i (route_json r) = Some r"
proof -
  note w = assms [unfolded wf_route_def]
  have "optional_member non_empty_string (jget (route_json r) ''taskId'') = Some (route_task r)"
    "optional_member non_empty_string (jget (route_json r) ''childRequestId'') = Some (child_request_id r)"
    using w by (auto simp: jget_route_json optional_member_def split: option.split)
  moreover have "optional_member (url_schema (is_allowed_child_response_url p)) (jget (route_json r) ''childResponseUrl'')
      = Some (child_response_url r)"
    using w by (auto simp: jget_route_json optional_member_def url_schema_def split: option.split)
  moreover have "optional_member (\<lambda>a. if is_session_inbox_address a then Some a else None)
      (jget (route_json r) ''childSessionInbox'') = Some (child_inbox r)"
    using w by (auto simp: jget_route_json optional_member_def split: option.split)
  moreover have "parse_answer_hook_route (jget (route_json r) ''answerHook'') = answer_hook r"
    using w by (auto simp: jget_route_json parse_answer_hook_route_def non_empty_string_def split: option.split)
  moreover have "(case parse_proxy_input_request_batch (jget (route_json r) ''batch'') of
      Some b \<Rightarrow> if i \<in> set (request_ids b) then Some b else None | None \<Rightarrow> None) = route_batch r"
    using w by (cases "route_batch r")
      (simp_all add: jget_route_json, simp add: parse_proxy_input_request_batch_def string_array_def jget_def)
  ultimately show ?thesis
    using w by (simp add: parse_proxy_input_request_def Let_def jget_route_json del: not_None_eq)
qed

lemma parse_needs_both:
  \<comment> \<open>A route that names a task but no child-local request id, or the reverse, is dropped on the next read.\<close>
  assumes "(route_task r = None) \<noteq> (child_request_id r = None)"
  shows "parse_proxy_input_request p i (route_json r) = None"
proof -
  let ?m = "\<lambda>x. optional_member non_empty_string (case x of None \<Rightarrow> JUndef | Some i \<Rightarrow> JStr i)"
  have m: "?m x = None \<or> ?m x = Some x" for x by (cases x) (simp_all add: optional_member_def)
  from m [of "route_task r"] m [of "child_request_id r"] assms show ?thesis
    unfolding parse_proxy_input_request_def jget_route_json input_request_kind_name
    by (elim disjE) (simp_all split: option.split)
qed

lemma array_schema_strings: "array_schema string_schema js = Some xs \<Longrightarrow> js = map JStr xs"
  by (induction js arbitrary: xs) (auto simp: string_schema_def split: option.splits json.splits)

lemma parse_wf:
  assumes "parse_proxy_input_request p i v = Some r"
  shows "wf_route p i r"
proof -
  have batch: "wf_batch b" if "parse_proxy_input_request_batch v' = Some b" for v' b
    using that by (auto simp: parse_proxy_input_request_batch_def wf_batch_def length_js_set_eq list_ex_iff
        split: option.splits if_splits)
  have str: "optional_member non_empty_string v' = Some x \<Longrightarrow> x \<noteq> Some []" for v' x
    by (auto simp: optional_member_def non_empty_string_def split: if_splits json.splits)
  have url: "optional_member (url_schema u) v' = Some x \<Longrightarrow> x = Some y \<Longrightarrow> u y" for u v' x y
    by (auto simp: optional_member_def url_schema_def split: if_splits json.splits)
  have inbox: "optional_member (\<lambda>a. if is_session_inbox_address a then Some a else None) v' = Some x \<Longrightarrow>
      x = Some y \<Longrightarrow> is_session_inbox_address y" for v' x y
    by (auto simp: optional_member_def split: if_splits)
  have hook: "parse_answer_hook_route v' \<noteq> Some []" for v'
    by (auto simp: parse_answer_hook_route_def non_empty_string_def split: json.splits)
  show ?thesis
    using assms unfolding parse_proxy_input_request_def wf_route_def
    by (auto simp: Let_def split: json.splits option.splits if_splits
        dest: str url inbox batch simp: hook)
qed

lemma read_map_wf: "(i, r) \<in> set (read_map p s) \<Longrightarrow> wf_route p i r"
  by (auto simp: read_map_def map_filter_def split: json.splits dest: parse_wf)

definition wf_routes :: "platform \<Rightarrow> routes \<Rightarrow> bool" where
  "wf_routes p rs \<longleftrightarrow> list_all (\<lambda>(i, r). wf_route p i r) rs"

lemma read_written:
  assumes "wf_routes p rs"
  shows "List.map_filter (\<lambda>(k, v). map_option (Pair k) (parse_proxy_input_request p k v))
      (map (\<lambda>(i, r). (i, route_json r)) rs) = rs"
  using assms by (induction rs) (auto simp: wf_routes_def parse_route_json List.map_filter_simps)

lemma read_map_put [simp]:
  "wf_routes p rs \<Longrightarrow> read_map p (Some (state_put proxy_input_requests_key (routes_json rs) s)) = rs"
  by (simp add: read_map_def routes_json_def read_written)

lemma read_map_or_undefined [simp]: "read_map p (state_or_undefined m) = read_map p (Some m)"
  by (simp add: read_map_def)

lemma read_map_delete [simp]: "read_map p (Some (AList.delete proxy_input_requests_key m)) = []"
  by (simp add: read_map_def)

interpretation proxy_slot:
  state_slot proxy_input_requests_key "\<lambda>rs m. state_put proxy_input_requests_key (routes_json rs) (Some m)"
    "\<lambda>m. read_map p (Some m)" id "wf_routes p" for p
proof unfold_locales
  fix s t :: state_map
  assume "map_of s proxy_input_requests_key = map_of t proxy_input_requests_key"
  then have "state_get (Some s) proxy_input_requests_key = state_get (Some t) proxy_input_requests_key"
    by (intro state_get_cong) simp
  then show "read_map p (Some s) = read_map p (Some t)"
    by (simp add: read_map_def)
next
  show "map_of (state_put proxy_input_requests_key (routes_json v) (Some m)) k = map_of m k"
    if "k \<noteq> proxy_input_requests_key" for k v m
    using that by (simp add: state_put_def update_conv')
qed simp

section \<open>What the writers leave\<close>

lemma wf_routes_read [simp]: "wf_routes p (read_map p s)"
  by (auto simp: wf_routes_def list_all_iff intro: read_map_wf)

lemma wf_routes_filter: "wf_routes p rs \<Longrightarrow> wf_routes p (filter P rs)"
  by (auto simp: wf_routes_def list_all_iff)

lemma wf_routes_update: "wf_routes p rs \<Longrightarrow> wf_route p i r \<Longrightarrow> wf_routes p (AList.update i r rs)"
  by (induction rs) (auto simp: wf_routes_def)

lemma wf_routes_updates:
  "wf_routes p rs \<Longrightarrow> wf_routes p es \<Longrightarrow> wf_routes p (foldl (\<lambda>m (i, r). AList.update i r m) rs es)"
proof (induction es arbitrary: rs)
  case (Cons e es)
  obtain i r where e: "e = (i, r)" by force
  with Cons.prems have "wf_route p i r" and "wf_routes p es" by (simp_all add: wf_routes_def)
  with Cons show ?case by (simp add: e wf_routes_update)
qed simp

lemma wf_routes_delete: "wf_routes p rs \<Longrightarrow> wf_routes p (AList.delete i rs)"
  by (simp add: AList.delete_eq wf_routes_filter)

lemma map_of_filter_snd:
  "distinct (map fst rs) \<Longrightarrow> map_of (filter (\<lambda>(i, r). P r) rs) i =
     (case map_of rs i of None \<Rightarrow> None | Some r \<Rightarrow> if P r then Some r else None)"
proof (induction rs)
  case (Cons e rs)
  moreover have "map_of rs j = None" if "j \<notin> fst ` set rs" for j
    using that by (simp add: map_of_eq_None_iff)
  ultimately show ?case by (cases e) (auto split: option.split)
qed simp

lemma upsert_reads_back:
  assumes "wf_routes p entries"
  shows "read_map p (upsert_proxy_input_request_state p entries token s) =
    foldl (\<lambda>m (i, r). AList.update i r m) (filter (\<lambda>(i, r). child_token r \<noteq> token) (read_map p s)) entries"
  using assms
  by (simp add: upsert_proxy_input_request_state_def Let_def wf_routes_updates wf_routes_filter)

lemma upsert_other_key:
  "k \<noteq> proxy_input_requests_key \<Longrightarrow>
     state_get (upsert_proxy_input_request_state p entries token s) k = state_get s k"
  by (simp add: upsert_proxy_input_request_state_def Let_def)

lemma write_map_reads_back:
  "wf_routes p rs \<Longrightarrow> read_map p (state (write_map session rs)) = rs"
  by (simp add: write_map_def)

lemma retire_steps:
  "foldl (\<lambda>(m, changed) i. if i \<in> set (map fst m) then (AList.delete i m, True) else (m, changed)) (m, ch) ids =
     (m', ch') \<Longrightarrow> wf_routes p m \<Longrightarrow>
   wf_routes p m' \<and> map_of m' = map_of m |` (- set ids) \<and> (\<not> ch' \<longrightarrow> m' = m \<and> \<not> ch)"
proof (induction ids arbitrary: m ch)
  case (Cons i ids)
  show ?case
  proof (cases "i \<in> set (map fst m)")
    case True
    with Cons.prems(1) have "foldl (\<lambda>(m, changed) i. if i \<in> set (map fst m) then (AList.delete i m, True) else (m, changed))
        (AList.delete i m, True) ids = (m', ch')" by simp
    from Cons.IH [OF this wf_routes_delete [OF Cons.prems(2)]] show ?thesis
      by (auto simp: delete_conv' restrict_map_def fun_eq_iff)
  next
    case False
    then have none: "map_of m i = None" by (simp add: map_of_eq_None_iff)
    from False Cons.prems(1) have "foldl (\<lambda>(m, changed) i. if i \<in> set (map fst m) then (AList.delete i m, True) else (m, changed))
        (m, ch) ids = (m', ch')" by simp
    from Cons.IH [OF this Cons.prems(2)] none show ?thesis
      by (auto simp: restrict_map_def fun_eq_iff)
  qed
qed (auto simp: restrict_map_def)

lemma retire_reads_back:
  "map_of (read_map p (state (retire_proxy_input_requests p session ids))) i =
     (if i \<in> set ids then None else map_of (read_map p (state session)) i)"
proof -
  obtain m ch where f: "foldl (\<lambda>(m, changed) i. if i \<in> set (map fst m) then (AList.delete i m, True) else (m, changed))
      (read_map p (state session), False) ids = (m, ch)" by force
  from retire_steps [OF f wf_routes_read] have "wf_routes p m"
    and "map_of m i = (if i \<in> set ids then None else map_of (read_map p (state session)) i)"
    and "\<not> ch \<Longrightarrow> m = read_map p (state session)"
    by (auto simp: restrict_map_def)
  with f show ?thesis by (cases ch) (simp_all add: retire_proxy_input_requests_def Let_def write_map_reads_back)
qed

definition sample_route :: "string \<Rightarrow> string \<Rightarrow> proxy_request" where
  "sample_route token i = \<lparr>answer_hook = None, route_batch = Some \<lparr>approval_request_ids = [i], request_ids = [i]\<rparr>,
     child_token = token, child_inbox = None, child_request_id = None, child_response_url = None,
     route_kind = Tool_Approval, route_task = None\<rparr>"

definition offline :: platform where
  "offline = \<lparr>parse_url = (\<lambda>_. None), is_ip = (\<lambda>_. 0), block_list_check = (\<lambda>_ _ _. False)\<rparr>"

lemma sample_route_wf [simp]: "wf_route p i (sample_route token i)"
  by (simp add: wf_route_def sample_route_def wf_batch_def)

lemma sample_route_token [simp]: "child_token (sample_route token i) = token"
  by (simp add: sample_route_def)

definition two_routes :: "state_map option" where
  "two_routes = upsert_proxy_input_request_state offline [(''b1'', sample_route ''child2'' ''b1'')] ''child2''
     (upsert_proxy_input_request_state offline [(''a1'', sample_route ''child1'' ''a1'')] ''child1'' None)"

lemma two_routes_read: "read_map offline two_routes = [(''a1'', sample_route ''child1'' ''a1''), (''b1'', sample_route ''child2'' ''b1'')]"
proof -
  have one: "read_map offline (upsert_proxy_input_request_state offline [(''a1'', sample_route ''child1'' ''a1'')] ''child1'' None) =
      [(''a1'', sample_route ''child1'' ''a1'')]"
    by (subst upsert_reads_back) (simp add: wf_routes_def, simp add: read_map_def state_get_def)
  show ?thesis
    unfolding two_routes_def by (subst upsert_reads_back) (simp add: wf_routes_def, simp add: one)
qed

text \<open>
  A child's new batch of requests replaces its old one and touches nothing else. After the write, a
  request id routes as the last of the new entries says; otherwise as before, unless its route belonged to
  that child; all other entries of the session state are unchanged. Retiring answered ids removes exactly
  their routes.
\<close>
theorem proxy_batch_replaced:
  assumes "wf_routes p entries" and "distinct (map fst (read_map p (state session)))"
  shows "map_of (read_map p (state (upsert_proxy_input_requests p entries token session))) i =
      (case map_of (rev entries) i of
         Some r \<Rightarrow> Some r
       | None \<Rightarrow> (case map_of (read_map p (state session)) i of
           Some r \<Rightarrow> if child_token r = token then None else Some r | None \<Rightarrow> None)) \<and>
    (k = proxy_input_requests_key \<or>
       state_get (state (upsert_proxy_input_requests p entries token session)) k = state_get (state session) k) \<and>
    map_of (read_map p (state (retire_proxy_input_requests p session ids))) i =
      (if i \<in> set ids then None else map_of (read_map p (state session)) i)"
  using upsert_other_key [of k p entries token "state session"]
  by (auto simp: upsert_proxy_input_requests_def upsert_reads_back [OF assms(1)] foldl_update_map_of
      map_of_filter_snd [OF assms(2)] retire_reads_back map_add_def split: option.split)

lemma proxy_batch_replaced_witness:
  "map_of (read_map offline (state (upsert_proxy_input_requests offline [(''a2'', sample_route ''child1'' ''a2'')]
       ''child1'' \<lparr>state = two_routes\<rparr>))) ''a1'' = None \<and>
   map_of (read_map offline (state (retire_proxy_input_requests offline \<lparr>state = two_routes\<rparr> [''a1'']))) ''b1'' =
     Some (sample_route ''child2'' ''b1'')"
proof -
  have "wf_routes offline [(''a2'', sample_route ''child1'' ''a2'')]" by (simp add: wf_routes_def)
  moreover have "distinct (map fst (read_map offline (state \<lparr>state = two_routes\<rparr>)))" by (simp add: two_routes_read)
  ultimately show ?thesis
    using proxy_batch_replaced [of offline "[(''a2'', sample_route ''child1'' ''a2'')]" "\<lparr>state = two_routes\<rparr>" "''child1''" "''a1''"]
      proxy_batch_replaced [of offline "[(''a2'', sample_route ''child1'' ''a2'')]" "\<lparr>state = two_routes\<rparr>" "''child1''"
        "''b1''" "[]" "[''a1'']"]
    by (simp add: two_routes_read)
qed

end
