(* ===== verification/Proxy_Routing.thy ===== *)
theory Proxy_Routing
  imports Proxy_Requests Pending_Input "HOL-Library.Multiset"
begin

text \<open>
  The split of one deliver payload into the parent's remainder and one bucket for each descendant
  (\<open>routeDeliverPayload\<close> of \<open>subagents/hitl-proxy.ts\<close>). The buckets are a \<open>Map\<close> keyed by the route's
  address joined with NUL characters.
\<close>

section \<open>Buckets\<close>

record child_bucket =
  bucket_route :: proxy_request \<comment> \<open>the first route of the bucket, whose address fields the bucket copies\<close>
  parent_request_ids :: "string list"
  bucket_responses :: "json list"
  bucket_routes :: "proxy_request list"

record routed_child =
  routed_answer_hook :: "string option"
  routed_token :: string
  routed_inbox :: "json option"
  routed_url :: "string option"
  routed_task :: "string option"
  routed_responses :: "json list"
  retire_request_ids :: "string list"

record routed_payload =
  for_children :: "routed_child list"
  for_self :: "json option"
  cancel_turn :: bool

definition to_child_input_response :: "json \<Rightarrow> proxy_request \<Rightarrow> json" where
  "to_child_input_response response r = (case child_request_id r of
     None \<Rightarrow> response | Some i \<Rightarrow> spread response [(''requestId'', JStr i)])"

definition nul :: char where
  "nul = CHR 0x00"

definition bucket_key :: "proxy_request \<Rightarrow> string" where
  "bucket_key r = child_token r @ [nul] @
     (case child_inbox r of Some a \<Rightarrow> (case jstr a ''sessionId'' of Some i \<Rightarrow> i | None \<Rightarrow> []) | None \<Rightarrow> []) @ [nul] @
     (case child_response_url r of Some u \<Rightarrow> u | None \<Rightarrow> ''local'') @ [nul] @
     (case route_task r of Some t \<Rightarrow> t | None \<Rightarrow> [])"

type_synonym buckets = "(string \<times> child_bucket) list"

definition extend_bucket :: "json \<times> proxy_request \<Rightarrow> child_bucket option \<Rightarrow> child_bucket" where
  "extend_bucket x existing = (case (x, existing) of
     ((response, r), None) \<Rightarrow> \<lparr>bucket_route = r, parent_request_ids = [request_id response],
        bucket_responses = [to_child_input_response response r], bucket_routes = [r]\<rparr>
   | ((response, r), Some b) \<Rightarrow> b\<lparr>parent_request_ids := parent_request_ids b @ [request_id response],
        bucket_responses := bucket_responses b @ [to_child_input_response response r],
        bucket_routes := bucket_routes b @ [r]\<rparr>)"

definition add_response :: "json \<Rightarrow> proxy_request \<Rightarrow> buckets \<Rightarrow> buckets" where
  "add_response response r bs =
     AList.update (bucket_key r) (extend_bucket (response, r) (map_of bs (bucket_key r))) bs"

definition same_batch :: "proxy_request \<Rightarrow> request_batch \<Rightarrow> string \<Rightarrow> bool" where
  "same_batch r b token \<longleftrightarrow> child_token r = token \<and>
     (case route_batch r of None \<Rightarrow> False | Some b' \<Rightarrow> request_ids b' = request_ids b)"

definition batch_resolves :: "request_batch \<Rightarrow> string \<Rightarrow> routes \<Rightarrow> string set \<Rightarrow> bool" where
  "batch_resolves b token entries response_ids =
     (if approval_request_ids b = [] then True
      else list_all (\<lambda>i. case map_of entries i of
          None \<Rightarrow> True
        | Some r \<Rightarrow> \<not> same_batch r b token \<or> i \<in> response_ids) (approval_request_ids b))"

definition to_routed_child :: "routes \<Rightarrow> child_bucket \<Rightarrow> routed_child" where
  "to_routed_child entries b =
     (let r = bucket_route b; ids = set (parent_request_ids b);
          retired = concat (map (\<lambda>t. case route_batch t of
              Some c \<Rightarrow> if batch_resolves c (child_token r) entries ids then request_ids c else []
            | None \<Rightarrow> []) (bucket_routes b))
      in \<lparr>routed_answer_hook = answer_hook r, routed_token = child_token r, routed_inbox = child_inbox r,
          routed_url = child_response_url r, routed_task = route_task r, routed_responses = bucket_responses b,
          retire_request_ids = js_set (js_set (parent_request_ids b) @ retired)\<rparr>)"

definition admitted_route :: "(string \<Rightarrow> proxy_request \<Rightarrow> bool) \<Rightarrow> routes \<Rightarrow> json \<Rightarrow> proxy_request option" where
  "admitted_route allow entries response = (case map_of entries (request_id response) of
     None \<Rightarrow> None | Some r \<Rightarrow> if allow (request_id response) r then Some r else None)"

definition stops_session :: "json \<Rightarrow> proxy_request \<Rightarrow> bool" where
  "stops_session response r \<longleftrightarrow> route_kind r = Session_Limit \<and> jget response ''optionId'' = JStr ''stop''"

fun split_responses ::
  "(string \<Rightarrow> proxy_request \<Rightarrow> bool) \<Rightarrow> routes \<Rightarrow> json list \<Rightarrow> buckets \<times> json list \<times> bool \<Rightarrow>
     buckets \<times> json list \<times> bool" where
  "split_responses allow entries [] acc = acc"
| "split_responses allow entries (x # xs) (bs, unrouted, stop) =
     (case admitted_route allow entries x of
        None \<Rightarrow> split_responses allow entries xs (bs, unrouted @ [x], stop)
      | Some r \<Rightarrow> split_responses allow entries xs (add_response x r bs, unrouted, stop \<or> stops_session x r))"

definition payload_responses :: "json \<Rightarrow> json list" where
  "payload_responses payload = (case jget payload ''inputResponses'' of JArr xs \<Rightarrow> xs | _ \<Rightarrow> [])"

definition route_deliver_payload ::
  "platform \<Rightarrow> (string \<Rightarrow> proxy_request \<Rightarrow> bool) \<Rightarrow> json \<Rightarrow> state_map option \<Rightarrow> routed_payload" where
  "route_deliver_payload p allow payload s =
     (let entries = get_proxy_input_requests p s;
          (bs, unrouted, stop) = split_responses allow entries (payload_responses payload) ([], [], False);
          remainder = filter (\<lambda>(k, v). k \<noteq> ''inputResponses'' \<and> v \<noteq> JUndef) (own_members payload) @
            (if unrouted = [] then [] else [(''inputResponses'', JArr unrouted)])
      in \<lparr>for_children = map (to_routed_child entries \<circ> snd) bs,
          for_self = (if remainder = [] then None else Some (JObj remainder)),
          cancel_turn = stop\<rparr>)"

section \<open>The buckets group the routed responses\<close>

definition bucket_of :: "(json \<times> proxy_request) list \<Rightarrow> child_bucket" where
  "bucket_of ps = \<lparr>bucket_route = snd (hd ps), parent_request_ids = map (request_id \<circ> fst) ps,
     bucket_responses = map (\<lambda>(x, r). to_child_input_response x r) ps, bucket_routes = map snd ps\<rparr>"

definition sharing :: "string \<Rightarrow> (json \<times> proxy_request) list \<Rightarrow> (json \<times> proxy_request) list" where
  "sharing k ps = filter (\<lambda>p. bucket_key (snd p) = k) ps"

definition grouped :: "(json \<times> proxy_request) list \<Rightarrow> buckets" where
  "grouped = bucketed (bucket_key \<circ> snd) extend_bucket"

definition routed_pairs ::
  "(string \<Rightarrow> proxy_request \<Rightarrow> bool) \<Rightarrow> routes \<Rightarrow> json list \<Rightarrow> (json \<times> proxy_request) list" where
  "routed_pairs allow entries xs =
     List.map_filter (\<lambda>x. map_option (Pair x) (admitted_route allow entries x)) xs"

lemma grouped_snoc: "add_response x r (grouped ps) = grouped (ps @ [(x, r)])"
  by (simp add: grouped_def bucketed_def add_response_def)

lemma collected_bucket: "ps \<noteq> [] \<Longrightarrow> collected extend_bucket ps = Some (bucket_of ps)"
proof (induction ps rule: rev_induct)
  case (snoc p ps)
  obtain x r where p: "p = (x, r)" by force
  show ?case
  proof (cases "ps = []")
    case True
    then show ?thesis by (simp add: collected_def extend_bucket_def bucket_of_def p)
  next
    case False
    with snoc.IH show ?thesis by (simp add: collected_snoc extend_bucket_def bucket_of_def p)
  qed
qed simp

lemma grouped_eq: "grouped ps = map (\<lambda>k. (k, bucket_of (sharing k ps))) (js_set (map (bucket_key \<circ> snd) ps))"
proof -
  have "the (collected extend_bucket (sharing k ps)) = bucket_of (sharing k ps)"
    if "k \<in> set (js_set (map (bucket_key \<circ> snd) ps))" for k
  proof -
    from that have "sharing k ps \<noteq> []" by (auto simp: sharing_def filter_empty_conv)
    then show ?thesis by (simp add: collected_bucket)
  qed
  then show ?thesis by (simp add: grouped_def bucketed_eq sharing_def)
qed

lemma split_responses_grouped:
  "split_responses allow entries xs (grouped ps, us, stop) =
     (grouped (ps @ routed_pairs allow entries xs),
      us @ filter (\<lambda>x. admitted_route allow entries x = None) xs,
      stop \<or> list_ex (\<lambda>(x, r). stops_session x r) (routed_pairs allow entries xs))"
  by (induction xs arbitrary: ps us stop)
    (auto simp: routed_pairs_def List.map_filter_simps grouped_snoc split: option.split)

lemma grouped_Nil [simp]: "grouped [] = []"
  by (simp add: grouped_def bucketed_def)

lemma split_payload:
  "split_responses allow entries xs ([], [], False) =
     (grouped (routed_pairs allow entries xs), filter (\<lambda>x. admitted_route allow entries x = None) xs,
      list_ex (\<lambda>(x, r). stops_session x r) (routed_pairs allow entries xs))"
  using split_responses_grouped [of allow entries xs "[]" "[]" False] by simp

lemma for_children_eq:
  "for_children (route_deliver_payload p allow payload s) =
     (let ps = routed_pairs allow (read_map p s) (payload_responses payload) in
      map (\<lambda>k. to_routed_child (read_map p s) (bucket_of (sharing k ps))) (js_set (map (bucket_key \<circ> snd) ps)))"
  by (simp add: route_deliver_payload_def get_proxy_input_requests_def Let_def split_payload)
    (simp add: grouped_eq comp_def)

lemma cancel_turn_eq:
  "cancel_turn (route_deliver_payload p allow payload s) \<longleftrightarrow>
     (\<exists>(x, r) \<in> set (routed_pairs allow (read_map p s) (payload_responses payload)). stops_session x r)"
  by (auto simp: route_deliver_payload_def get_proxy_input_requests_def Let_def split_payload list_ex_iff)

lemma for_self_eq:
  "for_self (route_deliver_payload p allow payload s) =
     (let rest = filter (\<lambda>(k, v). k \<noteq> ''inputResponses'' \<and> v \<noteq> JUndef) (own_members payload);
          us = filter (\<lambda>x. admitted_route allow (read_map p s) x = None) (payload_responses payload)
      in if rest = [] \<and> us = [] then None
         else Some (JObj (rest @ (if us = [] then [] else [(''inputResponses'', JArr us)]))))"
  by (auto simp: route_deliver_payload_def get_proxy_input_requests_def Let_def split_payload)

section \<open>Nothing is lost and nothing goes astray\<close>

lemma mset_filters:
  "distinct ks \<Longrightarrow> mset (concat (map (\<lambda>k. filter (\<lambda>x. key x = k) xs) ks)) = filter_mset (\<lambda>x. key x \<in> set ks) (mset xs)"
proof (induction ks)
  case Nil
  then show ?case by simp
next
  case (Cons k ks)
  have "filter_mset (\<lambda>x. key x \<in> set (k # ks)) M =
      filter_mset (\<lambda>x. key x = k) M + filter_mset (\<lambda>x. key x \<in> set ks) M" for M
    using Cons.prems by (induction M) auto
  with Cons show ?case by simp
qed

lemma mset_grouped: "mset (concat (map (\<lambda>k. filter (\<lambda>x. key x = k) xs) (js_set (map key xs)))) = mset xs"
proof -
  have "filter_mset (\<lambda>x. key x \<in> set (js_set (map key xs))) (mset xs) = mset xs"
    by (rule filter_mset_eq_conv [THEN iffD2]) auto
  then show ?thesis by (simp only: mset_filters distinct_js_set)
qed

lemma concat_sharing: "mset (concat (map (\<lambda>k. sharing k ps) (js_set (map (bucket_key \<circ> snd) ps)))) = mset ps"
  using mset_grouped [of "bucket_key \<circ> snd" ps] by (simp add: sharing_def)

lemma routed_responses_eq [simp]:
  "routed_responses (to_routed_child entries (bucket_of ps)) = map (\<lambda>(x, r). to_child_input_response x r) ps"
  by (simp add: to_routed_child_def bucket_of_def Let_def)

lemma mset_routed_responses:
  "mset (concat (map routed_responses (for_children (route_deliver_payload p allow payload s)))) =
     mset (map (\<lambda>(x, r). to_child_input_response x r) (routed_pairs allow (read_map p s) (payload_responses payload)))"
proof -
  let ?ps = "routed_pairs allow (read_map p s) (payload_responses payload)"
  let ?f = "\<lambda>(x, r). to_child_input_response x r"
  have "concat (map routed_responses (for_children (route_deliver_payload p allow payload s))) =
      map ?f (concat (map (\<lambda>k. sharing k ?ps) (js_set (map (bucket_key \<circ> snd) ?ps))))"
    by (simp add: for_children_eq Let_def comp_def map_concat)
  then show ?thesis by (simp only: mset_map concat_sharing)
qed

lemma split_at_nul:
  "nul \<notin> set a \<Longrightarrow> nul \<notin> set b \<Longrightarrow> a @ nul # x = b @ nul # y \<longleftrightarrow> a = b \<and> x = y"
  by (induction a arbitrary: b; case_tac b) auto

definition clean_route :: "proxy_request \<Rightarrow> bool" where
  \<comment> \<open>No address field holds the separator.\<close>
  "clean_route r \<longleftrightarrow> nul \<notin> set (child_token r) \<and>
     (\<forall>a i. child_inbox r = Some a \<longrightarrow> jstr a ''sessionId'' = Some i \<longrightarrow> nul \<notin> set i) \<and>
     (\<forall>u. child_response_url r = Some u \<longrightarrow> nul \<notin> set u)"

definition route_key :: "string \<Rightarrow> proxy_request \<Rightarrow> string" where
  \<comment> \<open>The joined address, with the text used where the response URL is absent.\<close>
  "route_key d r = child_token r @ [nul] @
     (case child_inbox r of Some a \<Rightarrow> (case jstr a ''sessionId'' of Some i \<Rightarrow> i | None \<Rightarrow> []) | None \<Rightarrow> []) @ [nul] @
     (case child_response_url r of Some u \<Rightarrow> u | None \<Rightarrow> d) @ [nul] @
     (case route_task r of Some t \<Rightarrow> t | None \<Rightarrow> [])"

lemma bucket_key_joined: "bucket_key = route_key ''local''"
  by (rule ext) (simp add: bucket_key_def route_key_def)

lemma route_key_address:
  assumes "route_key d q = route_key d r" and "clean_route q" and "clean_route r" and "nul \<notin> set d"
  shows "child_token q = child_token r"
    and "(case child_response_url q of Some u \<Rightarrow> u | None \<Rightarrow> d) = (case child_response_url r of Some u \<Rightarrow> u | None \<Rightarrow> d)"
    and "(case route_task q of Some t \<Rightarrow> t | None \<Rightarrow> []) = (case route_task r of Some t \<Rightarrow> t | None \<Rightarrow> [])"
proof -
  let ?i = "\<lambda>r. case child_inbox r of Some a \<Rightarrow> (case jstr a ''sessionId'' of Some i \<Rightarrow> i | None \<Rightarrow> []) | None \<Rightarrow> []"
  let ?u = "\<lambda>r. case child_response_url r of Some u \<Rightarrow> u | None \<Rightarrow> d"
  let ?t = "\<lambda>r. case route_task r of Some t \<Rightarrow> t | None \<Rightarrow> []"
  have c: "nul \<notin> set (child_token r) \<and> nul \<notin> set (?i r) \<and> nul \<notin> set (?u r)" if "clean_route r" for r
    using that assms(4) by (cases "child_inbox r"; cases "jstr (the (child_inbox r)) ''sessionId''"; cases "child_response_url r")
      (auto simp: clean_route_def)
  note cq = c [OF assms(2)] and cr = c [OF assms(3)]
  have "child_token q @ nul # (?i q @ nul # (?u q @ nul # ?t q)) = child_token r @ nul # (?i r @ nul # (?u r @ nul # ?t r))"
    using assms(1) by (simp add: route_key_def)
  then have "child_token q = child_token r \<and> ?u q = ?u r \<and> ?t q = ?t r"
    using cq cr by (simp only: split_at_nul simp_thms)
  then show "child_token q = child_token r" and "?u q = ?u r" and "?t q = ?t r" by simp_all
qed

lemma routed_pairs_iff:
  "(x, r) \<in> set (routed_pairs allow entries xs) \<longleftrightarrow> x \<in> set xs \<and> admitted_route allow entries x = Some r"
  by (force simp: routed_pairs_def map_filter_def)

lemma admitted_route_wf: "admitted_route allow (read_map p s) x = Some r \<Longrightarrow> wf_route p (request_id x) r"
  by (auto simp: admitted_route_def split: option.splits if_splits dest: map_of_SomeD read_map_wf)

lemma reaches_child:
  assumes x: "x \<in> set (payload_responses payload)" and r: "admitted_route allow (read_map p s) x = Some r"
    and clean: "\<forall>(i, r) \<in> set (read_map p s). clean_route r" and "parse_url p ''local'' = None"
  shows "\<exists>c \<in> set (for_children (route_deliver_payload p allow payload s)).
    routed_token c = child_token r \<and> routed_task c = route_task r \<and> routed_url c = child_response_url r \<and>
    to_child_input_response x r \<in> set (routed_responses c) \<and> request_id x \<in> set (retire_request_ids c)"
proof -
  let ?ps = "routed_pairs allow (read_map p s) (payload_responses payload)"
  let ?k = "bucket_key r"
  let ?c = "to_routed_child (read_map p s) (bucket_of (sharing ?k ?ps))"
  have pair: "(x, r) \<in> set ?ps" using x r by (simp add: routed_pairs_iff)
  then have mem: "(x, r) \<in> set (sharing ?k ?ps)" by (simp add: sharing_def)
  obtain y q where hd: "hd (sharing ?k ?ps) = (y, q)" by force
  have "(y, q) \<in> set (sharing ?k ?ps)" using mem hd by (metis hd_in_set list.distinct(1) list.set_cases)
  then have key: "bucket_key q = ?k" and q: "admitted_route allow (read_map p s) y = Some q"
    by (auto simp: sharing_def routed_pairs_iff)
  have cl: "clean_route t" if "admitted_route allow (read_map p s) z = Some t" for z t
    using that clean by (auto simp: admitted_route_def split: option.splits if_splits dest: map_of_SomeD)
  have "nul \<notin> set ''local''" by (simp add: nul_def)
  note same = route_key_address [OF key [unfolded bucket_key_joined] cl [OF q] cl [OF r] this]
  note wq = admitted_route_wf [OF q, unfolded wf_route_def] and wr = admitted_route_wf [OF r, unfolded wf_route_def]
  have nl: "\<not> is_allowed_child_response_url p ''local''"
    using assms(4) by (simp add: is_allowed_child_response_url_def)
  have task: "route_task q = route_task r"
    using same(3) wq wr by (cases "route_task q"; cases "route_task r") auto
  have url: "child_response_url q = child_response_url r"
    using same(2) wq wr nl by (cases "child_response_url q"; cases "child_response_url r") auto
  have "?c \<in> set (for_children (route_deliver_payload p allow payload s))"
    using pair by (force simp: for_children_eq Let_def)
  moreover have "routed_token ?c = child_token r \<and> routed_task ?c = route_task r \<and> routed_url ?c = child_response_url r"
    using hd same(1) task url by (simp add: to_routed_child_def bucket_of_def Let_def)
  moreover have "to_child_input_response x r \<in> set (routed_responses ?c)" using mem by force
  moreover have "request_id x \<in> set (retire_request_ids ?c)"
    using mem by (force simp: to_routed_child_def bucket_of_def Let_def)
  ultimately show ?thesis by blast
qed

definition answered_in :: "(string \<Rightarrow> proxy_request \<Rightarrow> bool) \<Rightarrow> routes \<Rightarrow> json list \<Rightarrow> string \<Rightarrow> bool" where
  \<comment> \<open>A routed response answers the request.\<close>
  "answered_in allow entries xs i \<longleftrightarrow> (\<exists>x \<in> set xs. request_id x = i \<and> admitted_route allow entries x \<noteq> None)"

definition batch_settled_in ::
  "(string \<Rightarrow> proxy_request \<Rightarrow> bool) \<Rightarrow> routes \<Rightarrow> json list \<Rightarrow> string \<Rightarrow> string \<Rightarrow> bool" where
  \<comment> \<open>The request is a sibling of an answered one, and every approval of their batch that is still routed to
    the child is answered.\<close>
  "batch_settled_in allow entries xs token i \<longleftrightarrow>
     (\<exists>x \<in> set xs. \<exists>r b. admitted_route allow entries x = Some r \<and> route_batch r = Some b \<and> i \<in> set (request_ids b) \<and>
        (\<forall>a \<in> set (approval_request_ids b). \<forall>t. map_of entries a = Some t \<longrightarrow> same_batch t b token \<longrightarrow>
           answered_in allow entries xs a))"

lemma retired_only:
  assumes c: "c \<in> set (for_children (route_deliver_payload p allow payload s))"
    and i: "i \<in> set (retire_request_ids c)"
  shows "answered_in allow (read_map p s) (payload_responses payload) i \<or>
    batch_settled_in allow (read_map p s) (payload_responses payload) (routed_token c) i"
proof -
  let ?ps = "routed_pairs allow (read_map p s) (payload_responses payload)"
  from c obtain k where ck: "c = to_routed_child (read_map p s) (bucket_of (sharing k ?ps))"
    by (auto simp: for_children_eq Let_def)
  let ?ids = "set (map (request_id \<circ> fst) (sharing k ?ps))"
  have ids: "answered_in allow (read_map p s) (payload_responses payload) a" if "a \<in> ?ids" for a
    using that by (auto simp: sharing_def routed_pairs_iff answered_in_def)
  from i consider "i \<in> ?ids" | x r b where "(x, r) \<in> set (sharing k ?ps)" and "route_batch r = Some b"
      and "batch_resolves b (routed_token c) (read_map p s) ?ids" and "i \<in> set (request_ids b)"
    by (auto simp: ck to_routed_child_def bucket_of_def Let_def split: option.splits if_splits
        dest!: sym [of "Some _" "route_batch _"])
  then show ?thesis
  proof cases
    case 1
    then show ?thesis using ids by blast
  next
    case 2
    have "answered_in allow (read_map p s) (payload_responses payload) a"
      if "a \<in> set (approval_request_ids b)" and "map_of (read_map p s) a = Some t"
        and "same_batch t b (routed_token c)" for a t
      using 2(3) that by (intro ids) (auto simp: batch_resolves_def list_all_iff split: if_splits)
    moreover from 2(1) have "x \<in> set (payload_responses payload)" and "admitted_route allow (read_map p s) x = Some r"
      by (auto simp: sharing_def routed_pairs_iff)
    ultimately show ?thesis using 2(2,4) unfolding batch_settled_in_def by metis
  qed
qed

lemma for_self_responses:
  "(case for_self (route_deliver_payload p allow payload s) of None \<Rightarrow> [] | Some rest \<Rightarrow> payload_responses rest) =
     filter (\<lambda>x. admitted_route allow (read_map p s) x = None) (payload_responses payload)"
proof -
  have "map_of (filter (\<lambda>(k, v). k \<noteq> ''inputResponses'' \<and> v \<noteq> JUndef) ps) ''inputResponses'' = None" for ps :: "(string \<times> json) list"
    by (induction ps) auto
  then show ?thesis
    by (auto simp: for_self_eq Let_def payload_responses_def map_of_append split: option.split)
qed

section \<open>The routing contract\<close>

definition approve :: "string \<Rightarrow> json" where
  "approve i = JObj [(''requestId'', JStr i), (''optionId'', JStr ''approve'')]"

definition three_answers :: json where
  "three_answers = JObj [(''inputResponses'', JArr [approve ''a1'', approve ''zz'', approve ''b1''])]"

lemma clean_sample: "clean_route (sample_route ''child1'' i)" "clean_route (sample_route ''child2'' i)"
  by (simp_all add: clean_route_def sample_route_def nul_def)

text \<open>
  C40: routing a delivery neither loses nor misdirects an input response. Responses without an admitted
  route stay with the parent, in order; the responses of all children together are exactly the routed
  ones, each under its child's own request id; each routed response is in the bucket that has the token,
  the task and the response URL of its route and whose retirement covers it; and a request is retired
  only if a routed response answers it, or all open approvals of its batch are answered with it. The
  buckets are keyed by addresses joined with NUL, so no address may hold one, and the text \<open>local\<close> is not
  an absolute URL.
\<close>
theorem routing_keeps_responses:
  assumes "\<forall>(i, r) \<in> set (read_map p s). clean_route r" and "parse_url p ''local'' = None"
  shows "let routed = route_deliver_payload p allow payload s; xs = payload_responses payload;
      route_of = admitted_route allow (read_map p s)
    in (case for_self routed of None \<Rightarrow> [] | Some rest \<Rightarrow> payload_responses rest) = filter (\<lambda>x. route_of x = None) xs \<and>
      mset (concat (map routed_responses (for_children routed))) =
        mset (List.map_filter (\<lambda>x. map_option (to_child_input_response x) (route_of x)) xs) \<and>
      (\<forall>x \<in> set xs. \<forall>r. route_of x = Some r \<longrightarrow> (\<exists>c \<in> set (for_children routed).
        routed_token c = child_token r \<and> routed_task c = route_task r \<and> routed_url c = child_response_url r \<and>
        to_child_input_response x r \<in> set (routed_responses c) \<and> request_id x \<in> set (retire_request_ids c))) \<and>
      (\<forall>c \<in> set (for_children routed). \<forall>i \<in> set (retire_request_ids c).
        answered_in allow (read_map p s) xs i \<or> batch_settled_in allow (read_map p s) xs (routed_token c) i)"
proof -
  have "map (\<lambda>(x, r). to_child_input_response x r) (routed_pairs allow (read_map p s) xs) =
      List.map_filter (\<lambda>x. map_option (to_child_input_response x) (admitted_route allow (read_map p s) x)) xs" for xs
    by (induction xs) (auto simp: routed_pairs_def List.map_filter_simps split: option.split)
  then show ?thesis
    using for_self_responses reaches_child [OF _ _ assms] retired_only mset_routed_responses
    by (simp only: Let_def) blast
qed

lemma routing_keeps_responses_witness:
  "(case for_self (route_deliver_payload offline (\<lambda>_ _. True) three_answers two_routes) of
      None \<Rightarrow> [] | Some rest \<Rightarrow> payload_responses rest) = [approve ''zz''] \<and>
   (\<exists>c \<in> set (for_children (route_deliver_payload offline (\<lambda>_ _. True) three_answers two_routes)).
      routed_token c = ''child2'' \<and> approve ''b1'' \<in> set (routed_responses c))"
proof -
  have "\<forall>(i, r) \<in> set (read_map offline two_routes). clean_route r" and "parse_url offline ''local'' = None"
    by (simp_all add: two_routes_read clean_sample) (simp add: offline_def)
  note routing = routing_keeps_responses [OF this, of "\<lambda>_ _. True" three_answers, unfolded Let_def]
  have xs: "payload_responses three_answers = [approve ''a1'', approve ''zz'', approve ''b1'']"
    by (simp add: three_answers_def payload_responses_def)
  have ids: "request_id (approve i) = i" for i by (simp add: approve_def request_id_def jstr_def)
  have b1: "admitted_route (\<lambda>_ _. True) (read_map offline two_routes) (approve ''b1'') = Some (sample_route ''child2'' ''b1'')"
    by (simp add: admitted_route_def ids two_routes_read)
  have "to_child_input_response (approve ''b1'') (sample_route ''child2'' ''b1'') = approve ''b1''"
    by (simp add: to_child_input_response_def sample_route_def)
  moreover have "approve ''b1'' \<in> set (payload_responses three_answers)" by (simp add: xs)
  ultimately have "\<exists>c \<in> set (for_children (route_deliver_payload offline (\<lambda>_ _. True) three_answers two_routes)).
      routed_token c = ''child2'' \<and> approve ''b1'' \<in> set (routed_responses c)"
    using bspec [OF routing [THEN conjunct2, THEN conjunct2, THEN conjunct1], of "approve ''b1''"] b1 by fastforce
  moreover from routing [THEN conjunct1] have "(case for_self (route_deliver_payload offline (\<lambda>_ _. True) three_answers two_routes) of
      None \<Rightarrow> [] | Some rest \<Rightarrow> payload_responses rest) = [approve ''zz'']"
    by (simp add: xs admitted_route_def ids two_routes_read)
  ultimately show ?thesis by simp
qed

end
