(* ===== verification/Task_View.thy ===== *)
theory Task_View
  imports Session_State
begin

text \<open>
  One durable task (\<open>tasks/types.ts\<close>, \<open>tasks/transitions.ts\<close>): its view, the commands its run
  accepts and the pure transition function. Token counts and costs are numbers of the language;
  they are modelled as rationals. The reason text of a rejection is the datatype \<open>rejection\<close>.
\<close>

section \<open>Types\<close>

record task_usage =
  cache_read_tokens :: rat
  cache_write_tokens :: rat
  cost_usd :: "rat option"
  input_tokens :: rat
  output_tokens :: rat

record task_metadata =
  meta_kind :: string
  meta_name :: string
  meta_rest :: "(string \<times> json) list" \<comment> \<open>the other members\<close>

definition metadata_json :: "task_metadata \<Rightarrow> json" where
  \<comment> \<open>In one member order; no operation depends on it.\<close>
  "metadata_json m = JObj ((''kind'', JStr (meta_kind m)) # (''name'', JStr (meta_name m)) # meta_rest m)"

definition same_task_metadata :: "task_metadata \<Rightarrow> task_metadata \<Rightarrow> bool" where
  "same_task_metadata a b = json_values_equal (metadata_json a) (metadata_json b)"

record executor_binding =
  binding_kind :: string
  binding_data :: "(string \<times> json) list"

datatype task_state =
    Working
  | InputRequired "json list"
  | Completed json
  | TaskFailed json
  | TaskCancelled

record task_view =
  task_id :: string
  metadata :: task_metadata
  executor :: "executor_binding option option" \<comment> \<open>\<open>executor?: { binding? }\<close>\<close>
  usage :: "task_usage option"
  status :: task_state

datatype task_command =
    Bind executor_binding
  | Complete json "task_usage option"
  | Fail json "task_usage option"
  | RejectDispatch json
  | Cancel "task_usage option"
  | RequireInput "json list"
  | ReadyCommand
  | Answered "string list"

fun is_terminal_task_status :: "task_state \<Rightarrow> bool" where
  "is_terminal_task_status (Completed d) = True"
| "is_terminal_task_status (TaskFailed d) = True"
| "is_terminal_task_status TaskCancelled = True"
| "is_terminal_task_status _ = False"

fun is_ready_task_status :: "task_state \<Rightarrow> bool" where
  "is_ready_task_status (InputRequired rs) = True"
| "is_ready_task_status s = is_terminal_task_status s"

section \<open>Readers\<close>

definition read_usage_axis :: "json \<Rightarrow> string \<Rightarrow> rat option" where
  "read_usage_axis v k = (case jget v k of JNum n \<Rightarrow> if 0 \<le> n then Some n else None | _ \<Rightarrow> None)"

definition read_task_usage :: "json \<Rightarrow> task_usage option" where
  "read_task_usage v = (case v of JObj _ \<Rightarrow>
     do {
       cr \<leftarrow> read_usage_axis v ''cacheReadTokens'';
       cw \<leftarrow> read_usage_axis v ''cacheWriteTokens'';
       i \<leftarrow> read_usage_axis v ''inputTokens'';
       out \<leftarrow> read_usage_axis v ''outputTokens'';
       Some \<lparr>cache_read_tokens = cr, cache_write_tokens = cw, cost_usd = read_usage_axis v ''costUsd'',
             input_tokens = i, output_tokens = out\<rparr> }
   | _ \<Rightarrow> None)"

definition read_task_input_request_id :: "json \<Rightarrow> string option" where
  "read_task_input_request_id r = jstr r ''requestId''"

datatype authorization_event =
    ApprovalEvent string \<comment> \<open>\<open>approval.candidate\<close> or \<open>approval.settled\<close>, with its request id\<close>
  | AuthorizationEvent "string option" string \<comment> \<open>attempt id and name\<close>

fun task_authorization_request_id :: "authorization_event \<Rightarrow> string" where
  "task_authorization_request_id (ApprovalEvent r) = ''task:authorization:'' @ r"
| "task_authorization_request_id (AuthorizationEvent a n) =
     ''task:authorization:'' @ (case a of Some x \<Rightarrow> x | None \<Rightarrow> n)"

section \<open>Transitions\<close>

datatype rejection = AlreadyBound | AlreadyTerminal | InvalidBatch

datatype task_transition = Accepted task_view | Noop task_view | Rejected task_view rejection

fun transition_view :: "task_transition \<Rightarrow> task_view" where
  "transition_view (Accepted v) = v"
| "transition_view (Noop v) = v"
| "transition_view (Rejected v r) = v"

fun is_cancel :: "task_command \<Rightarrow> bool" where
  "is_cancel (Cancel u) = True"
| "is_cancel _ = False"

definition terminal_view :: "task_view \<Rightarrow> task_usage option \<Rightarrow> task_state \<Rightarrow> task_view" where
  "terminal_view v u settled = \<lparr>task_id = task_id v, metadata = metadata v, executor = executor v,
     usage = u, status = settled\<rparr>"

definition is_valid_input_request_batch :: "json list \<Rightarrow> bool" where
  "is_valid_input_request_batch rs =
     (if rs = [] then False
      else (let ids = map read_task_input_request_id rs in
        list_all (\<lambda>i. i \<noteq> None \<and> i \<noteq> Some []) ids \<and> length (js_set ids) = length ids))"

definition current_binding :: "task_view \<Rightarrow> executor_binding option" where
  "current_binding v = (case executor v of Some b \<Rightarrow> b | None \<Rightarrow> None)"

definition unanswered :: "string list \<Rightarrow> json \<Rightarrow> bool" where
  "unanswered answered r = (case read_task_input_request_id r of
     None \<Rightarrow> True | Some i \<Rightarrow> i \<notin> set answered)"

definition apply_open_transition :: "task_view \<Rightarrow> task_command \<Rightarrow> task_transition" where
  \<comment> \<open>The switch for a task that is not terminal; a bind never reaches it.\<close>
  "apply_open_transition v cmd = (case cmd of
     Bind b \<Rightarrow> Noop v
   | Complete d u \<Rightarrow> Accepted (terminal_view v u (Completed d))
   | Fail d u \<Rightarrow> Accepted (terminal_view v u (TaskFailed d))
   | RejectDispatch d \<Rightarrow> Accepted (terminal_view v None (TaskFailed d))
   | Cancel u \<Rightarrow> Accepted (terminal_view v u TaskCancelled)
   | RequireInput rs \<Rightarrow>
       if \<not> is_valid_input_request_batch rs then Rejected v InvalidBatch
       else Accepted \<lparr>task_id = task_id v, metadata = metadata v, executor = executor v,
              usage = None, status = InputRequired rs\<rparr>
   | ReadyCommand \<Rightarrow> Accepted v
   | Answered ids \<Rightarrow>
       (case status v of
          InputRequired rs \<Rightarrow>
            (let remaining = List.filter (unanswered ids) rs in
             if length remaining = length rs then Noop v
             else if length remaining > 0 then Accepted (v\<lparr>status := InputRequired remaining\<rparr>)
             else Accepted \<lparr>task_id = task_id v, metadata = metadata v, executor = executor v,
                    usage = None, status = Working\<rparr>)
        | _ \<Rightarrow> Noop v))"

definition apply_task_transition :: "task_view \<Rightarrow> task_command \<Rightarrow> task_transition" where
  "apply_task_transition v cmd = (case cmd of
     Bind b \<Rightarrow>
       (case current_binding v of
          Some c \<Rightarrow>
            if binding_kind c = binding_kind b \<and>
               json_values_equal (JObj (binding_data c)) (JObj (binding_data b)) then Noop v
            else Rejected v AlreadyBound
        | None \<Rightarrow> Accepted (v\<lparr>executor := Some (Some b)\<rparr>))
   | _ \<Rightarrow>
       if is_terminal_task_status (status v) then
         (if is_cancel cmd \<and> status v = TaskCancelled then Noop v
          else Rejected v AlreadyTerminal)
       else apply_open_transition v cmd)"

section \<open>What a task goes through\<close>

inductive task_edge :: "task_state \<Rightarrow> task_state \<Rightarrow> bool" where
  task_stay: "task_edge s s"
| task_settle: "\<not> is_terminal_task_status s \<Longrightarrow> is_terminal_task_status s' \<Longrightarrow> task_edge s s'"
| task_block: "\<not> is_terminal_task_status s \<Longrightarrow> is_valid_input_request_batch rs \<Longrightarrow>
    task_edge s (InputRequired rs)"
| task_answer: "rs' = filter P rs \<Longrightarrow> rs' \<noteq> [] \<Longrightarrow> task_edge (InputRequired rs) (InputRequired rs')"
| task_resume: "task_edge (InputRequired rs) Working"

abbreviation task_step :: "task_view \<Rightarrow> task_command \<Rightarrow> task_view" where
  "task_step v cmd \<equiv> transition_view (apply_task_transition v cmd)"

lemma status_terminal_view [simp]: "status (terminal_view v u s) = s" "task_id (terminal_view v u s) = task_id v"
  "metadata (terminal_view v u s) = metadata v" "executor (terminal_view v u s) = executor v"
  "usage (terminal_view v u s) = u"
  by (simp_all add: terminal_view_def)

lemmas open_simps = apply_task_transition_def apply_open_transition_def

lemma valid_batch_iff:
  "is_valid_input_request_batch rs \<longleftrightarrow> rs \<noteq> [] \<and>
     (\<forall>r \<in> set rs. \<exists>i. read_task_input_request_id r = Some i \<and> i \<noteq> []) \<and>
     distinct (map read_task_input_request_id rs)"
  using length_js_set_eq [of "map read_task_input_request_id rs"]
  by (auto simp: is_valid_input_request_batch_def Let_def list_all_iff)

lemma unanswered_append:
  "unanswered (xs @ ys) r \<longleftrightarrow> unanswered xs r \<and> unanswered ys r"
  by (simp add: unanswered_def split: option.split)

lemma filter_length_eq: "length (filter P xs) = length xs \<longleftrightarrow> filter P xs = xs"
  by (metis length_filter_less filter_True less_irrefl)

lemma answered_view:
  assumes "status v = InputRequired rs"
  shows "task_step v (Answered xs) =
    (if filter (unanswered xs) rs = rs then v
     else if filter (unanswered xs) rs \<noteq> [] then v\<lparr>status := InputRequired (filter (unanswered xs) rs)\<rparr>
     else v\<lparr>usage := None, status := Working\<rparr>)"
  using assms filter_length_eq [of "unanswered xs" rs]
  by (simp add: apply_task_transition_def apply_open_transition_def Let_def)

lemma answered_other:
  "\<forall>rs. status v \<noteq> InputRequired rs \<Longrightarrow> task_step v (Answered xs) = v"
  by (cases "status v") (simp_all add: apply_task_transition_def apply_open_transition_def)

lemma task_follows_edges: "task_edge (status v) (status (task_step v cmd))"
proof (cases "is_terminal_task_status (status v)")
  case True
  then show ?thesis
    by (cases cmd) (auto simp: apply_task_transition_def task_edge.task_stay split: option.split)
next
  case False
  show ?thesis
  proof (cases cmd)
    case (Bind b)
    then show ?thesis by (simp add: open_simps task_edge.task_stay split: option.split)
  next
    case (RequireInput rs)
    with False show ?thesis
      by (simp add: open_simps task_edge.task_stay task_edge.task_block)
  next
    case (Answered xs)
    show ?thesis
    proof (cases "\<exists>rs. status v = InputRequired rs")
      case True
      then obtain rs where rs: "status v = InputRequired rs" by blast
      show ?thesis
        by (simp add: Answered answered_view [OF rs] rs task_edge.task_stay task_edge.task_resume
            task_edge.task_answer [of _ "unanswered xs"])
    qed (simp add: Answered answered_other task_edge.task_stay)
  qed (use False in \<open>simp_all add: open_simps task_edge.task_stay task_edge.task_settle\<close>)
qed

section \<open>Invariants over runs of commands\<close>

definition valid_task_view :: "task_view \<Rightarrow> bool" where
  "valid_task_view v \<longleftrightarrow> (case status v of
     InputRequired rs \<Rightarrow> is_valid_input_request_batch rs | _ \<Rightarrow> True)"

lemma valid_batch_filter:
  "is_valid_input_request_batch rs \<Longrightarrow> filter P rs \<noteq> [] \<Longrightarrow> is_valid_input_request_batch (filter P rs)"
  by (auto simp: valid_batch_iff distinct_map_filter)

lemma task_step_valid: "valid_task_view v \<Longrightarrow> valid_task_view (task_step v cmd)"
  using task_follows_edges [of v cmd]
  by (cases rule: task_edge.cases)
    (auto simp: valid_task_view_def valid_batch_filter split: task_state.splits)

interpretation task_views: transition_system task_step valid_task_view
  by unfold_locales (rule task_step_valid)

text \<open>A terminal task keeps its result; only a missing executor binding can still be recorded.\<close>

definition settled_as :: "task_view \<Rightarrow> task_view \<Rightarrow> bool" where
  "settled_as v w \<longleftrightarrow> is_terminal_task_status (status v) \<and> task_id w = task_id v \<and>
     metadata w = metadata v \<and> usage w = usage v \<and> status w = status v \<and>
     (current_binding v \<noteq> None \<longrightarrow> executor w = executor v)"

lemma settled_as_step: "settled_as v w \<Longrightarrow> settled_as v (task_step w cmd)"
  by (cases cmd) (auto simp: settled_as_def apply_task_transition_def current_binding_def
      split: option.splits)

interpretation settled_tasks: transition_system task_step "settled_as v" for v
  by unfold_locales (rule settled_as_step)

text \<open>The first binding is the only one.\<close>

lemma binding_step:
  "current_binding v = Some b \<Longrightarrow> current_binding (task_step v cmd) = Some b"
proof (cases "\<exists>xs rs. cmd = Answered xs \<and> status v = InputRequired rs")
  case True
  then obtain xs rs where "cmd = Answered xs" "status v = InputRequired rs" by blast
  then show "current_binding v = Some b \<Longrightarrow> current_binding (task_step v cmd) = Some b"
    by (simp add: answered_view current_binding_def)
next
  case False
  then show "current_binding v = Some b \<Longrightarrow> current_binding (task_step v cmd) = Some b"
    by (cases cmd) (auto simp: open_simps current_binding_def split: option.splits task_state.splits)
qed

interpretation bound_tasks: transition_system task_step "\<lambda>v. current_binding v = Some b" for b
  by unfold_locales (rule binding_step)

section \<open>Answers and redelivery\<close>

lemma filter_unanswered_append:
  "filter (unanswered (xs @ ys)) rs = filter (unanswered ys) (filter (unanswered xs) rs)"
  by (simp add: unanswered_append conj_commute cong: filter_cong)

lemma answers_split: "task_step (task_step v (Answered xs)) (Answered ys) = task_step v (Answered (xs @ ys))"
proof (cases "\<exists>rs. status v = InputRequired rs")
  case True
  then obtain rs where rs: "status v = InputRequired rs" by blast
  let ?x = "filter (unanswered xs) rs" and ?y = "filter (unanswered (xs @ ys)) rs"
  have y: "?y = filter (unanswered ys) ?x" by (rule filter_unanswered_append)
  have shrink: "?y = rs \<Longrightarrow> ?x = rs"
    unfolding y by (metis filter_length_eq length_filter_le le_antisym)
  consider "?x = rs" | "?x \<noteq> rs" "?x = []" | "?x \<noteq> rs" "?x \<noteq> []" by blast
  then show ?thesis
  proof cases
    case 1
    then show ?thesis using rs y by (simp add: answered_view)
  next
    case 2
    then have "?y = []" "?y \<noteq> rs" using y shrink by auto
    with 2 rs show ?thesis by (simp add: answered_view answered_other)
  next
    case 3
    let ?v = "v\<lparr>status := InputRequired ?x\<rparr>"
    have "status ?v = InputRequired ?x" by simp
    from answered_view [OF this, of ys] 3 rs y shrink show ?thesis
      by (simp add: answered_view)
  qed
qed (simp add: answered_other)

lemma answered_working_iff:
  assumes "valid_task_view v" and "status v = InputRequired rs"
  shows "status (task_step v (Answered xs)) = Working \<longleftrightarrow>
    (\<forall>r \<in> set rs. \<forall>i. read_task_input_request_id r = Some i \<longrightarrow> i \<in> set xs)"
proof -
  have v: "is_valid_input_request_batch rs" using assms(1,2) by (simp add: valid_task_view_def)
  then have "filter (unanswered xs) rs = [] \<longleftrightarrow>
      (\<forall>r \<in> set rs. \<forall>i. read_task_input_request_id r = Some i \<longrightarrow> i \<in> set xs)"
    by (fastforce simp: valid_batch_iff unanswered_def filter_empty_conv split: option.split)
  moreover have "status (task_step v (Answered xs)) = Working \<longleftrightarrow> filter (unanswered xs) rs = []"
    using v assms(2) by (auto simp: answered_view valid_batch_iff)
  ultimately show ?thesis by simp
qed

lemma settle_twice:
  "is_terminal_task_status (status v) \<Longrightarrow> \<forall>b. cmd \<noteq> Bind b \<Longrightarrow> task_step v cmd = v"
  by (cases cmd) (simp_all add: apply_task_transition_def)

lemma task_redelivery:
  assumes "\<forall>b. cmd \<noteq> Bind b"
  shows "task_step (task_step v cmd) cmd = task_step v cmd"
proof (cases "is_terminal_task_status (status v)")
  case True
  with settle_twice assms show ?thesis by simp
next
  case False
  show ?thesis
  proof (cases cmd)
    case (Answered xs)
    have "unanswered (xs @ xs) = unanswered xs" by (rule ext) (simp add: unanswered_append)
    then have "task_step v (Answered (xs @ xs)) = task_step v (Answered xs)"
      by (simp add: open_simps cong: task_state.case_cong)
    then show ?thesis by (simp add: Answered answers_split)
  qed (use False assms in \<open>auto simp: open_simps intro: settle_twice\<close>)
qed

end
