(* ===== verification/Task_Index.thy ===== *)
theory Task_Index
  imports Task_View Json_Text
begin

text \<open>
  The parent's index of its background tasks (\<open>tasks/session-index.ts\<close>): the schema of the stored
  value, reading, recording, caching a terminal view; the delivery context and policy computed from
  it (\<open>tasks/delivery-context.ts\<close>, \<open>tasks/delivery-policy.ts\<close>) and the inbox token
  (\<open>tasks/task-id.ts\<close>, \<open>tasks/task-inbox-token.ts\<close>). Digests are a parameter; the fixed prose of
  the instructions is the datatype \<open>policy_instruction\<close>.
\<close>

section \<open>Entries and their schema\<close>

record index_entry =
  entry_task :: string
  entry_run :: string
  terminal_cache :: "task_view option"
  inbox_token :: string
  created_step :: "rat option"
  created_turn :: string
  entry_executor :: "executor_binding option"
  entry_metadata :: task_metadata

datatype index_error = UnsupportedIndexVersion | CorruptIndex | InvalidTerminalView | MetadataMismatch

definition any_value :: "json \<Rightarrow> json option" where
  \<comment> \<open>\<open>z.custom()\<close> without a check.\<close>
  "any_value j = Some j"

definition record_schema :: "json \<Rightarrow> (string \<times> json) list option" where
  "record_schema j = (case j of JObj ps \<Rightarrow> Some ps | _ \<Rightarrow> None)"

definition task_metadata_schema :: "json \<Rightarrow> task_metadata option" where
  \<comment> \<open>\<open>looseObject\<close>: the other members are kept.\<close>
  "task_metadata_schema j = (case j of JObj ps \<Rightarrow> do {
       k \<leftarrow> req_field non_empty_string ''kind'' ps;
       n \<leftarrow> req_field non_empty_string ''name'' ps;
       Some \<lparr>meta_kind = k, meta_name = n,
             meta_rest = filter (\<lambda>p. fst p \<noteq> ''kind'' \<and> fst p \<noteq> ''name'') ps\<rparr> }
   | _ \<Rightarrow> None)"

definition binding_schema :: "json \<Rightarrow> executor_binding option" where
  "binding_schema j = (case j of JObj ps \<Rightarrow>
     if fields_only [''data'', ''kind''] ps then do {
       d \<leftarrow> req_field record_schema ''data'' ps;
       k \<leftarrow> req_field non_empty_string ''kind'' ps;
       Some \<lparr>binding_kind = k, binding_data = d\<rparr> }
     else None | _ \<Rightarrow> None)"

definition executor_schema :: "json \<Rightarrow> executor_binding option option" where
  "executor_schema j = (case j of JObj ps \<Rightarrow>
     if fields_only [''binding''] ps then opt_field binding_schema ''binding'' ps else None
   | _ \<Rightarrow> None)"

definition usage_schema :: "json \<Rightarrow> task_usage option" where
  \<comment> \<open>A strict object of four members: there is no \<open>costUsd\<close>.\<close>
  "usage_schema j = (case j of JObj ps \<Rightarrow>
     if fields_only [''cacheReadTokens'', ''cacheWriteTokens'', ''inputTokens'', ''outputTokens''] ps
     then do {
       cr \<leftarrow> req_field nonneg_number ''cacheReadTokens'' ps;
       cw \<leftarrow> req_field nonneg_number ''cacheWriteTokens'' ps;
       i \<leftarrow> req_field nonneg_number ''inputTokens'' ps;
       out \<leftarrow> req_field nonneg_number ''outputTokens'' ps;
       Some \<lparr>cache_read_tokens = cr, cache_write_tokens = cw, cost_usd = None,
             input_tokens = i, output_tokens = out\<rparr> }
     else None | _ \<Rightarrow> None)"

definition output_schema :: "string \<Rightarrow> json \<Rightarrow> json option" where
  "output_schema kind j = (case j of JObj ps \<Rightarrow>
     if fields_only [''data'', ''type''] ps \<and> map_of ps ''type'' = Some (JStr kind)
     then req_field any_value ''data'' ps else None | _ \<Rightarrow> None)"

definition terminal_state_schema :: "(string \<times> json) list \<Rightarrow> task_state option" where
  \<comment> \<open>The arms of the discriminated union on \<open>status\<close>, without the shared shape.\<close>
  "terminal_state_schema ps =
     (let base = [''executor'', ''metadata'', ''taskId'', ''usage'', ''status''] in
      if map_of ps ''status'' = Some (JStr ''completed'') then
        if fields_only (''lastOutput'' # base) ps
        then map_option Completed (req_field (output_schema ''result'') ''lastOutput'' ps) else None
      else if map_of ps ''status'' = Some (JStr ''failed'') then
        if fields_only (''lastOutput'' # base) ps
        then map_option TaskFailed (req_field (output_schema ''error'') ''lastOutput'' ps) else None
      else if map_of ps ''status'' = Some (JStr ''cancelled'') then
        if fields_only base ps then Some TaskCancelled else None
      else None)"

definition task_view_schema :: "json \<Rightarrow> task_view option" where
  "task_view_schema j = (case j of JObj ps \<Rightarrow> do {
       e \<leftarrow> opt_field executor_schema ''executor'' ps;
       m \<leftarrow> req_field task_metadata_schema ''metadata'' ps;
       t \<leftarrow> req_field non_empty_string ''taskId'' ps;
       u \<leftarrow> opt_field usage_schema ''usage'' ps;
       s \<leftarrow> terminal_state_schema ps;
       Some \<lparr>task_id = t, metadata = m, executor = e, usage = u, status = s\<rparr> }
   | _ \<Rightarrow> None)"

definition nat_number :: "json \<Rightarrow> rat option" where
  \<comment> \<open>\<open>z.number().int().nonnegative()\<close>: a safe integer.\<close>
  "nat_number j = (case j of JNum n \<Rightarrow>
     if 0 \<le> n \<and> of_int \<lfloor>n\<rfloor> = n \<and> n \<le> 2 ^ 53 - 1 then Some n else None | _ \<Rightarrow> None)"

definition index_entry_schema :: "json \<Rightarrow> index_entry option" where
  "index_entry_schema j = (case j of JObj ps \<Rightarrow>
     if fields_only [''taskInboxToken'', ''createdByStepIndex'', ''createdByTurnId'', ''executor'',
          ''metadata'', ''taskId'', ''taskRunId'', ''terminalView''] ps then do {
       tok \<leftarrow> req_field non_empty_string ''taskInboxToken'' ps;
       st \<leftarrow> opt_field nat_number ''createdByStepIndex'' ps;
       tu \<leftarrow> req_field non_empty_string ''createdByTurnId'' ps;
       e \<leftarrow> opt_field binding_schema ''executor'' ps;
       m \<leftarrow> req_field task_metadata_schema ''metadata'' ps;
       t \<leftarrow> req_field non_empty_string ''taskId'' ps;
       r \<leftarrow> req_field non_empty_string ''taskRunId'' ps;
       v \<leftarrow> opt_field task_view_schema ''terminalView'' ps;
       Some \<lparr>entry_task = t, entry_run = r, terminal_cache = v, inbox_token = tok, created_step = st,
             created_turn = tu, entry_executor = e, entry_metadata = m\<rparr> }
     else None | _ \<Rightarrow> None)"

definition cache_matches :: "index_entry \<Rightarrow> bool" where
  "cache_matches e = (case terminal_cache e of
     None \<Rightarrow> True
   | Some v \<Rightarrow> task_id v = entry_task e \<and> same_task_metadata (metadata v) (entry_metadata e))"

definition task_index_schema :: "json \<Rightarrow> index_entry list option" where
  "task_index_schema j = (case j of JObj ps \<Rightarrow>
     if fields_only [''tasks'', ''version''] ps \<and> map_of ps ''version'' = Some (JNum 2) then
       (case map_of ps ''tasks'' of
          Some (JArr xs) \<Rightarrow> do {
            es \<leftarrow> array_schema index_entry_schema xs;
            if length (js_set (map entry_task es)) = length es \<and> list_all cache_matches es
            then Some es else None }
        | _ \<Rightarrow> None)
     else None | _ \<Rightarrow> None)"

section \<open>The stored value\<close>

definition binding_json :: "executor_binding \<Rightarrow> json" where
  "binding_json b = JObj [(''data'', JObj (binding_data b)), (''kind'', JStr (binding_kind b))]"

definition usage_json :: "task_usage \<Rightarrow> json" where
  "usage_json u = JObj ([(''cacheReadTokens'', JNum (cache_read_tokens u)),
     (''cacheWriteTokens'', JNum (cache_write_tokens u)), (''inputTokens'', JNum (input_tokens u)),
     (''outputTokens'', JNum (output_tokens u))] @
     (case cost_usd u of None \<Rightarrow> [] | Some c \<Rightarrow> [(''costUsd'', JNum c)]))"

definition executor_json :: "executor_binding option \<Rightarrow> json" where
  "executor_json b = JObj (opt_json ''binding'' binding_json b)"

fun task_state_json :: "task_state \<Rightarrow> (string \<times> json) list" where
  "task_state_json Working = [(''status'', JStr ''working'')]"
| "task_state_json (InputRequired rs) = [(''inputRequests'', JArr rs), (''status'', JStr ''input_required'')]"
| "task_state_json (Completed d) = [(''lastOutput'', JObj [(''data'', d), (''type'', JStr ''result'')]),
     (''status'', JStr ''completed'')]"
| "task_state_json (TaskFailed d) = [(''lastOutput'', JObj [(''data'', d), (''type'', JStr ''error'')]),
     (''status'', JStr ''failed'')]"
| "task_state_json TaskCancelled = [(''status'', JStr ''cancelled'')]"

definition task_view_json :: "task_view \<Rightarrow> json" where
  "task_view_json v = JObj (opt_json ''executor'' executor_json (executor v) @
     [(''metadata'', metadata_json (metadata v)), (''taskId'', JStr (task_id v))] @
     opt_json ''usage'' usage_json (usage v) @ task_state_json (status v))"

definition index_entry_json :: "index_entry \<Rightarrow> json" where
  "index_entry_json e = JObj ([(''taskInboxToken'', JStr (inbox_token e))] @
     opt_json ''createdByStepIndex'' JNum (created_step e) @
     [(''createdByTurnId'', JStr (created_turn e))] @ opt_json ''executor'' binding_json (entry_executor e) @
     [(''metadata'', metadata_json (entry_metadata e)), (''taskId'', JStr (entry_task e)),
      (''taskRunId'', JStr (entry_run e))] @ opt_json ''terminalView'' task_view_json (terminal_cache e))"

definition task_index_json :: "index_entry list \<Rightarrow> json" where
  "task_index_json es = JObj [(''tasks'', JArr (map index_entry_json es)), (''version'', JNum 2)]"

section \<open>Operations\<close>

definition tasks_key :: string where
  "tasks_key = ''eve.tasks''"

definition get_session_task_index :: "state_map option \<Rightarrow> index_error + index_entry list" where
  "get_session_task_index s =
     (let raw = state_get s tasks_key in
      if raw = JUndef then Inr []
      else if jget raw ''version'' \<noteq> JNum 2 then Inl UnsupportedIndexVersion
      else case task_index_schema raw of None \<Rightarrow> Inl CorruptIndex | Some es \<Rightarrow> Inr es)"

definition is_valid_terminal_view :: "task_view \<Rightarrow> bool" where
  \<comment> \<open>The payload of each status is fixed by the type.\<close>
  "is_valid_terminal_view v = is_terminal_task_status (status v)"

definition cache_terminal_task_view ::
  "state_map option \<Rightarrow> task_view \<Rightarrow> index_error + state_map option" where
  "cache_terminal_task_view s v =
     (if \<not> is_valid_terminal_view v then Inl InvalidTerminalView
      else bindR (get_session_task_index s) (\<lambda>es.
        case find (\<lambda>e. entry_task e = task_id v) es of
          None \<Rightarrow> Inr s
        | Some e \<Rightarrow>
            if \<not> same_task_metadata (entry_metadata e) (metadata v) then Inl MetadataMismatch
            else Inr (Some (state_put tasks_key (task_index_json
              (update_first (\<lambda>e. entry_task e = task_id v) (\<lambda>e. e\<lparr>terminal_cache := Some v\<rparr>) es)) s))))"

definition find_session_task_entry ::
  "state_map option \<Rightarrow> string \<Rightarrow> index_error + index_entry option" where
  "find_session_task_entry s t =
     bindR (get_session_task_index s) (\<lambda>es. Inr (find (\<lambda>e. entry_task e = t) es))"

definition record_session_task ::
  "'a stateful_scheme \<Rightarrow> index_entry \<Rightarrow> index_error + 'a stateful_scheme" where
  "record_session_task session e =
     bindR (get_session_task_index (state session)) (\<lambda>es. Inr (session\<lparr>state :=
       Some (state_put tasks_key
         (task_index_json (filter (\<lambda>c. entry_task c \<noteq> entry_task e) es @ [e])) (state session))\<rparr>))"

section \<open>What the schema accepts\<close>

definition valid_metadata :: "task_metadata \<Rightarrow> bool" where
  "valid_metadata m \<longleftrightarrow> meta_kind m \<noteq> [] \<and> meta_name m \<noteq> [] \<and>
     (\<forall>p \<in> set (meta_rest m). fst p \<noteq> ''kind'' \<and> fst p \<noteq> ''name'')"

definition valid_usage :: "task_usage \<Rightarrow> bool" where
  "valid_usage u \<longleftrightarrow> 0 \<le> cache_read_tokens u \<and> 0 \<le> cache_write_tokens u \<and> 0 \<le> input_tokens u \<and>
     0 \<le> output_tokens u"

definition valid_executor :: "executor_binding option option \<Rightarrow> bool" where
  "valid_executor e \<longleftrightarrow> (\<forall>b. e = Some (Some b) \<longrightarrow> binding_kind b \<noteq> [])"

definition cacheable_view :: "task_view \<Rightarrow> bool" where
  "cacheable_view v \<longleftrightarrow> is_terminal_task_status (status v) \<and> valid_metadata (metadata v) \<and> task_id v \<noteq> [] \<and>
     valid_executor (executor v) \<and> (\<forall>u. usage v = Some u \<longrightarrow> valid_usage u \<and> cost_usd u = None)"

definition valid_entry :: "index_entry \<Rightarrow> bool" where
  "valid_entry e \<longleftrightarrow> entry_task e \<noteq> [] \<and> entry_run e \<noteq> [] \<and> inbox_token e \<noteq> [] \<and> created_turn e \<noteq> [] \<and>
     (\<forall>n. created_step e = Some n \<longrightarrow> nat_number (JNum n) = Some n) \<and>
     (\<forall>b. entry_executor e = Some b \<longrightarrow> binding_kind b \<noteq> []) \<and> valid_metadata (entry_metadata e) \<and>
     (\<forall>v. terminal_cache e = Some v \<longrightarrow> cacheable_view v) \<and> cache_matches e"

definition valid_index :: "index_entry list \<Rightarrow> bool" where
  "valid_index es \<longleftrightarrow> (\<forall>e \<in> set es. valid_entry e) \<and> distinct (map entry_task es)"

lemma metadata_schema_json:
  "valid_metadata m \<Longrightarrow> task_metadata_schema (metadata_json m) = Some m"
  by (cases m) (auto simp: task_metadata_schema_def metadata_json_def valid_metadata_def filter_id_conv)

lemma binding_schema_json: "binding_kind b \<noteq> [] \<Longrightarrow> binding_schema (binding_json b) = Some b"
  by (cases b) (simp add: binding_schema_def binding_json_def record_schema_def)

lemma usage_schema_json:
  "valid_usage u \<Longrightarrow> usage_schema (usage_json u) = (if cost_usd u = None then Some u else None)"
  by (cases u) (auto simp: usage_schema_def usage_json_def valid_usage_def nonneg_number_def split: option.split)

lemma json_shapes [simp]:
  "binding_json b \<noteq> JUndef" "usage_json u \<noteq> JUndef" "executor_json e \<noteq> JUndef" "task_view_json v \<noteq> JUndef"
  by (simp_all add: binding_json_def usage_json_def executor_json_def task_view_json_def)

lemma executor_schema_json:
  "valid_executor (Some e) \<Longrightarrow> executor_schema (executor_json e) = Some e"
  by (cases e) (simp_all add: executor_schema_def executor_json_def valid_executor_def binding_schema_json)

lemma terminal_state_schema_json:
  "is_terminal_task_status s \<Longrightarrow> terminal_state_schema
      (opt_json ''executor'' f e @ [(''metadata'', m), (''taskId'', t)] @ opt_json ''usage'' g u @ task_state_json s) =
     Some s"
  by (cases s) (simp_all add: terminal_state_schema_def Let_def output_schema_def any_value_def)

lemma opt_field_opt_json:
  "\<lbrakk>\<And>y. x = Some y \<Longrightarrow> f y \<noteq> JUndef \<and> dec (f y) = Some y; opt_field dec k ps = Some None\<rbrakk> \<Longrightarrow>
     opt_field dec k (opt_json k f x @ ps) = Some x"
  by (cases x) simp_all

lemma opt_field_state [simp]: "k \<noteq> ''lastOutput'' \<Longrightarrow> k \<noteq> ''inputRequests'' \<Longrightarrow> k \<noteq> ''status'' \<Longrightarrow>
    opt_field dec k (task_state_json s) = Some None"
  by (cases s) simp_all

lemma task_view_schema_json:
  assumes "cacheable_view v"
  shows "task_view_schema (task_view_json v) = Some v"
proof -
  let ?rest = "opt_json ''usage'' usage_json (usage v) @ task_state_json (status v)"
  have e: "opt_field executor_schema ''executor'' (opt_json ''executor'' executor_json (executor v) @
      [(''metadata'', metadata_json (metadata v)), (''taskId'', JStr (task_id v))] @ ?rest) = Some (executor v)"
    using assms by (intro opt_field_opt_json) (auto simp: executor_schema_json cacheable_view_def)
  have u: "opt_field usage_schema ''usage'' ?rest = Some (usage v)"
    using assms by (intro opt_field_opt_json) (auto simp: usage_schema_json cacheable_view_def)
  show ?thesis
    using assms e u metadata_schema_json [of "metadata v"]
      terminal_state_schema_json [of "status v" executor_json "executor v" "metadata_json (metadata v)"
        "JStr (task_id v)" usage_json "usage v"]
    by (simp add: task_view_schema_def task_view_json_def cacheable_view_def)
qed

lemma costed_view_rejected:
  assumes "usage v = Some u" and "cost_usd u = Some c" and "valid_usage u"
  shows "task_view_schema (task_view_json v) = None"
  using assms usage_schema_json [of u]
  by (auto simp: task_view_schema_def task_view_json_def bind_eq_None_conv)

lemma index_entry_schema_json:
  assumes "valid_entry e"
  shows "index_entry_schema (index_entry_json e) = Some e"
proof -
  have t: "opt_field task_view_schema ''terminalView'' (opt_json ''terminalView'' task_view_json (terminal_cache e)) =
      Some (terminal_cache e)"
    using assms opt_field_opt_json [of "terminal_cache e" task_view_json task_view_schema "''terminalView''" "[]"]
    by (simp add: task_view_schema_json valid_entry_def)
  have b: "opt_field binding_schema ''executor'' (opt_json ''executor'' binding_json (entry_executor e) @
      (''metadata'', m) # (''taskId'', i) # (''taskRunId'', r) #
      opt_json ''terminalView'' task_view_json (terminal_cache e)) = Some (entry_executor e)" for m i r
    using assms opt_field_append [of "''executor''" "''terminalView''" _ task_view_json "terminal_cache e" "[]"]
    by (intro opt_field_opt_json) (simp_all add: binding_schema_json valid_entry_def)
  have s: "opt_field nat_number ''createdByStepIndex'' (opt_json ''createdByStepIndex'' JNum (created_step e) @
      (''createdByTurnId'', tu) # opt_json ''executor'' binding_json (entry_executor e) @
      (''metadata'', m) # (''taskId'', i) # (''taskRunId'', r) #
      opt_json ''terminalView'' task_view_json (terminal_cache e)) = Some (created_step e)" for tu m i r
    using assms opt_field_append [of "''createdByStepIndex''" "''terminalView''" _ task_view_json "terminal_cache e" "[]"]
    by (intro opt_field_opt_json) (simp_all add: valid_entry_def)
  show ?thesis
    using assms t b s metadata_schema_json [of "entry_metadata e"]
    by (simp add: index_entry_schema_def index_entry_json_def valid_entry_def)
qed

lemma task_index_schema_json:
  "valid_index es \<Longrightarrow> task_index_schema (task_index_json es) = Some es"
  using array_schema_map [of es index_entry_schema index_entry_json] length_js_set_eq [of "map entry_task es"]
  by (simp add: task_index_schema_def task_index_json_def valid_index_def index_entry_schema_json
      list_all_iff valid_entry_def)

text \<open>Conversely, whatever the schema returns is valid.\<close>

lemma field_from: "req_field dec k ps = Some x \<Longrightarrow> \<exists>j. dec j = Some x"
  by (auto simp: req_field_def split: option.splits)

lemma opt_field_from: "opt_field dec k ps = Some (Some x) \<Longrightarrow> \<exists>j. dec j = Some x"
  by (auto simp: opt_field_def split: option.splits json.splits)

lemma non_empty_field: "req_field non_empty_string k ps = Some s \<Longrightarrow> s \<noteq> []"
  by (auto dest!: field_from simp: non_empty_string_def split: json.splits if_splits)

lemma nonneg_field: "req_field nonneg_number k ps = Some n \<Longrightarrow> 0 \<le> n"
  by (auto dest!: field_from simp: nonneg_number_def split: json.splits if_splits)

lemma metadata_schema_valid: "task_metadata_schema j = Some m \<Longrightarrow> valid_metadata m"
  by (auto simp: task_metadata_schema_def valid_metadata_def bind_eq_Some_conv split: json.splits
      dest: non_empty_field)

lemma binding_schema_valid: "binding_schema j = Some b \<Longrightarrow> binding_kind b \<noteq> []"
  by (auto simp: binding_schema_def bind_eq_Some_conv split: json.splits if_splits dest: non_empty_field)

lemma usage_schema_valid: "usage_schema j = Some u \<Longrightarrow> valid_usage u \<and> cost_usd u = None"
  by (auto simp: usage_schema_def valid_usage_def bind_eq_Some_conv split: json.splits if_splits
      dest: nonneg_field)

lemma executor_schema_valid: "executor_schema j = Some e \<Longrightarrow> valid_executor (Some e)"
  by (auto simp: executor_schema_def valid_executor_def split: json.splits if_splits
      dest!: opt_field_from binding_schema_valid)

lemma terminal_state_valid: "terminal_state_schema ps = Some s \<Longrightarrow> is_terminal_task_status s"
  by (auto simp: terminal_state_schema_def Let_def split: if_splits)

lemma task_view_schema_valid: "task_view_schema j = Some v \<Longrightarrow> cacheable_view v"
proof -
  have "opt_field executor_schema k ps = Some e \<Longrightarrow> valid_executor e" for k ps e
    by (cases e) (auto simp: valid_executor_def dest!: opt_field_from executor_schema_valid)
  moreover have "opt_field usage_schema k ps = Some (Some u) \<Longrightarrow> valid_usage u \<and> cost_usd u = None" for k ps u
    by (auto dest!: opt_field_from usage_schema_valid)
  moreover have "req_field task_metadata_schema k ps = Some m \<Longrightarrow> valid_metadata m" for k ps m
    by (auto dest!: field_from metadata_schema_valid)
  ultimately show "task_view_schema j = Some v \<Longrightarrow> cacheable_view v"
    by (auto simp: task_view_schema_def cacheable_view_def bind_eq_Some_conv split: json.splits
        dest: non_empty_field terminal_state_valid)
qed

lemma index_entry_schema_valid:
  assumes "index_entry_schema j = Some e" and "cache_matches e"
  shows "valid_entry e"
proof -
  have "opt_field nat_number k ps = Some (Some n) \<Longrightarrow> nat_number (JNum n) = Some n" for k ps n
    by (auto dest!: opt_field_from simp: nat_number_def split: json.splits if_splits)
  moreover have "opt_field binding_schema k ps = Some (Some b) \<Longrightarrow> binding_kind b \<noteq> []" for k ps b
    by (auto dest!: opt_field_from binding_schema_valid)
  moreover have "opt_field task_view_schema k ps = Some (Some v) \<Longrightarrow> cacheable_view v" for k ps v
    by (auto dest!: opt_field_from task_view_schema_valid)
  moreover have "req_field task_metadata_schema k ps = Some m \<Longrightarrow> valid_metadata m" for k ps m
    by (auto dest!: field_from metadata_schema_valid)
  ultimately show ?thesis
    using assms by (auto simp: index_entry_schema_def valid_entry_def bind_eq_Some_conv
        split: json.splits if_splits dest: non_empty_field)
qed

lemma task_index_schema_valid:
  assumes "task_index_schema j = Some es"
  shows "valid_index es"
proof -
  from assms obtain xs where xs: "array_schema index_entry_schema xs = Some es"
    and d: "length (js_set (map entry_task es)) = length es" and c: "list_all cache_matches es"
    by (auto simp: task_index_schema_def bind_eq_Some_conv split: json.splits if_splits option.splits)
  have "distinct (map entry_task es)" using d length_js_set_eq [of "map entry_task es"] by simp
  moreover have "valid_entry e" if e: "e \<in> set es" for e
    using array_schema_SomeD [OF xs e] c e by (auto simp: list_all_iff intro: index_entry_schema_valid)
  ultimately show ?thesis by (simp add: valid_index_def)
qed

section \<open>Reading back\<close>

lemma get_task_index_put [simp]:
  "valid_index es \<Longrightarrow> get_session_task_index (Some (state_put tasks_key (task_index_json es) s)) = Inr es"
  by (simp add: get_session_task_index_def task_index_schema_json Let_def, simp add: task_index_json_def)

interpretation task_slot:
  state_slot tasks_key "\<lambda>es m. state_put tasks_key (task_index_json es) (Some m)"
    "\<lambda>m. get_session_task_index (Some m)" Inr valid_index
proof unfold_locales
  fix s t :: state_map
  assume "map_of s tasks_key = map_of t tasks_key"
  then have "state_get (Some s) tasks_key = state_get (Some t) tasks_key"
    by (intro state_get_cong) simp
  then show "get_session_task_index (Some s) = get_session_task_index (Some t)"
    by (simp add: get_session_task_index_def)
next
  show "map_of (state_put tasks_key (task_index_json v) (Some m)) k = map_of m k"
    if "k \<noteq> tasks_key" for k v m
    using that by (simp add: state_put_def update_conv')
qed simp

lemma get_task_index_valid: "get_session_task_index s = Inr es \<Longrightarrow> valid_index es"
  by (auto simp: get_session_task_index_def Let_def valid_index_def [of "[]"] split: if_splits option.splits
      dest: task_index_schema_valid)

lemma find_entry_append:
  "find (\<lambda>e. entry_task e = t) (filter (\<lambda>c. entry_task c \<noteq> i) es @ [e]) =
     (if entry_task e = t then (if t = i then Some e else case find (\<lambda>e. entry_task e = t) es of None \<Rightarrow> Some e | Some x \<Rightarrow> Some x)
      else if t = i then None else find (\<lambda>e. entry_task e = t) es)"
  by (induction es) auto

lemma record_reads_back:
  assumes "get_session_task_index (state s) = Inr es" and "valid_entry e"
    and "record_session_task s e = Inr s'"
  shows "find_session_task_entry (state s') t =
    Inr (if t = entry_task e then Some e else find (\<lambda>e. entry_task e = t) es)"
proof -
  have "valid_index (filter (\<lambda>c. entry_task c \<noteq> entry_task e) es @ [e])"
    using get_task_index_valid [OF assms(1)] assms(2) by (auto simp: valid_index_def distinct_map_filter)
  with assms(1,3) show ?thesis
    by (auto simp: record_session_task_def find_session_task_entry_def find_entry_append)
qed

lemma metadata_equal_refl: "wf_json (metadata_json m) \<Longrightarrow> same_task_metadata m m"
  by (simp add: same_task_metadata_def json_eq_refl)

lemma cached_entries:
  assumes "valid_index es" and "cacheable_view v" and "find (\<lambda>e. entry_task e = task_id v) es = Some e"
    and "same_task_metadata (metadata v) (entry_metadata e)"
  shows "valid_index (update_first (\<lambda>e. entry_task e = task_id v) (\<lambda>e. e\<lparr>terminal_cache := Some v\<rparr>) es)"
proof -
  from find_first_split [OF assms(3)] obtain us vs where es: "es = us @ e # vs"
    and id: "entry_task e = task_id v"
    and upd: "update_first (\<lambda>e. entry_task e = task_id v) (\<lambda>e. e\<lparr>terminal_cache := Some v\<rparr>) es =
      us @ e\<lparr>terminal_cache := Some v\<rparr> # vs"
    by blast
  show ?thesis
    unfolding upd using assms(1,2,4) id
    by (auto simp: es valid_index_def valid_entry_def cache_matches_def)
qed

lemma cache_reads_back:
  assumes "get_session_task_index s = Inr es" and "cacheable_view v"
    and "find (\<lambda>e. entry_task e = task_id v) es = Some e"
    and "same_task_metadata (metadata v) (entry_metadata e)" "same_task_metadata (entry_metadata e) (metadata v)"
  shows "\<exists>s'. cache_terminal_task_view s v = Inr s' \<and>
    find_session_task_entry s' (task_id v) = Inr (Some (e\<lparr>terminal_cache := Some v\<rparr>)) \<and>
    (\<forall>t. t = task_id v \<or> find_session_task_entry s' t = find_session_task_entry s t)"
proof -
  let ?es = "update_first (\<lambda>e. entry_task e = task_id v) (\<lambda>e. e\<lparr>terminal_cache := Some v\<rparr>) es"
  have v: "valid_index ?es"
    by (rule cached_entries [OF get_task_index_valid [OF assms(1)] assms(2-4)])
  have "find (\<lambda>e. entry_task e = task_id v) ?es = Some (e\<lparr>terminal_cache := Some v\<rparr>)"
    using assms(3) by (induction es) (auto split: if_splits)
  moreover have "find (\<lambda>e. entry_task e = t) ?es = find (\<lambda>e. entry_task e = t) es" if "t \<noteq> task_id v" for t
    using that by (intro find_update_first_other) auto
  moreover have "cache_terminal_task_view s v = Inr (Some (state_put tasks_key (task_index_json ?es) s))"
    using assms by (simp add: cache_terminal_task_view_def is_valid_terminal_view_def cacheable_view_def)
  ultimately show ?thesis
    using v assms(1) by (auto simp: find_session_task_entry_def)
qed

text \<open>A cost in the cached view makes the whole index unreadable.\<close>

lemma array_schema_None: "x \<in> set xs \<Longrightarrow> dec x = None \<Longrightarrow> array_schema dec xs = None"
  by (induction xs) (auto split: option.splits)

lemma costed_entry_rejected:
  assumes "terminal_cache e = Some v" and "task_view_schema (task_view_json v) = None"
  shows "index_entry_schema (index_entry_json e) = None"
  using assms by (auto simp: index_entry_schema_def index_entry_json_def bind_eq_None_conv)

lemma cost_corrupts_index:
  assumes "get_session_task_index s = Inr es" and "is_terminal_task_status (status v)"
    and "usage v = Some u" and "cost_usd u = Some c" and "valid_usage u"
    and "find (\<lambda>e. entry_task e = task_id v) es = Some e"
    and "same_task_metadata (entry_metadata e) (metadata v)"
  shows "\<exists>s'. cache_terminal_task_view s v = Inr s' \<and> get_session_task_index s' = Inl CorruptIndex"
proof -
  let ?es = "update_first (\<lambda>e. entry_task e = task_id v) (\<lambda>e. e\<lparr>terminal_cache := Some v\<rparr>) es"
  from find_first_split [OF assms(6)] have "e\<lparr>terminal_cache := Some v\<rparr> \<in> set ?es" by auto
  moreover have "index_entry_schema (index_entry_json (e\<lparr>terminal_cache := Some v\<rparr>)) = None"
    by (rule costed_entry_rejected [OF _ costed_view_rejected [OF assms(3-5)]]) simp
  ultimately have "array_schema index_entry_schema (map index_entry_json ?es) = None"
    by (intro array_schema_None) auto
  then have "task_index_schema (task_index_json ?es) = None"
    by (simp add: task_index_schema_def task_index_json_def)
  then have "get_session_task_index (Some (state_put tasks_key (task_index_json ?es) s)) = Inl CorruptIndex"
    by (simp add: get_session_task_index_def Let_def, simp add: task_index_json_def)
  moreover have "cache_terminal_task_view s v = Inr (Some (state_put tasks_key (task_index_json ?es) s))"
    using assms by (simp add: cache_terminal_task_view_def is_valid_terminal_view_def)
  ultimately show ?thesis by blast
qed

end
