(* ===== verification/Proxied_Delivery.thy ===== *)
theory Proxied_Delivery
  imports Proxy_Routing Task_Index Delivery_Relay
begin

text \<open>
  A whole delivery to a session with proxied requests: the merge of payloads
  (\<open>execution/deliver-payloads.ts\<close>), the payloads left after the task envelopes
  (\<open>execution/route-child-delivery.ts\<close>) and the step that routes every payload, forwards each child's
  answers and keeps the rest (\<open>execution/proxied-deliver-step.ts\<close>). What a forwarded call does is decided
  by the workflow runtime: the parameter \<open>perform\<close> gives the outcome of the call with that number. The
  calls made are returned with their outcomes.
\<close>

section \<open>Merged payloads\<close>

definition coalesced_fields :: "string list" where
  "coalesced_fields = [''context'', ''inputResponses'', ''message'', ''outputSchema'', ''task'']"

definition task_items :: "string \<Rightarrow> json list \<Rightarrow> json list" where
  "task_items f ps = concat (map (\<lambda>p. case jget (jget p ''task'') f of JArr xs \<Rightarrow> xs | _ \<Rightarrow> []) ps)"

definition assign :: "(string \<times> json) list \<Rightarrow> (string \<times> json) list \<Rightarrow> (string \<times> json) list" where
  \<comment> \<open>\<open>Object.assign\<close> on own members\<close>
  "assign target source = foldl (\<lambda>m (k, v). AList.update k v m) target source"

definition coalesce_deliver_payloads :: "json list \<Rightarrow> json" where
  "coalesce_deliver_payloads ps = (case ps of
     [] \<Rightarrow> JObj []
   | [p] \<Rightarrow> p
   | _ \<Rightarrow>
       (let members = foldl (\<lambda>m p. assign m (filter (\<lambda>e. snd e \<noteq> JUndef) (own_members p))) [] ps;
            rest = foldl (\<lambda>m f. AList.delete f m) members coalesced_fields;
            task = concat (map (\<lambda>f. if task_items f ps = [] then [] else [(f, JArr (task_items f ps))])
              [''inputRequests'', ''agentRequests'', ''authorizationEvents'', ''views'']);
            merged = (if task = [] then rest else AList.update ''task'' (JObj task) rest);
            turn_input = foldl coalesce_turn_inputs empty_input (map read_step_input ps)
        in JObj (assign merged (own_members (step_input_json turn_input)))))"

definition indexed :: "'a list \<Rightarrow> (nat \<times> 'a) list" where
  "indexed xs = enumerate 0 xs"

definition metadata_at :: "('p, 'm) delivery_scheme \<Rightarrow> nat \<Rightarrow> nat \<Rightarrow> delivery_metadata list" where
  \<comment> \<open>The metadata of the payload at \<open>k\<close>, moved to the index \<open>n\<close>.\<close>
  "metadata_at d k n = map (\<lambda>e. e\<lparr>payload_index := n\<rparr>) (filter (\<lambda>e. payload_index e = k) (delivery_metadata d))"

definition kept_payloads :: "hook_delivery \<Rightarrow> (nat \<times> json) list \<Rightarrow> hook_delivery" where
  \<comment> \<open>The delivery with these payloads, each with the index it had.\<close>
  "kept_payloads d ks = d\<lparr>delivery_payloads := map snd ks,
     delivery_metadata := concat (map (\<lambda>(n, k, p). metadata_at d k n) (indexed ks))\<rparr>"

definition ordinary_delivery :: "hook_delivery \<Rightarrow> hook_delivery option" where
  "ordinary_delivery d =
     (let ordinary = map (\<lambda>(k, p). (k, AList.delete ''task'' (own_members p))) (indexed (delivery_payloads d));
          ks = map (\<lambda>(k, ms). (k, JObj ms)) (filter (\<lambda>(k, ms). ms \<noteq> []) ordinary)
      in if ks = [] then None else Some (kept_payloads d ks))"

section \<open>Children of a delivery\<close>

record child_delivery =
  to_child :: routed_child \<comment> \<open>the routed child whose address fields it copies\<close>
  child_metadata :: "delivery_metadata list"
  child_payloads :: "json list"
  child_retire :: "string list"
  source_indexes :: "nat list"

record child_item =
  item_source :: nat \<comment> \<open>index of the payload\<close>
  item_metadata :: bool \<comment> \<open>first child of a payload that leaves nothing to the parent\<close>
  item_child :: routed_child

definition child_key :: "routed_child \<Rightarrow> string" where
  "child_key c = routed_token c @ [nul] @
     (case routed_inbox c of Some a \<Rightarrow> (case jstr a ''sessionId'' of Some i \<Rightarrow> i | None \<Rightarrow> []) | None \<Rightarrow> []) @ [nul] @
     (case routed_url c of Some u \<Rightarrow> u | None \<Rightarrow> []) @ [nul] @
     (case routed_task c of Some t \<Rightarrow> t | None \<Rightarrow> [])"

definition responses_payload :: "json list \<Rightarrow> json" where
  "responses_payload rs = JObj [(''inputResponses'', JArr rs)]"

definition add_child :: "hook_delivery \<Rightarrow> child_item \<Rightarrow> child_delivery option \<Rightarrow> child_delivery" where
  "add_child d i existing =
     (let c = item_child i;
          b = (case existing of None \<Rightarrow> \<lparr>to_child = c, child_metadata = [], child_payloads = [], child_retire = [],
            source_indexes = []\<rparr> | Some b \<Rightarrow> b)
      in b\<lparr>child_payloads := child_payloads b @ [responses_payload (routed_responses c)],
          child_retire := child_retire b @ retire_request_ids c,
          source_indexes := source_indexes b @ [item_source i],
          child_metadata := child_metadata b @
            (if item_metadata i then metadata_at d (item_source i) (length (child_payloads b)) else [])\<rparr>)"

definition child_items :: "nat \<Rightarrow> routed_payload \<Rightarrow> child_item list" where
  "child_items k routed = map (\<lambda>(n, c). \<lparr>item_source = k, item_metadata = (for_self routed = None \<and> n = 0), item_child = c\<rparr>)
     (indexed (for_children routed))"

section \<open>Forwarding\<close>

datatype call =
  Task_Input string "json option" routed_child "json list" \<comment> \<open>task inbox, auth, child address, answers\<close>
| Answer_Hook string "json list"
| Child_Inbox routed_child hook_delivery

datatype outcome = Delivered | Unreachable | Thrown string

datatype step_error = Index_Failed index_error | Call_Failed string

definition responses_of_payloads :: "json list \<Rightarrow> json list" where
  "responses_of_payloads ps = payload_responses (coalesce_deliver_payloads ps)"

fun merge_one :: "string \<Rightarrow> (nat \<times> json) list \<Rightarrow> nat \<times> json \<Rightarrow> (nat \<times> json) list" where
  "merge_one t parents (k, payload) =
     (let stranded = map (\<lambda>x. spread x [(''requestId'', JStr (create_task_input_request_id t (request_id x)))])
            (payload_responses payload);
          self = (case map_of parents k of None \<Rightarrow> JObj [] | Some p \<Rightarrow> p)
      in if stranded = [] then parents
         else AList.update k (spread self [(''inputResponses'', JArr (payload_responses self @ stranded))]) parents)"

definition merge_stranded_responses :: "(nat \<times> json) list \<Rightarrow> child_delivery \<Rightarrow> string \<Rightarrow> (nat \<times> json) list" where
  "merge_stranded_responses parents c t = foldl (merge_one t) parents (zip (source_indexes c) (child_payloads c))"

definition child_hook_delivery :: "hook_delivery \<Rightarrow> child_delivery \<Rightarrow> hook_delivery" where
  "child_hook_delivery d c = d\<lparr>delivery_metadata := child_metadata c, delivery_payloads := child_payloads c\<rparr>"

fun settle_children ::
  "platform \<Rightarrow> (nat \<Rightarrow> call \<Rightarrow> outcome) \<Rightarrow> hook_delivery \<Rightarrow> child_delivery list \<Rightarrow> (nat \<times> json) list \<Rightarrow>
     'a stateful_scheme \<Rightarrow> (call \<times> outcome) list \<Rightarrow>
     (step_error + (nat \<times> json) list \<times> 'a stateful_scheme) \<times> (call \<times> outcome) list" where
  "settle_children p perform d [] parents session calls = (Inr (parents, session), calls)"
| "settle_children p perform d (c # cs) parents session calls =
     (case routed_task (to_child c) of
        Some t \<Rightarrow>
          (case find_session_task_entry (state session) t of
             Inl e \<Rightarrow> (Inl (Index_Failed e), calls)
           | Inr None \<Rightarrow> settle_children p perform d cs (merge_stranded_responses parents c t) session calls
           | Inr (Some e) \<Rightarrow>
               (let call = Task_Input (inbox_token e) (delivery_auth d) (to_child c) (responses_of_payloads (child_payloads c));
                    out = perform (length calls) call; calls' = calls @ [(call, out)]
                in case out of
                     Thrown x \<Rightarrow> (Inl (Call_Failed x), calls')
                   | Unreachable \<Rightarrow> settle_children p perform d cs (merge_stranded_responses parents c t) session calls'
                   | Delivered \<Rightarrow> settle_children p perform d cs parents
                       (retire_proxy_input_requests p session (child_retire c)) calls'))
      | None \<Rightarrow>
          (let call = (case routed_answer_hook (to_child c) of
                 Some _ \<Rightarrow> Answer_Hook (routed_token (to_child c)) (responses_of_payloads (child_payloads c))
               | None \<Rightarrow> Child_Inbox (to_child c) (child_hook_delivery d c));
               out = perform (length calls) call; calls' = calls @ [(call, out)]
           in case out of
                Delivered \<Rightarrow> settle_children p perform d cs parents
                  (retire_proxy_input_requests p session (child_retire c)) calls'
              | Unreachable \<Rightarrow> (Inl (Call_Failed ''unreachable''), calls')
              | Thrown x \<Rightarrow> (Inl (Call_Failed x), calls')))"

section \<open>The step\<close>

datatype ('r, 's) routed_delivery = Cancel_Turn 's | Continue "'r option" 's

definition task_admits :: "state_map option \<Rightarrow> string \<Rightarrow> proxy_request \<Rightarrow> bool" where
  "task_admits s i r = (case route_task r of
     None \<Rightarrow> True
   | Some t \<Rightarrow> (case find_session_task_entry s t of Inr (Some _) \<Rightarrow> True | _ \<Rightarrow> False))"

definition index_failure :: "platform \<Rightarrow> state_map option \<Rightarrow> json list \<Rightarrow> index_error option" where
  \<comment> \<open>The task index cannot be read and a response has a task route.\<close>
  "index_failure p s payloads = (case get_session_task_index s of
     Inr _ \<Rightarrow> None
   | Inl e \<Rightarrow>
       if list_ex (\<lambda>x. case map_of (read_map p s) (request_id x) of None \<Rightarrow> False | Some r \<Rightarrow> route_task r \<noteq> None)
            (concat (map payload_responses payloads))
       then Some e else None)"

definition route_proxied_deliver ::
  "platform \<Rightarrow> (nat \<Rightarrow> call \<Rightarrow> outcome) \<Rightarrow> hook_delivery \<Rightarrow> 'a stateful_scheme \<Rightarrow>
     (step_error + (hook_delivery, 'a stateful_scheme) routed_delivery) \<times> (call \<times> outcome) list" where
  "route_proxied_deliver p perform d session =
     (case index_failure p (state session) (delivery_payloads d) of
        Some e \<Rightarrow> (Inl (Index_Failed e), [])
      | None \<Rightarrow>
          (let routed = map (\<lambda>(k, payload). (k, route_deliver_payload p (task_admits (state session)) payload (state session)))
                 (indexed (delivery_payloads d));
               parents = concat (map (\<lambda>(k, r). case for_self r of None \<Rightarrow> [] | Some self \<Rightarrow> [(k, self)]) routed);
               items = concat (map (\<lambda>(k, r). child_items k r) routed);
               children = map snd (bucketed (\<lambda>i. child_key (item_child i)) (add_child d) items);
               (settled, calls) = settle_children p perform d children parents session []
           in (bindR settled (\<lambda>(parents', session').
                 if list_ex (\<lambda>(k, r). cancel_turn r) routed then Inr (Cancel_Turn session')
                 else (let ks = sort_key fst parents' in
                   Inr (Continue (if ks = [] then None else Some (kept_payloads d ks)) session'))), calls)))"

definition route_legacy_payload ::
  "platform \<Rightarrow> (nat \<Rightarrow> call \<Rightarrow> outcome) \<Rightarrow> json option \<Rightarrow> json \<Rightarrow> 'a stateful_scheme \<Rightarrow>
     (step_error + (json, 'a stateful_scheme) routed_delivery) \<times> (call \<times> outcome) list" where
  \<comment> \<open>The input of older workflows: one payload, and the remainder merged into one.\<close>
  "route_legacy_payload p perform auth payload session =
     (let (res, calls) = route_proxied_deliver p perform \<lparr>delivery_auth = auth, delivery_caller = None, delivery_metadata = [],
            delivery_payloads = [payload], delivery_rest = JObj [], task_delivery_id = None, steers = False\<rparr> session
      in (bindR res (\<lambda>r. Inr (case r of Cancel_Turn s \<Rightarrow> Cancel_Turn s
            | Continue remainder s \<Rightarrow> Continue (map_option (coalesce_deliver_payloads \<circ> delivery_payloads) remainder) s)), calls))"

section \<open>Responses of merged payloads\<close>

lemma payload_responses_simps [simp]:
  "payload_responses (responses_payload rs) = rs" "payload_responses (JObj []) = []"
  by (simp_all add: payload_responses_def responses_payload_def)

lemma map_of_assign: "map_of (assign m ms) k = (case map_of (rev ms) k of None \<Rightarrow> map_of m k | Some v \<Rightarrow> Some v)"
  by (simp add: assign_def foldl_update_map_of map_add_def)

lemma coalesced_responses:
  "or_empty (input_responses (coalesce_turn_inputs i (read_step_input q))) = or_empty (input_responses i) @ payload_responses q"
proof -
  have "or_empty (input_responses (read_step_input q)) = payload_responses q"
    by (simp add: read_step_input_def payload_responses_def or_empty_def split: json.split)
  then show ?thesis by (simp add: coalesce_turn_inputs_def)
qed

lemma fold_turn_inputs:
  "or_empty (input_responses (foldl coalesce_turn_inputs i (map read_step_input ps))) =
     or_empty (input_responses i) @ concat (map payload_responses ps)"
  by (induction ps arbitrary: i) (simp_all add: coalesced_responses)

lemma delete_fields: "f \<in> set fs \<Longrightarrow> map_of (foldl (\<lambda>m f. AList.delete f m) ms fs) f = None"
proof (induction fs rule: rev_induct)
  case (snoc g fs)
  then show ?case by (cases "f = g") (auto simp: delete_conv')
qed simp

lemma responses_of_payloads_eq: "responses_of_payloads ps = concat (map payload_responses ps)"
proof (cases "\<exists>a b qs. ps = a # b # qs")
  case False
  then consider "ps = []" | p where "ps = [p]" by (cases ps; cases "tl ps") auto
  then show ?thesis by cases (simp_all add: responses_of_payloads_def coalesce_deliver_payloads_def)
next
  case True
  then obtain a b qs where ps: "ps = a # b # qs" by blast
  let ?i = "foldl coalesce_turn_inputs empty_input (map read_step_input ps)"
  obtain merged where m: "coalesce_deliver_payloads ps = JObj (assign merged (own_members (step_input_json ?i)))"
    and none: "map_of merged ''inputResponses'' = None"
  proof
    let ?members = "foldl (\<lambda>m p. assign m (filter (\<lambda>e. snd e \<noteq> JUndef) (own_members p))) [] ps"
    let ?rest = "foldl (\<lambda>m f. AList.delete f m) ?members coalesced_fields"
    let ?task = "concat (map (\<lambda>f. if task_items f ps = [] then [] else [(f, JArr (task_items f ps))])
        [''inputRequests'', ''agentRequests'', ''authorizationEvents'', ''views''])"
    let ?merged = "if ?task = [] then ?rest else AList.update ''task'' (JObj ?task) ?rest"
    show "coalesce_deliver_payloads ps = JObj (assign ?merged (own_members (step_input_json ?i)))"
      unfolding coalesce_deliver_payloads_def Let_def by (simp only: ps list.case)
    have "map_of ?rest ''inputResponses'' = None" by (rule delete_fields) (simp add: coalesced_fields_def)
    then show "map_of ?merged ''inputResponses'' = None" by (simp add: update_conv')
  qed
  have r: "map_of (rev (own_members (step_input_json ?i))) ''inputResponses'' = map_option JArr (input_responses ?i)"
    by (simp add: step_input_json_def opt_json_def split: option.split)
  have "payload_responses (coalesce_deliver_payloads ps) = or_empty (input_responses ?i)"
    by (simp add: payload_responses_def m map_of_assign r none or_empty_def split: option.split)
  then show ?thesis
    by (simp add: responses_of_payloads_def fold_turn_inputs) (simp add: empty_input_def or_empty_def)
qed

section \<open>What is collected for a child\<close>

lemma collected_child:
  assumes "items \<noteq> []"
  shows "\<exists>c. collected (add_child d) items = Some c \<and> to_child c = item_child (hd items) \<and>
    child_payloads c = map (\<lambda>i. responses_payload (routed_responses (item_child i))) items \<and>
    child_retire c = concat (map (\<lambda>i. retire_request_ids (item_child i)) items) \<and>
    source_indexes c = map item_source items"
  using assms
proof (induction items rule: rev_induct)
  case (snoc i items)
  show ?case
  proof (cases "items = []")
    case True
    then show ?thesis by (simp add: add_child_def Let_def)
  next
    case False
    from snoc.IH [OF False] False show ?thesis by (auto simp: collected_snoc add_child_def Let_def)
  qed
qed simp

definition total :: "(nat \<times> json) list \<Rightarrow> json multiset" where
  \<comment> \<open>All the input responses of the payloads kept for the parent.\<close>
  "total parents = mset (concat (map (\<lambda>e. payload_responses (snd e)) parents))"

lemma total_update:
  "total (AList.update k v ps) + mset (payload_responses (case map_of ps k of None \<Rightarrow> JObj [] | Some p \<Rightarrow> p)) =
     total ps + mset (payload_responses v)"
  by (induction ps) (auto simp: total_def)

definition stranded_of :: "routed_child \<Rightarrow> json list" where
  "stranded_of c = (case routed_task c of None \<Rightarrow> []
     | Some t \<Rightarrow> map (\<lambda>x. spread x [(''requestId'', JStr (create_task_input_request_id t (request_id x)))]) (routed_responses c))"

lemma total_merge_one:
  "total (merge_one t parents (k, payload)) = total parents +
     mset (map (\<lambda>x. spread x [(''requestId'', JStr (create_task_input_request_id t (request_id x)))]) (payload_responses payload))"
proof -
  let ?new = "map (\<lambda>x. spread x [(''requestId'', JStr (create_task_input_request_id t (request_id x)))]) (payload_responses payload)"
  let ?self = "case map_of parents k of None \<Rightarrow> JObj [] | Some p \<Rightarrow> p"
  have "payload_responses (spread ?self [(''inputResponses'', JArr (payload_responses ?self @ ?new))]) = payload_responses ?self @ ?new"
    by (simp add: payload_responses_def [of "spread _ _"])
  with total_update [of k "spread ?self [(''inputResponses'', JArr (payload_responses ?self @ ?new))]" parents] show ?thesis
    by (simp add: Let_def)
qed

lemma total_merge:
  assumes "items \<noteq> []" and "collected (add_child d) items = Some c"
    and "\<forall>i \<in> set items. routed_task (item_child i) = Some t"
  shows "total (merge_stranded_responses parents c t) = total parents + mset (concat (map (\<lambda>i. stranded_of (item_child i)) items))"
proof -
  have fold: "total (foldl (merge_one t) parents (zip (map item_source is)
      (map (\<lambda>i. responses_payload (routed_responses (item_child i))) is))) =
      total parents + mset (concat (map (\<lambda>i. stranded_of (item_child i)) is))"
    if "\<forall>i \<in> set is. routed_task (item_child i) = Some t" for "is"
    using that by (induction "is" arbitrary: parents) (simp_all add: total_merge_one stranded_of_def del: merge_one.simps)
  from collected_child [OF assms(1), of d] assms(2) fold [OF assms(3)] show ?thesis
    by (simp add: merge_stranded_responses_def)
qed

end
