(* ===== verification/Delivery_Conservation.thy ===== *)
theory Delivery_Conservation
  imports Proxied_Delivery
begin

text \<open>
  What happens to the answers of a delivery that a session routes to its descendants: each one is followed
  from its payload to the child's bucket, the child's call and, where the call finds the task gone, back to
  the parent's remainder.
\<close>

section \<open>Items with the answers they stand for\<close>

type_synonym routed_answer = "json \<times> proxy_request"

type_synonym traced_item = "child_item \<times> routed_answer list"

definition groups :: "routed_answer list \<Rightarrow> routed_answer list list" where
  "groups ps = map (\<lambda>k. sharing k ps) (js_set (map (bucket_key \<circ> snd) ps))"

definition routed_answers :: "platform \<Rightarrow> state_map option \<Rightarrow> json \<Rightarrow> routed_answer list" where
  "routed_answers p s payload = routed_pairs (task_admits s) (read_map p s) (payload_responses payload)"

definition routing :: "platform \<Rightarrow> state_map option \<Rightarrow> json \<Rightarrow> routed_payload" where
  "routing p s payload = route_deliver_payload p (task_admits s) payload s"

definition traced :: "platform \<Rightarrow> state_map option \<Rightarrow> nat \<Rightarrow> json \<Rightarrow> traced_item list" where
  "traced p s k payload = zip (child_items k (routing p s payload)) (groups (routed_answers p s payload))"

lemma for_children_groups:
  "for_children (routing p s payload) = map (to_routed_child (read_map p s) \<circ> bucket_of) (groups (routed_answers p s payload))"
  by (simp add: routing_def routed_answers_def for_children_eq groups_def Let_def)

lemma length_child_items [simp]: "length (child_items k routed) = length (for_children routed)"
  by (simp add: child_items_def indexed_def)

lemma item_child_nth [simp]: "n < length (for_children routed) \<Longrightarrow> item_child (child_items k routed ! n) = for_children routed ! n"
  by (simp add: child_items_def indexed_def nth_enumerate_eq)

lemma map_fst_traced: "map fst (traced p s k payload) = child_items k (routing p s payload)"
  by (simp add: traced_def for_children_groups)

lemma mset_traced: "mset (concat (map snd (traced p s k payload))) = mset (routed_answers p s payload)"
  by (simp add: traced_def for_children_groups groups_def del: mset_concat) (rule concat_sharing)

definition keyed_route :: "string \<Rightarrow> proxy_request \<Rightarrow> bool" where
  \<comment> \<open>The route of a task's request is stored under the id made of the task and the child's own id.\<close>
  "keyed_route i r \<longleftrightarrow> (\<forall>t c. route_task r = Some t \<longrightarrow> child_request_id r = Some c \<longrightarrow> i = create_task_input_request_id t c)"

definition regular_routes :: "platform \<Rightarrow> state_map option \<Rightarrow> bool" where
  "regular_routes p s \<longleftrightarrow> (\<forall>(i, r) \<in> set (read_map p s). clean_route r \<and> keyed_route i r)"

definition named_response :: "json \<Rightarrow> bool" where
  \<comment> \<open>An object with a string request id.\<close>
  "named_response x \<longleftrightarrow> (case x of JObj ms \<Rightarrow> (\<exists>i. map_of ms ''requestId'' = Some (JStr i)) | _ \<Rightarrow> False)"

definition follows :: "platform \<Rightarrow> state_map option \<Rightarrow> traced_item \<Rightarrow> bool" where
  "follows p s g \<longleftrightarrow> snd g \<noteq> [] \<and>
     item_child (fst g) = to_routed_child (read_map p s) (bucket_of (snd g)) \<and>
     (\<forall>(x, r) \<in> set (snd g). named_response x \<and> admitted_route (task_admits s) (read_map p s) x = Some r \<and>
        bucket_key r = bucket_key (snd (hd (snd g))))"

lemma groups_member:
  assumes "ps' \<in> set (groups ps)"
  shows "ps' \<noteq> [] \<and> set ps' \<subseteq> set ps \<and> (\<forall>q \<in> set ps'. bucket_key (snd q) = bucket_key (snd (hd ps')))"
proof -
  from assms obtain k q where q: "ps' = sharing k ps" "q \<in> set ps" "k = bucket_key (snd q)"
    by (auto simp: groups_def)
  then have "q \<in> set ps'" by (simp add: sharing_def)
  then have ne: "ps' \<noteq> []" by auto
  from q have "set ps' \<subseteq> set ps" and key: "\<forall>q \<in> set ps'. bucket_key (snd q) = k" by (auto simp: sharing_def)
  with key bspec [OF key hd_in_set [OF ne]] ne show ?thesis by simp
qed

lemma traced_follows:
  assumes "g \<in> set (traced p s k payload)" and "\<forall>x \<in> set (payload_responses payload). named_response x"
  shows "follows p s g"
proof -
  from assms(1) obtain n where n: "n < length (groups (routed_answers p s payload))"
    and g: "g = (child_items k (routing p s payload) ! n, groups (routed_answers p s payload) ! n)"
    by (auto simp: traced_def for_children_groups in_set_zip prod_eq_iff)
  from n have "snd g \<in> set (groups (routed_answers p s payload))" by (simp add: g)
  note m = groups_member [OF this]
  have "item_child (fst g) = to_routed_child (read_map p s) (bucket_of (snd g))"
    using n by (simp add: g for_children_groups)
  moreover have "named_response x \<and> admitted_route (task_admits s) (read_map p s) x = Some r" if "(x, r) \<in> set (snd g)" for x r
    using that m assms(2) by (auto simp: routed_answers_def routed_pairs_iff dest!: subsetD)
  ultimately show ?thesis using m unfolding follows_def by fastforce
qed

section \<open>One item\<close>

lemma key_address:
  assumes "route_key d q = route_key d r" and "clean_route q" and "clean_route r" and "nul \<notin> set d"
    and "wf_route p i q" and "wf_route p j r"
  shows "child_token q = child_token r \<and> route_task q = route_task r"
proof -
  note same = route_key_address [OF assms(1-4)]
  from assms(5,6) have "route_task q \<noteq> Some []" and "route_task r \<noteq> Some []" by (simp_all add: wf_route_def)
  with same(3) have "route_task q = route_task r" by (cases "route_task q"; cases "route_task r") auto
  with same(1) show ?thesis by simp
qed

lemma child_key_of: "child_key (to_routed_child entries (bucket_of ps)) = route_key [] (snd (hd ps))"
  by (simp add: child_key_def route_key_def to_routed_child_def bucket_of_def Let_def)

lemma admitted_regular:
  assumes "admitted_route allow (read_map p s) x = Some r" and "regular_routes p s"
  shows "clean_route r" and "keyed_route (request_id x) r" and "wf_route p (request_id x) r"
  using assms by (auto simp: admitted_route_def regular_routes_def split: option.splits if_splits
    dest: map_of_SomeD read_map_wf)

lemma nul_free [simp]: "nul \<notin> set []" "nul \<notin> set ''local''"
  by (simp_all add: nul_def)

lemma follows_head: "follows p s g \<Longrightarrow> hd (snd g) \<in> set (snd g)"
  by (simp add: follows_def)

lemma follows_fields:
  assumes g: "follows p s g" and reg: "regular_routes p s" and x: "(x, r) \<in> set (snd g)"
  shows "routed_token (item_child (fst g)) = child_token r \<and> routed_task (item_child (fst g)) = route_task r \<and>
    request_id x \<in> set (retire_request_ids (item_child (fst g)))"
proof -
  obtain y q where hd: "hd (snd g) = (y, q)" by force
  with follows_head [OF g] have y: "(y, q) \<in> set (snd g)" by simp
  from g x hd have key: "route_key ''local'' r = route_key ''local'' q" by (auto simp: follows_def bucket_key_joined)
  from g x y have a: "admitted_route (task_admits s) (read_map p s) x = Some r"
    "admitted_route (task_admits s) (read_map p s) y = Some q" by (auto simp: follows_def)
  note rx = admitted_regular [OF a(1) reg] and ry = admitted_regular [OF a(2) reg]
  from key_address [OF key rx(1) ry(1) nul_free(2) rx(3) ry(3)] g hd x show ?thesis
    by (force simp: follows_def to_routed_child_def bucket_of_def Let_def)
qed

lemma follows_responses:
  "follows p s g \<Longrightarrow> routed_responses (item_child (fst g)) = map (\<lambda>(x, r). to_child_input_response x r) (snd g)"
  by (simp add: follows_def)

lemma spread_back:
  assumes "named_response x"
  shows "spread (spread x [(''requestId'', JStr c)]) [(''requestId'', JStr (request_id x))] = x"
proof -
  from assms obtain ms i where x: "x = JObj ms" "map_of ms ''requestId'' = Some (JStr i)"
    by (cases x) (auto simp: named_response_def)
  then have "request_id x = i" by (simp add: request_id_def jstr_def)
  with x show ?thesis by (simp add: spread_def update_same)
qed

lemma child_request_named: "request_id (spread x [(''requestId'', JStr c)]) = c"
  by (simp add: request_id_def jstr_def)

lemma stranded_back:
  assumes g: "follows p s g" and reg: "regular_routes p s" and t: "routed_task (item_child (fst g)) = Some t"
  shows "stranded_of (item_child (fst g)) = map fst (snd g)"
proof -
  have "spread (to_child_input_response x r)
      [(''requestId'', JStr (create_task_input_request_id t (request_id (to_child_input_response x r))))] = x"
    if x: "(x, r) \<in> set (snd g)" for x r
  proof -
    from g x have a: "admitted_route (task_admits s) (read_map p s) x = Some r" and n: "named_response x"
      by (auto simp: follows_def)
    from follows_fields [OF g reg x] t have rt: "route_task r = Some t" by simp
    with admitted_regular(3) [OF a reg] obtain c where c: "child_request_id r = Some c" by (auto simp: wf_route_def)
    from admitted_regular(2) [OF a reg] rt c have "request_id x = create_task_input_request_id t c"
      by (simp add: keyed_route_def)
    then show ?thesis using spread_back [OF n, of c] by (simp add: to_child_input_response_def c child_request_named)
  qed
  then show ?thesis by (auto simp: stranded_of_def t follows_responses [OF g])
qed

section \<open>One child\<close>

definition answers_of :: "traced_item list \<Rightarrow> routed_answer list" where
  "answers_of gs = concat (map snd gs)"

definition one_child :: "platform \<Rightarrow> state_map option \<Rightarrow> traced_item list \<Rightarrow> bool" where
  "one_child p s gs \<longleftrightarrow> gs \<noteq> [] \<and>
     (\<forall>g \<in> set gs. follows p s g \<and> child_key (item_child (fst g)) = child_key (item_child (fst (hd gs))))"

definition child_of :: "hook_delivery \<Rightarrow> traced_item list \<Rightarrow> child_delivery" where
  "child_of d gs = the (collected (add_child d) (map fst gs))"

lemma child_of_fields:
  assumes "gs \<noteq> []"
  shows "to_child (child_of d gs) = item_child (fst (hd gs))"
    and "child_payloads (child_of d gs) = map (\<lambda>g. responses_payload (routed_responses (item_child (fst g)))) gs"
    and "child_retire (child_of d gs) = concat (map (\<lambda>g. retire_request_ids (item_child (fst g))) gs)"
    and "collected (add_child d) (map fst gs) = Some (child_of d gs)"
  using collected_child [of "map fst gs" d] assms by (auto simp: child_of_def hd_map comp_def)

lemma one_child_responses:
  assumes "one_child p s gs"
  shows "concat (map payload_responses (child_payloads (child_of d gs))) =
    map (\<lambda>(x, r). to_child_input_response x r) (answers_of gs)"
proof -
  have "concat (map (\<lambda>g. routed_responses (item_child (fst g))) hs) = map (\<lambda>(x, r). to_child_input_response x r) (answers_of hs)"
    if "\<forall>g \<in> set hs. follows p s g" for hs
    using that by (induction hs) (simp_all add: answers_of_def follows_responses [of p s])
  with assms show ?thesis by (simp add: one_child_def child_of_fields comp_def)
qed

lemma one_child_fields:
  assumes b: "one_child p s gs" and reg: "regular_routes p s" and x: "(x, r) \<in> set (answers_of gs)"
  shows "routed_token (to_child (child_of d gs)) = child_token r \<and> routed_task (to_child (child_of d gs)) = route_task r \<and>
    request_id x \<in> set (child_retire (child_of d gs))"
proof -
  from b have ne: "gs \<noteq> []" and hd: "follows p s (hd gs)" by (simp_all add: one_child_def)
  from x obtain g where g: "g \<in> set gs" "(x, r) \<in> set (snd g)" by (auto simp: answers_of_def)
  with b have f: "follows p s g" and key: "child_key (item_child (fst g)) = child_key (item_child (fst (hd gs)))"
    unfolding one_child_def by blast+
  obtain y q z v where pairs: "hd (snd g) = (y, q)" "hd (snd (hd gs)) = (z, v)" by force
  with follows_head [OF f] follows_head [OF hd] have m: "(y, q) \<in> set (snd g)" "(z, v) \<in> set (snd (hd gs))"
    by simp_all
  with f hd have a: "admitted_route (task_admits s) (read_map p s) y = Some q"
    "admitted_route (task_admits s) (read_map p s) z = Some v" by (auto simp: follows_def)
  note rq = admitted_regular [OF a(1) reg] and rv = admitted_regular [OF a(2) reg]
  from key f hd pairs have "route_key [] q = route_key [] v" by (simp add: follows_def child_key_of)
  note same = key_address [OF this rq(1) rv(1) nul_free(1) rq(3) rv(3)]
  show ?thesis
    using follows_fields [OF f reg g(2)] follows_fields [OF f reg m(1)] follows_fields [OF hd reg m(2)] same g(1)
    by (auto simp: child_of_fields ne)
qed

lemma one_child_task:
  assumes "one_child p s gs" and "regular_routes p s" and "g \<in> set gs"
  shows "routed_task (item_child (fst g)) = routed_task (to_child (child_of d gs))"
proof -
  from assms have f: "follows p s g" unfolding one_child_def by blast
  obtain y q where pair: "hd (snd g) = (y, q)" by force
  with follows_head [OF f] have m: "(y, q) \<in> set (snd g)" by simp
  with assms(3) have "(y, q) \<in> set (answers_of gs)" by (auto simp: answers_of_def)
  from one_child_fields [OF assms(1,2) this, of d] follows_fields [OF f assms(2) m] show ?thesis by simp
qed

lemma one_child_stranded:
  assumes b: "one_child p s gs" and reg: "regular_routes p s" and t: "routed_task (to_child (child_of d gs)) = Some t"
  shows "total (merge_stranded_responses parents (child_of d gs) t) = total parents + mset (map fst (answers_of gs))"
proof -
  from b have ne: "gs \<noteq> []" by (simp add: one_child_def)
  have tasks: "\<forall>i \<in> set (map fst gs). routed_task (item_child i) = Some t"
    using one_child_task [OF b reg, of _ d] t by auto
  have "concat (map (\<lambda>i. stranded_of (item_child i)) (map fst hs)) = map fst (answers_of hs)" if "set hs \<subseteq> set gs" for hs
    using that
  proof (induction hs)
    case (Cons g hs)
    then have "follows p s g" and "routed_task (item_child (fst g)) = Some t" using b tasks
      unfolding one_child_def by auto
    from stranded_back [OF this(1) reg this(2)] Cons show ?case by (simp add: answers_of_def)
  qed (simp add: answers_of_def)
  from this [of gs] total_merge [OF _ child_of_fields(4) [OF ne] tasks, of parents] ne show ?thesis by simp
qed

section \<open>All children\<close>

lemma retire_keeps_tasks:
  "find_session_task_entry (state (retire_proxy_input_requests p session ids)) t = find_session_task_entry (state session) t"
proof -
  have "map_of (AList.delete proxy_input_requests_key m) tasks_key = map_of m tasks_key" for m :: state_map
    by (simp add: delete_conv' tasks_key_def proxy_input_requests_key_def)
  then have empty: "AList.delete proxy_input_requests_key m = [] \<Longrightarrow> map_of m tasks_key = None" for m :: state_map
    by (metis map_of.simps(1))
  have "state_get (state (write_map session rs)) tasks_key = state_get (state session) tasks_key" for rs
    using empty [of "own_state (state session)"]
    by (cases "AList.delete proxy_input_requests_key (own_state (state session)) = []")
      (simp_all add: write_map_def state_get_def state_put_def state_or_undefined_def update_conv' delete_conv' tasks_key_def
        proxy_input_requests_key_def)
  then have "get_session_task_index (state (write_map session rs)) = get_session_task_index (state session)" for rs
    by (simp add: get_session_task_index_def)
  then show ?thesis
    by (simp add: retire_proxy_input_requests_def find_session_task_entry_def split: prod.split)
qed

definition call_responses :: "call \<Rightarrow> json list" where
  "call_responses c = (case c of Task_Input _ _ _ rs \<Rightarrow> rs | Answer_Hook _ rs \<Rightarrow> rs
     | Child_Inbox _ d \<Rightarrow> concat (map payload_responses (delivery_payloads d)))"

definition taken :: "(call \<times> outcome) list \<Rightarrow> json list" where
  \<comment> \<open>All the answers of the calls that succeeded.\<close>
  "taken calls = concat (map (\<lambda>(c, out). if out = Delivered then call_responses c else []) calls)"

definition addressed :: "state_map option \<Rightarrow> call \<Rightarrow> proxy_request \<Rightarrow> bool" where
  "addressed s call r = (case call of
     Task_Input token _ c _ \<Rightarrow> routed_token c = child_token r \<and>
       (\<exists>t e. route_task r = Some t \<and> find_session_task_entry s t = Inr (Some e) \<and> token = inbox_token e)
   | Answer_Hook token _ \<Rightarrow> route_task r = None \<and> token = child_token r
   | Child_Inbox c _ \<Rightarrow> route_task r = None \<and> routed_token c = child_token r)"

definition handed :: "state_map option \<Rightarrow> (call \<times> outcome) list \<Rightarrow> json \<Rightarrow> proxy_request \<Rightarrow> bool" where
  "handed s calls x r \<longleftrightarrow> (\<exists>call. (call, Delivered) \<in> set calls \<and> addressed s call r \<and>
     to_child_input_response x r \<in> set (call_responses call))"

definition no_route :: "platform \<Rightarrow> state_map option \<Rightarrow> string \<Rightarrow> bool" where
  "no_route p s i \<longleftrightarrow> map_of (read_map p s) i = None"

definition accounted ::
  "platform \<Rightarrow> state_map option \<Rightarrow> (call \<times> outcome) list \<Rightarrow> 'a stateful_scheme \<Rightarrow> routed_answer list \<Rightarrow> bool" where
  \<comment> \<open>Each of the answers went to its child in a call that succeeded, and its route is gone.\<close>
  "accounted p s calls session fs \<longleftrightarrow>
     (\<forall>(x, r) \<in> set fs. handed s calls x r \<and> no_route p (state session) (request_id x))"

lemma taken_append [simp]: "taken (cs @ [(c, out)]) = taken cs @ (if out = Delivered then call_responses c else [])"
  by (simp add: taken_def)

definition settled_from ::
  "platform \<Rightarrow> state_map option \<Rightarrow> routed_answer list \<Rightarrow> (nat \<times> json) list \<Rightarrow> 'a stateful_scheme \<Rightarrow> (call \<times> outcome) list \<Rightarrow>
     (nat \<times> json) list \<Rightarrow> 'a stateful_scheme \<Rightarrow> (call \<times> outcome) list \<Rightarrow> bool" where
  "settled_from p s answers parents session calls parents' session' calls' \<longleftrightarrow>
     set calls \<subseteq> set calls' \<and> (\<forall>i. no_route p (state session) i \<longrightarrow> no_route p (state session') i) \<and>
     (\<exists>fs. set fs \<subseteq> set answers \<and> accounted p s calls' session' fs \<and>
        total parents' + mset (map fst fs) = total parents + mset (map fst answers) \<and>
        mset (taken calls') = mset (taken calls) + mset (map (\<lambda>(x, r). to_child_input_response x r) fs))"

lemma settled_stranded:
  assumes "settled_from p s answers parents1 session calls1 parents' session' calls'"
    and "total parents1 = total parents + mset (map fst as)" and "set calls \<subseteq> set calls1" and "taken calls1 = taken calls"
  shows "settled_from p s (as @ answers) parents session calls parents' session' calls'"
proof -
  from assms(1) obtain fs where fs: "set fs \<subseteq> set answers" "accounted p s calls' session' fs"
    "total parents' + mset (map fst fs) = total parents1 + mset (map fst answers)"
    "mset (taken calls') = mset (taken calls1) + mset (map (\<lambda>(x, r). to_child_input_response x r) fs)"
    by (auto simp: settled_from_def)
  have "set fs \<subseteq> set (as @ answers)" using fs(1) by auto
  moreover have "total parents' + mset (map fst fs) = total parents + mset (map fst (as @ answers))"
    using fs(3) assms(2) by (simp add: ac_simps)
  ultimately show ?thesis using assms fs by (auto simp: settled_from_def)
qed

lemma settled_taken:
  assumes "settled_from p s answers parents session1 (calls @ [(call, Delivered)]) parents' session' calls'"
    and "mset (call_responses call) = mset (map (\<lambda>(x, r). to_child_input_response x r) as)"
    and "\<forall>(x, r) \<in> set as. addressed s call r \<and> no_route p (state session1) (request_id x)"
    and "\<forall>i. no_route p (state session) i \<longrightarrow> no_route p (state session1) i"
  shows "settled_from p s (as @ answers) parents session calls parents' session' calls'"
proof -
  from assms(1) obtain fs where fs: "set fs \<subseteq> set answers" "accounted p s calls' session' fs"
    "total parents' + mset (map fst fs) = total parents + mset (map fst answers)"
    "mset (taken calls') = mset (taken (calls @ [(call, Delivered)])) + mset (map (\<lambda>(x, r). to_child_input_response x r) fs)"
    and sub: "set (calls @ [(call, Delivered)]) \<subseteq> set calls'"
    and keep: "\<forall>i. no_route p (state session1) i \<longrightarrow> no_route p (state session') i"
    by (auto simp: settled_from_def)
  have "set (call_responses call) = (\<lambda>(x, r). to_child_input_response x r) ` set as"
    using arg_cong [OF assms(2), of set_mset] by simp
  then have "accounted p s calls' session' as"
    using assms(3) sub keep by (force simp: accounted_def handed_def)
  with fs(2) have "accounted p s calls' session' (as @ fs)" by (auto simp: accounted_def)
  moreover have "set (as @ fs) \<subseteq> set (as @ answers)" using fs(1) by auto
  moreover have "total parents' + mset (map fst (as @ fs)) = total parents + mset (map fst (as @ answers))"
    using fs(3) by (simp add: ac_simps)
  moreover have "mset (taken calls') = mset (taken calls) + mset (map (\<lambda>(x, r). to_child_input_response x r) (as @ fs))"
    using fs(4) assms(2) by (simp add: ac_simps)
  ultimately show ?thesis
    using sub keep assms(4) unfolding settled_from_def by (intro conjI exI [of _ "as @ fs"]) auto
qed

lemma settle_conserves:
  assumes "settle_children p perform d (map (child_of d) gss) parents session calls = (Inr (parents', session'), calls')"
    and "\<forall>gs \<in> set gss. one_child p s gs" and "regular_routes p s"
    and "\<forall>t. find_session_task_entry (state session) t = find_session_task_entry s t"
  shows "settled_from p s (concat (map answers_of gss)) parents session calls parents' session' calls'"
  using assms
proof (induction gss arbitrary: parents session calls)
  case Nil
  then show ?case by (auto simp: settled_from_def accounted_def intro: exI [of _ "[]"])
next
  case (Cons gs gss)
  let ?c = "child_of d gs"
  let ?retired = "retire_proxy_input_requests p session (child_retire ?c)"
  have one: "one_child p s gs" and rest: "\<forall>gs \<in> set gss. one_child p s gs" using Cons.prems(2) by auto
  note reg = Cons.prems(3) and tasks = Cons.prems(4)
  have IH: "settled_from p s (concat (map answers_of gss)) ps1 session1 calls1 parents' session' calls'"
    if "settle_children p perform d (map (child_of d) gss) ps1 session1 calls1 = (Inr (parents', session'), calls')"
      and "session1 = session \<or> session1 = ?retired" for ps1 session1 calls1
    using that tasks by (intro Cons.IH rest reg) (auto simp: retire_keeps_tasks)
  have gone: "\<forall>i. no_route p (state session) i \<longrightarrow> no_route p (state ?retired) i"
    by (simp add: no_route_def retire_reads_back)
  have taken: "settled_from p s (answers_of gs @ concat (map answers_of gss)) parents session calls parents' session' calls'"
    if "settle_children p perform d (map (child_of d) gss) parents ?retired (calls @ [(call, Delivered)]) =
        (Inr (parents', session'), calls')"
      and "call_responses call = concat (map payload_responses (child_payloads ?c))"
      and adr: "\<And>r. routed_token (to_child ?c) = child_token r \<Longrightarrow> routed_task (to_child ?c) = route_task r \<Longrightarrow> addressed s call r"
    for call
  proof (rule settled_taken [OF IH])
    show "\<forall>(x, r) \<in> set (answers_of gs). addressed s call r \<and> no_route p (state ?retired) (request_id x)"
      using one_child_fields [OF one reg, of _ _ d] adr by (auto simp: no_route_def retire_reads_back)
  qed (use that gone one_child_responses [OF one, of d] in auto)
  show ?case
  proof (cases "routed_task (to_child ?c)")
    case (Some t)
    have stranded: "settled_from p s (answers_of gs @ concat (map answers_of gss)) parents session calls parents' session' calls'"
      if "settle_children p perform d (map (child_of d) gss) (merge_stranded_responses parents ?c t) session calls1 =
          (Inr (parents', session'), calls')"
        and "set calls \<subseteq> set calls1" and "taken calls1 = taken calls" for calls1
      by (rule settled_stranded [OF IH [OF that(1)] one_child_stranded [OF one reg Some]]) (use that in auto)
    show ?thesis
    proof (cases "find_session_task_entry s t")
      case (Inl e)
      with Cons.prems(1) Some tasks show ?thesis by simp
    next
      case (Inr found)
      show ?thesis
      proof (cases found)
        case None
        with Cons.prems(1) Some Inr tasks show ?thesis by (auto intro: stranded)
      next
        case (Some e)
        let ?call = "Task_Input (inbox_token e) (delivery_auth d) (to_child ?c) (responses_of_payloads (child_payloads ?c))"
        note prems = Cons.prems(1) \<open>routed_task (to_child ?c) = Some t\<close> Inr Some tasks
        show ?thesis
        proof (cases "perform (length calls) ?call")
          case Delivered
          with prems show ?thesis
            by (auto simp: Let_def call_responses_def responses_of_payloads_eq addressed_def intro!: taken [of ?call])
        next
          case Unreachable
          with prems show ?thesis by (auto simp: Let_def intro!: stranded)
        next
          case (Thrown x)
          with prems show ?thesis by (simp add: Let_def)
        qed
      qed
    qed
  next
    case None
    let ?call = "case routed_answer_hook (to_child ?c) of
        Some _ \<Rightarrow> Answer_Hook (routed_token (to_child ?c)) (responses_of_payloads (child_payloads ?c))
      | None \<Rightarrow> Child_Inbox (to_child ?c) (child_hook_delivery d ?c)"
    have r: "call_responses ?call = concat (map payload_responses (child_payloads ?c))"
      by (simp add: call_responses_def responses_of_payloads_eq child_hook_delivery_def split: option.split)
    have adr: "addressed s ?call r" if "routed_token (to_child ?c) = child_token r" "routed_task (to_child ?c) = route_task r" for r
      using that None by (simp add: addressed_def split: option.split)
    from Cons.prems(1) None show ?thesis
      by (cases "perform (length calls) ?call") (auto simp: Let_def intro!: taken [of ?call] r adr)
  qed
qed

section \<open>The whole delivery\<close>

definition item_key :: "traced_item \<Rightarrow> string" where
  "item_key g = child_key (item_child (fst g))"

definition all_traced :: "platform \<Rightarrow> state_map option \<Rightarrow> (nat \<times> json) list \<Rightarrow> traced_item list" where
  "all_traced p s qs = concat (map (\<lambda>(k, q). traced p s k q) qs)"

definition bundles :: "traced_item list \<Rightarrow> traced_item list list" where
  "bundles gs = map (\<lambda>k. filter (\<lambda>g. item_key g = k) gs) (js_set (map item_key gs))"

lemma one_child_bundles:
  assumes "gs \<in> set (bundles all)" and "\<forall>g \<in> set all. follows p s g"
  shows "one_child p s gs"
proof -
  from assms(1) obtain k g where gs: "gs = filter (\<lambda>g. item_key g = k) all" "g \<in> set all" "item_key g = k"
    by (auto simp: bundles_def)
  then have ne: "gs \<noteq> []" by (auto simp: filter_empty_conv)
  from gs(1) have key: "\<forall>g \<in> set gs. item_key g = k" by simp
  have "item_key (hd gs) = k" by (rule bspec [OF key hd_in_set [OF ne]])
  have "follows p s g \<and> child_key (item_child (fst g)) = child_key (item_child (fst (hd gs)))" if g: "g \<in> set gs" for g
  proof
    from g gs(1) assms(2) show "follows p s g" by simp
    from bspec [OF key g] \<open>item_key (hd gs) = k\<close>
    show "child_key (item_child (fst g)) = child_key (item_child (fst (hd gs)))" by (simp only: item_key_def)
  qed
  with ne show ?thesis unfolding one_child_def by blast
qed

lemma answers_of_bundles: "mset (concat (map answers_of (bundles all))) = mset (answers_of all)"
proof -
  have sum: "mset (answers_of gs) = (\<Sum>g \<in># mset gs. mset (snd g))" for gs
    by (induction gs) (simp_all add: answers_of_def)
  have "concat (map answers_of xss) = answers_of (concat xss)" for xss
    by (induction xss) (simp_all add: answers_of_def)
  moreover have "mset (concat (bundles all)) = mset all" unfolding bundles_def by (rule mset_grouped)
  ultimately show ?thesis by (simp only: sum)
qed

lemma children_of_bundles:
  assumes "map fst all = items"
  shows "map snd (bucketed (\<lambda>i. child_key (item_child i)) (add_child d) items) = map (child_of d) (bundles all)"
  by (simp add: bucketed_eq assms [symmetric] bundles_def child_of_def item_key_def [abs_def] comp_def filter_map)

definition kept_for_self :: "platform \<Rightarrow> state_map option \<Rightarrow> (nat \<times> json) list \<Rightarrow> (nat \<times> json) list" where
  "kept_for_self p s qs =
     concat (map (\<lambda>(k, q). case for_self (routing p s q) of None \<Rightarrow> [] | Some self \<Rightarrow> [(k, self)]) qs)"

lemma total_append [simp]: "total (xs @ ys) = total xs + total ys"
  by (simp add: total_def)

lemma split_answers:
  "mset (filter (\<lambda>x. admitted_route allow entries x = None) xs) + mset (map fst (routed_pairs allow entries xs)) = mset xs"
  by (induction xs) (auto simp: routed_pairs_def List.map_filter_simps split: option.split)

lemma kept_and_routed:
  "total (kept_for_self p s qs) + mset (map fst (answers_of (all_traced p s qs))) =
     mset (concat (map payload_responses (map snd qs)))"
proof (induction qs)
  case Nil
  show ?case by (simp add: kept_for_self_def all_traced_def answers_of_def total_def)
next
  case (Cons kq qs)
  obtain k q where kq: "kq = (k, q)" by force
  have "total (kept_for_self p s [(k, q)]) =
      mset (case for_self (routing p s q) of None \<Rightarrow> [] | Some rest \<Rightarrow> payload_responses rest)"
    by (simp add: kept_for_self_def total_def split: option.split)
  also have "\<dots> = mset (filter (\<lambda>x. admitted_route (task_admits s) (read_map p s) x = None) (payload_responses q))"
    by (simp only: routing_def for_self_responses)
  finally have self: "total (kept_for_self p s [(k, q)]) = \<dots>" .
  have "mset (map fst (answers_of (traced p s k q))) = mset (map fst (routed_answers p s q))"
    using mset_traced [of p s k q] by (simp only: answers_of_def mset_map)
  with self split_answers [of "task_admits s" "read_map p s" "payload_responses q"]
  have one: "total (kept_for_self p s [(k, q)]) + mset (map fst (answers_of (traced p s k q))) = mset (payload_responses q)"
    by (simp add: routed_answers_def)
  have "kept_for_self p s (kq # qs) = kept_for_self p s [(k, q)] @ kept_for_self p s qs"
    and "answers_of (all_traced p s (kq # qs)) = answers_of (traced p s k q) @ answers_of (all_traced p s qs)"
    by (simp_all add: kq kept_for_self_def all_traced_def answers_of_def)
  then have "total (kept_for_self p s (kq # qs)) + mset (map fst (answers_of (all_traced p s (kq # qs)))) =
      (total (kept_for_self p s [(k, q)]) + mset (map fst (answers_of (traced p s k q)))) +
      (total (kept_for_self p s qs) + mset (map fst (answers_of (all_traced p s qs))))"
    by (simp add: ac_simps)
  with one Cons.IH show ?case by (simp add: kq)
qed

lemma total_sorted [simp]: "total (sort_key f ps) = total ps"
proof -
  have "total ps = (\<Sum>e \<in># mset ps. mset (payload_responses (snd e)))" for ps
    by (induction ps) (simp_all add: total_def)
  then show ?thesis by simp
qed

definition delivery_responses :: "hook_delivery \<Rightarrow> json list" where
  "delivery_responses d = concat (map payload_responses (delivery_payloads d))"

definition remaining :: "hook_delivery option \<Rightarrow> json list" where
  "remaining r = (case r of None \<Rightarrow> [] | Some d \<Rightarrow> delivery_responses d)"

lemma all_traced_items:
  "map fst (all_traced p s qs) = concat (map (\<lambda>(k, r). child_items k r) (map (\<lambda>(k, q). (k, routing p s q)) qs))"
  by (simp add: all_traced_def map_concat comp_def case_prod_beta map_fst_traced)

lemma all_traced_follow:
  assumes "\<forall>q \<in> set (map snd qs). \<forall>x \<in> set (payload_responses q). named_response x"
  shows "\<forall>g \<in> set (all_traced p s qs). follows p s g"
  using assms by (auto simp: all_traced_def intro: traced_follows)

lemma answers_admitted:
  assumes "(x, r) \<in> set (answers_of gs)" and "\<forall>g \<in> set gs. follows p s g"
  shows "admitted_route (task_admits s) (read_map p s) x = Some r"
  using assms by (auto simp: answers_of_def follows_def)

lemma route_returns:
  assumes "route_proxied_deliver p perform d session = (Inr (Continue remainder session'), calls)"
  shows "\<exists>parents'. settle_children p perform d (map (child_of d) (bundles (all_traced p (state session) (indexed (delivery_payloads d)))))
      (kept_for_self p (state session) (indexed (delivery_payloads d))) session [] = (Inr (parents', session'), calls) \<and>
    mset (remaining remainder) = total parents'"
proof -
  let ?qs = "indexed (delivery_payloads d)" and ?s = "state session"
  let ?routed = "map (\<lambda>(k, q). (k, routing p ?s q)) ?qs"
  have parents: "concat (map (\<lambda>(k, r). case for_self r of None \<Rightarrow> [] | Some self \<Rightarrow> [(k, self)]) (map (\<lambda>(k, q). (k, routing p ?s q)) qs)) = kept_for_self p ?s qs" for qs
    by (induction qs) (auto simp: kept_for_self_def)
  note children = children_of_bundles [OF all_traced_items, of d p ?s ?qs]
  obtain settled calls1 where st: "settle_children p perform d (map (child_of d) (bundles (all_traced p ?s ?qs)))
      (kept_for_self p ?s ?qs) session [] = (settled, calls1)" by force
  have "route_proxied_deliver p perform d session = (bindR settled (\<lambda>(parents', session').
      if list_ex (\<lambda>(k, r). cancel_turn r) ?routed then Inr (Cancel_Turn session')
      else (let ks = sort_key fst parents' in
        Inr (Continue (if ks = [] then None else Some (kept_payloads d ks)) session'))), calls1)"
    using assms st parents children
    by (auto simp: route_proxied_deliver_def routing_def [symmetric] Let_def split: option.splits)
  with assms obtain parents' where "settled = Inr (parents', session')"
    and r: "remainder = (if sort_key fst parents' = [] then None else Some (kept_payloads d (sort_key fst parents')))"
    and "calls1 = calls"
    by (cases settled) (auto simp: Let_def split: if_splits)
  moreover from r have "mset (remaining remainder) = total (sort_key fst parents')"
    by (simp add: remaining_def delivery_responses_def kept_payloads_def total_def comp_def)
  ultimately show ?thesis using st by simp
qed


text \<open>
  A delivery with a Stop for a descendant's limit prompt has no remainder: whatever else it held for the
  parent is not in the result.
\<close>
lemma stop_has_no_remainder:
  assumes "q \<in> set (delivery_payloads d)" and "cancel_turn (routing p (state session) q)"
    and "route_proxied_deliver p perform d session = (Inr result, calls)"
  shows "\<exists>session'. result = Cancel_Turn session'"
proof -
  from assms(1) obtain k where "k < length (delivery_payloads d)" and "delivery_payloads d ! k = q"
    by (auto simp: in_set_conv_nth)
  then have "(k, q) \<in> set (indexed (delivery_payloads d))" by (simp add: indexed_def in_set_enumerate_eq)
  with assms(2) have "list_ex (\<lambda>(k, r). cancel_turn r) (map (\<lambda>(k, q). (k, routing p (state session) q)) (indexed (delivery_payloads d)))"
    by (force simp: list_ex_iff)
  with assms(3) show ?thesis
    unfolding route_proxied_deliver_def routing_def [symmetric] Let_def
    by (simp split: option.splits prod.splits) blast
qed

definition answered_hook :: hook_delivery where
  "answered_hook = \<lparr>delivery_auth = None, delivery_caller = None, delivery_metadata = [], delivery_payloads = [three_answers],
     delivery_rest = JNull, task_delivery_id = None, steers = False\<rparr>"

lemma route_three_answers:
  "routing offline two_routes three_answers = \<lparr>
     for_children = map (\<lambda>(t, i). \<lparr>routed_answer_hook = None, routed_token = t, routed_inbox = None, routed_url = None,
       routed_task = None, routed_responses = [approve i], retire_request_ids = [i]\<rparr>) [(''child1'', ''a1''), (''child2'', ''b1'')],
     for_self = Some (JObj [(''inputResponses'', JArr [approve ''zz''])]), cancel_turn = False\<rparr>"
proof -
  have ids: "request_id (approve i) = i" for i by (simp add: approve_def request_id_def jstr_def)
  have option: "jstr (approve i) ''optionId'' = Some ''approve''" for i by (simp add: approve_def jstr_def)
  have xs: "payload_responses three_answers = [approve ''a1'', approve ''zz'', approve ''b1'']"
    by (simp add: three_answers_def payload_responses_def)
  have child: "to_child_input_response (approve i) (sample_route t i) = approve i" for t i
    by (simp add: to_child_input_response_def sample_route_def)
  have no_stop: "\<not> stops_session (approve i) (sample_route t i)" for t i
    by (simp add: stops_session_def sample_route_def)
  have key: "bucket_key (sample_route t i) = t @ [nul, nul] @ ''local'' @ [nul]" for t i
    by (simp add: bucket_key_def sample_route_def)
  have own: "own_members three_answers = [(''inputResponses'', JArr [approve ''a1'', approve ''zz'', approve ''b1''])]"
    by (simp add: three_answers_def)
  have admit: "task_admits two_routes i (sample_route t i)" for t i
    by (simp add: task_admits_def sample_route_def)
  show ?thesis
    by (simp add: routing_def route_deliver_payload_def get_proxy_input_requests_def two_routes_read xs admitted_route_def ids
        admit no_stop key own add_response_def extend_bucket_def child to_routed_child_def batch_resolves_def js_set_def)
      (simp add: sample_route_def batch_resolves_def same_batch_def)
qed


end
