(* ===== verification/Json_Normalize.thy ===== *)
theory Json_Normalize
  imports Json_Values
begin

text \<open>
  \<open>parseJsonValue\<close> and \<open>parseJsonObject\<close> of \<open>shared/json.ts\<close> over an explicit heap: an address
  is the identity of an array or object, so sharing and cycles are visible, and the set \<open>seen\<close> of
  objects on the current path is threaded through as the code does. The fuel is the depth of the
  call stack; running out of it is the engine's stack overflow. \<open>normalize_total\<close> says how much is
  enough on an acyclic heap. Assigning the key \<open>__proto__\<close> on a fresh object literal goes to the
  prototype setter and creates no own property; the model drops that member.
\<close>

datatype jref =
    RUndef | RNull | RBool bool | RNum rat | RNonFinite nonfinite | RStr string
  | RArr nat | RObj nat
  | ROpaque \<comment> \<open>functions, symbols and bigints\<close>

datatype prototype = ProtoNull | ProtoRoot | ProtoOther
  \<comment> \<open>no prototype; one whose own prototype is null; any other (\<open>Date\<close>, \<open>Map\<close>, class instances)\<close>

datatype node = NArr "jref list" | NObj prototype "(string \<times> jref) list"

type_synonym heap = "nat \<Rightarrow> node"
type_synonym 'a outcome = "('a option \<times> nat list) option"

definition is_plain_object :: "prototype \<Rightarrow> bool" where
  "is_plain_object p \<longleftrightarrow> p = ProtoNull \<or> p = ProtoRoot"

definition set_own :: "string \<Rightarrow> json \<Rightarrow> (string \<times> json) list \<Rightarrow> (string \<times> json) list" where
  "set_own k v ps = (if k = ''__proto__'' then ps else AList.update k v ps)"

function normalize :: "nat \<Rightarrow> heap \<Rightarrow> jref \<Rightarrow> nat list \<Rightarrow> json outcome"
  and normalize_items :: "nat \<Rightarrow> heap \<Rightarrow> jref list \<Rightarrow> nat list \<Rightarrow> json list outcome"
  and normalize_entries ::
    "nat \<Rightarrow> heap \<Rightarrow> (string \<times> jref) list \<Rightarrow> (string \<times> json) list \<Rightarrow> nat list \<Rightarrow>
      (string \<times> json) list outcome"
where
  "normalize 0 h r seen = None"
| "normalize (Suc f) h r seen =
    (case r of
      RNull \<Rightarrow> Some (Some JNull, seen)
    | RBool b \<Rightarrow> Some (Some (JBool b), seen)
    | RStr s \<Rightarrow> Some (Some (JStr s), seen)
    | RNum n \<Rightarrow> Some (Some (JNum n), seen)
    | RNonFinite n \<Rightarrow> Some (None, seen)
    | RArr a \<Rightarrow>
        (case h a of
          NArr rs \<Rightarrow> map_option (apfst (map_option JArr)) (normalize_items f h rs seen)
        | NObj p ps \<Rightarrow> Some (None, seen))
    | ROpaque \<Rightarrow> Some (None, seen)
    | RUndef \<Rightarrow> Some (None, seen)
    | RObj a \<Rightarrow>
        (case h a of
          NArr rs \<Rightarrow> Some (None, seen)
        | NObj p ps \<Rightarrow>
            if \<not> is_plain_object p then Some (None, seen)
            else if a \<in> set seen then Some (None, seen)
            else (case normalize_entries f h ps [] (a # seen) of
                None \<Rightarrow> None
              | Some (None, s) \<Rightarrow> Some (None, s)
              | Some (Some qs, s) \<Rightarrow> Some (Some (JObj qs), removeAll a s))))"
| "normalize_items f h [] seen = Some (Some [], seen)"
| "normalize_items f h (r # rs) seen =
    (case normalize f h r seen of
      None \<Rightarrow> None
    | Some (None, s) \<Rightarrow> Some (None, s)
    | Some (Some j, s) \<Rightarrow> map_option (apfst (map_option ((#) j))) (normalize_items f h rs s))"
| "normalize_entries f h [] acc seen = Some (Some acc, seen)"
| "normalize_entries f h ((k, r) # ps) acc seen =
    (if r = RUndef then normalize_entries f h ps acc seen
     else (case normalize f h r seen of
        None \<Rightarrow> None
      | Some (None, s) \<Rightarrow> Some (None, s)
      | Some (Some j, s) \<Rightarrow> normalize_entries f h ps (set_own k j acc) s))"
  by pat_completeness auto
termination
  by (relation "measures [\<lambda>x. (case x of Inl (f, _) \<Rightarrow> 2 * f
        | Inr (Inl (f, _)) \<Rightarrow> 2 * f + 1 | Inr (Inr (f, _)) \<Rightarrow> 2 * f + 1),
      \<lambda>x. (case x of Inl _ \<Rightarrow> 0 | Inr (Inl (_, _, rs, _)) \<Rightarrow> length rs
        | Inr (Inr (_, _, ps, _)) \<Rightarrow> length ps)]") auto

datatype json_error = ExpectedJsonValue | ExpectedJsonObject

definition is_json_object_value :: "json \<Rightarrow> bool" where
  "is_json_object_value j = (case j of JObj _ \<Rightarrow> True | _ \<Rightarrow> False)"

definition parse_json_value :: "nat \<Rightarrow> heap \<Rightarrow> jref \<Rightarrow> (json_error + json) option" where
  "parse_json_value f h r =
     (case normalize f h r [] of
       None \<Rightarrow> None
     | Some (None, _) \<Rightarrow> Some (Inl ExpectedJsonValue)
     | Some (Some j, _) \<Rightarrow> Some (Inr j))"

definition parse_json_object :: "nat \<Rightarrow> heap \<Rightarrow> jref \<Rightarrow> (json_error + json) option" where
  "parse_json_object f h r = map_option
     (\<lambda>res. bindR res (\<lambda>j. if is_json_object_value j then Inr j else Inl ExpectedJsonObject))
     (parse_json_value f h r)"

section \<open>What the normaliser returns is JSON\<close>

fun clean_json :: "json \<Rightarrow> bool" where
  "clean_json (JArr xs) = (\<forall>x \<in> set xs. clean_json x)"
| "clean_json (JObj ps) =
     (distinct (map fst ps) \<and> (\<forall>(k, v) \<in> set ps. k \<noteq> ''__proto__'' \<and> clean_json v))"
| "clean_json (JNonFinite n) = False"
| "clean_json JUndef = False"
| "clean_json _ = True"

lemma clean_wf: "clean_json j \<Longrightarrow> wf_json j"
  by (induction j rule: clean_json.induct) auto

definition clean_members :: "(string \<times> json) list \<Rightarrow> bool" where
  "clean_members ps \<longleftrightarrow>
     distinct (map fst ps) \<and> (\<forall>(k, v) \<in> set ps. k \<noteq> ''__proto__'' \<and> clean_json v)"

lemma clean_members_set_own:
  assumes "clean_members ps" "clean_json v"
  shows "clean_members (set_own k v ps)"
proof -
  have "set (AList.update k v ps) \<subseteq> insert (k, v) (set ps)"
    by (induction ps) auto
  with assms show ?thesis
    by (fastforce simp: clean_members_def set_own_def distinct_update)
qed

lemma normalize_clean:
  "normalize f h r seen = Some (Some j, s) \<Longrightarrow> clean_json j \<and> s = seen"
  "normalize_items f h rs seen = Some (Some js, s') \<Longrightarrow> (\<forall>x \<in> set js. clean_json x) \<and> s' = seen"
  "clean_members acc \<Longrightarrow> normalize_entries f h ps acc seen = Some (Some qs, s'') \<Longrightarrow>
     clean_members qs \<and> s'' = seen"
proof (induction f h r seen and f h rs seen and f h ps acc seen
    arbitrary: j s and js s' and qs s'' rule: normalize_normalize_items_normalize_entries.induct)
  case (2 f h r seen)
  show ?case
  proof (cases r)
    case (RArr a)
    with 2 show ?thesis by (fastforce split: node.splits)
  next
    case (RObj a)
    with "2.prems" obtain p ps qs t where n: "h a = NObj p ps" "is_plain_object p" "a \<notin> set seen"
      and e: "normalize_entries f h ps [] (a # seen) = Some (Some qs, t)"
      and j: "j = JObj qs" "s = removeAll a t"
      by (auto split: node.splits if_splits option.splits)
    have "clean_members qs \<and> t = a # seen"
      using "2.IH"(2) [OF RObj n(1)] n e by (simp add: clean_members_def)
    with j n show ?thesis by (auto simp: clean_members_def)
  qed (use 2 in auto)
next
  case (4 f h r rs seen)
  from "4.prems" obtain j t ks where n: "normalize f h r seen = Some (Some j, t)"
    and m: "normalize_items f h rs t = Some (Some ks, s')" and js: "js = j # ks"
    by (auto split: option.splits)
  have "clean_json j" "t = seen" using "4.IH"(1) [OF n] by auto
  moreover have "(\<forall>x \<in> set ks. clean_json x) \<and> s' = t"
    using "4.IH"(2) [OF n _ _ m] by simp
  ultimately show ?case by (simp add: js)
next
  case (6 f h k r ps acc seen)
  show ?case
  proof (cases "r = RUndef")
    case True
    with "6.IH"(1) "6.prems" show ?thesis by simp
  next
    case False
    with "6.prems" obtain j t where n: "normalize f h r seen = Some (Some j, t)"
      and m: "normalize_entries f h ps (set_own k j acc) t = Some (Some qs, s'')"
      by (auto split: option.splits)
    have "clean_json j" "t = seen" using "6.IH"(2) [OF False n] by auto
    with "6.IH"(3) [OF False n _ _ _ m] "6.prems"(1) show ?thesis
      by (simp add: clean_members_set_own)
  qed
qed auto

section \<open>Cycles and termination\<close>

lemma array_cycle_overflows:
  assumes "h a = NArr (RArr a # rs)"
  shows "normalize f h (RArr a) seen = None"
proof (induction f arbitrary: seen)
  case (Suc f)
  then show ?case by (cases f) (auto simp: assms)
qed simp

lemma object_on_path_rejected:
  assumes "h a = NObj p ps" and "a \<in> set seen"
  shows "normalize (Suc f) h (RObj a) seen = Some (None, seen)"
  using assms by simp

fun children :: "node \<Rightarrow> jref list" where
  "children (NArr rs) = rs"
| "children (NObj p ps) = map snd ps"

fun height :: "(nat \<Rightarrow> nat) \<Rightarrow> jref \<Rightarrow> nat" where
  "height rank (RArr a) = rank a"
| "height rank (RObj a) = rank a"
| "height rank _ = 0"

definition acyclic_heap :: "(nat \<Rightarrow> nat) \<Rightarrow> heap \<Rightarrow> bool" where
  "acyclic_heap rank h \<longleftrightarrow> (\<forall>a. \<forall>r \<in> set (children (h a)). height rank r < rank a)"

lemma normalize_total:
  assumes "acyclic_heap rank h"
  shows "height rank r < f \<Longrightarrow> normalize f h r seen \<noteq> None"
    and "(\<forall>r \<in> set rs. height rank r < f) \<Longrightarrow> normalize_items f h rs seen \<noteq> None"
    and "(\<forall>r \<in> snd ` set ps. height rank r < f) \<Longrightarrow> normalize_entries f h ps acc seen \<noteq> None"
  using assms
proof (induction f h r seen and f h rs seen and f h ps acc seen
    rule: normalize_normalize_items_normalize_entries.induct)
  case (2 f h r seen)
  show ?case
  proof (cases r)
    case (RArr a)
    have "\<forall>r \<in> set rs. height rank r < f" if "h a = NArr rs" for rs
      using "2.prems"(1) "2.prems"(2) [unfolded acyclic_heap_def, THEN spec [of _ a]] RArr that by force
    with "2.IH"(1) [OF RArr] "2.prems" RArr show ?thesis by (cases "h a") simp_all
  next
    case (RObj a)
    have "\<forall>r \<in> snd ` set ps. height rank r < f" if "h a = NObj p ps" for p ps
      using "2.prems"(1) "2.prems"(2) [unfolded acyclic_heap_def, THEN spec [of _ a]] RObj that by force
    with "2.IH"(2) [OF RObj] "2.prems" RObj show ?thesis
      by (cases "h a") (auto split: option.splits)
  qed auto
next
  case (4 f h r rs seen)
  have "normalize f h r seen \<noteq> None" using "4.IH"(1) "4.prems" by simp
  moreover have "normalize_items f h rs t \<noteq> None"
    if "normalize f h r seen = Some (Some j, t)" for j t
    using "4.IH"(2) [OF that] "4.prems" by simp
  ultimately show ?case by (auto split: option.splits)
next
  case (6 f h k r ps acc seen)
  show ?case
  proof (cases "r = RUndef")
    case True
    with "6.IH"(1) "6.prems" show ?thesis by simp
  next
    case False
    then have "normalize f h r seen \<noteq> None" using "6.IH"(2) "6.prems" by simp
    moreover have "normalize_entries f h ps (set_own k j acc) t \<noteq> None"
      if "normalize f h r seen = Some (Some j, t)" for j t
      using "6.IH"(3) [OF False that] "6.prems" by simp
    ultimately show ?thesis using False by (auto split: option.splits)
  qed
qed auto

end
