(* ===== verification/Agent_Handle_Store.thy ===== *)
theory Agent_Handle_Store
  imports Session_State Json_Text
begin

text \<open>
  The agent handle store (\<open>subagents/handles/store.ts\<close>): the durable ownership record of every
  delegated child, its schema, and the validated read and write of its session-state slot.

  A handle belongs either to a parent turn (\<open>Starting\<close>, \<open>Running\<close>, \<open>Parked\<close>) or to a workflow
  owner (\<open>Reserved\<close>, \<open>Claimed\<close>, \<open>Available\<close>). \<open>agent_handle_schema\<close> and the schemas below it
  decode the stored value as the source's declarations do, \<open>handle_json\<close> is the value the
  transitions build, and \<open>store_schema_json\<close> shows that the schema accepts exactly the valid stores
  and returns them unchanged. Which strings are URLs is the parameter \<open>u\<close> throughout.
\<close>

section \<open>Types\<close>

record agent_identity =
  agent_id :: string
  agent_name :: string
  agent_node :: string

record start_operation =
  op_id :: string
  op_call :: string
  op_turn :: string

datatype operation =
    StartOp start_operation
  | ContinueOp start_operation (previous_status: string)

type_synonym credential_resolver = "string option option"
  \<comment> \<open>absent; present without a resolver id; present with one\<close>

datatype start_target =
    LocalTarget string
  | SelfTarget string
  | RemoteTarget string string credential_resolver \<comment> \<open>url, callback base url\<close>

datatype agent_address =
    LocalAddress string string \<comment> \<open>session id, continuation token\<close>
  | SelfAddress string string
  | RemoteAddress string string string credential_resolver \<comment> \<open>session id, url, callback base url\<close>

datatype agent_handle =
    Starting (identity: agent_identity) start_operation start_target
  | Running (identity: agent_identity) operation agent_address
  | Parked (identity: agent_identity) agent_address string
  | Reserved (identity: agent_identity) string "string option" string
      \<comment> \<open>operation id, call id, owner id\<close>
  | Claimed (identity: agent_identity) string "string option" agent_address string
  | Available (identity: agent_identity) agent_address

type_synonym handle_store = "agent_handle list"

abbreviation handle_id :: "agent_handle \<Rightarrow> string" where
  "handle_id h \<equiv> agent_id (identity h)"

fun operation_data :: "operation \<Rightarrow> start_operation" where
  "operation_data (StartOp s) = s"
| "operation_data (ContinueOp s p) = s"

datatype handle_error =
    CorruptStore
  | RefusedStore
  | HandleExists string
  | NoPreparedHandle string
  | OwnershipChanged string
  | NoSnapshot

definition max_status_length :: nat where
  "max_status_length = 120"

section \<open>Schemas\<close>

definition identity_schema :: "json \<Rightarrow> agent_identity option" where
  "identity_schema j = (case j of JObj ps \<Rightarrow>
     if fields_only [''id'', ''name'', ''nodeId''] ps then do {
       i \<leftarrow> req_field non_empty_string ''id'' ps;
       n \<leftarrow> req_field non_empty_string ''name'' ps;
       d \<leftarrow> req_field non_empty_string ''nodeId'' ps;
       Some \<lparr>agent_id = i, agent_name = n, agent_node = d\<rparr> }
     else None | _ \<Rightarrow> None)"

definition start_operation_schema :: "json \<Rightarrow> start_operation option" where
  "start_operation_schema j = (case j of JObj ps \<Rightarrow>
     if fields_only [''callId'', ''id'', ''kind'', ''parentTurnId''] ps \<and>
        map_of ps ''kind'' = Some (JStr ''start'') then do {
       c \<leftarrow> req_field non_empty_string ''callId'' ps;
       i \<leftarrow> req_field non_empty_string ''id'' ps;
       t \<leftarrow> req_field non_empty_string ''parentTurnId'' ps;
       Some \<lparr>op_id = i, op_call = c, op_turn = t\<rparr> }
     else None | _ \<Rightarrow> None)"

definition continue_operation_schema :: "json \<Rightarrow> operation option" where
  "continue_operation_schema j = (case j of JObj ps \<Rightarrow>
     if fields_only [''callId'', ''id'', ''kind'', ''parentTurnId'', ''previousStatus''] ps \<and>
        map_of ps ''kind'' = Some (JStr ''continue'') then do {
       c \<leftarrow> req_field non_empty_string ''callId'' ps;
       i \<leftarrow> req_field non_empty_string ''id'' ps;
       t \<leftarrow> req_field non_empty_string ''parentTurnId'' ps;
       s \<leftarrow> req_field (string_max max_status_length) ''previousStatus'' ps;
       Some (ContinueOp \<lparr>op_id = i, op_call = c, op_turn = t\<rparr> s) }
     else None | _ \<Rightarrow> None)"

definition operation_schema :: "json \<Rightarrow> operation option" where
  \<comment> \<open>The discriminated union on \<open>kind\<close>.\<close>
  "operation_schema j = (if jget j ''kind'' = JStr ''start''
     then map_option StartOp (start_operation_schema j) else continue_operation_schema j)"

definition credential_schema :: "json \<Rightarrow> string option option" where
  "credential_schema j = (case j of JObj ps \<Rightarrow>
     if fields_only [''resolverId''] ps then opt_field non_empty_string ''resolverId'' ps
     else None | _ \<Rightarrow> None)"

definition start_target_schema :: "(string \<Rightarrow> bool) \<Rightarrow> json \<Rightarrow> start_target option" where
  "start_target_schema u j = (case j of JObj ps \<Rightarrow>
     (if map_of ps ''kind'' = Some (JStr ''agent/local'') then
        if fields_only [''continuationToken'', ''kind''] ps
        then map_option LocalTarget (req_field non_empty_string ''continuationToken'' ps) else None
      else if map_of ps ''kind'' = Some (JStr ''agent/self'') then
        if fields_only [''continuationToken'', ''kind''] ps
        then map_option SelfTarget (req_field non_empty_string ''continuationToken'' ps) else None
      else if map_of ps ''kind'' = Some (JStr ''agent/remote'') then
        if fields_only [''callbackBaseUrl'', ''credentialResolver'', ''kind'', ''url''] ps then do {
          cb \<leftarrow> req_field (url_schema u) ''callbackBaseUrl'' ps;
          cr \<leftarrow> opt_field credential_schema ''credentialResolver'' ps;
          url \<leftarrow> req_field (url_schema u) ''url'' ps;
          Some (RemoteTarget url cb cr) }
        else None
      else None) | _ \<Rightarrow> None)"

definition address_schema :: "(string \<Rightarrow> bool) \<Rightarrow> json \<Rightarrow> agent_address option" where
  "address_schema u j = (case j of JObj ps \<Rightarrow>
     (if map_of ps ''kind'' = Some (JStr ''agent/local'') then
        if fields_only [''continuationToken'', ''kind'', ''sessionId''] ps then do {
          t \<leftarrow> req_field non_empty_string ''continuationToken'' ps;
          s \<leftarrow> req_field non_empty_string ''sessionId'' ps;
          Some (LocalAddress s t) }
        else None
      else if map_of ps ''kind'' = Some (JStr ''agent/self'') then
        if fields_only [''continuationToken'', ''kind'', ''sessionId''] ps then do {
          t \<leftarrow> req_field non_empty_string ''continuationToken'' ps;
          s \<leftarrow> req_field non_empty_string ''sessionId'' ps;
          Some (SelfAddress s t) }
        else None
      else if map_of ps ''kind'' = Some (JStr ''agent/remote'') then
        if fields_only [''callbackBaseUrl'', ''credentialResolver'', ''kind'', ''sessionId'',
             ''url''] ps then do {
          cb \<leftarrow> req_field (url_schema u) ''callbackBaseUrl'' ps;
          cr \<leftarrow> opt_field credential_schema ''credentialResolver'' ps;
          s \<leftarrow> req_field non_empty_string ''sessionId'' ps;
          url \<leftarrow> req_field (url_schema u) ''url'' ps;
          Some (RemoteAddress s url cb cr) }
        else None
      else None) | _ \<Rightarrow> None)"

definition turn_owned_schema :: "(string \<Rightarrow> bool) \<Rightarrow> (string \<times> json) list \<Rightarrow> agent_handle option" where
  "turn_owned_schema u ps =
     (if map_of ps ''phase'' = Some (JStr ''starting'') then
        if fields_only [''identity'', ''operation'', ''phase'', ''target''] ps then do {
          i \<leftarrow> req_field identity_schema ''identity'' ps;
          p \<leftarrow> req_field start_operation_schema ''operation'' ps;
          t \<leftarrow> req_field (start_target_schema u) ''target'' ps;
          Some (Starting i p t) }
        else None
      else if map_of ps ''phase'' = Some (JStr ''running'') then
        if fields_only [''address'', ''identity'', ''operation'', ''phase''] ps then do {
          a \<leftarrow> req_field (address_schema u) ''address'' ps;
          i \<leftarrow> req_field identity_schema ''identity'' ps;
          p \<leftarrow> req_field operation_schema ''operation'' ps;
          Some (Running i p a) }
        else None
      else if map_of ps ''phase'' = Some (JStr ''parked'') then
        if fields_only [''address'', ''identity'', ''lastStatus'', ''phase''] ps then do {
          a \<leftarrow> req_field (address_schema u) ''address'' ps;
          i \<leftarrow> req_field identity_schema ''identity'' ps;
          s \<leftarrow> req_field (string_max max_status_length) ''lastStatus'' ps;
          Some (Parked i a s) }
        else None
      else None)"

definition task_owned_schema :: "(string \<Rightarrow> bool) \<Rightarrow> (string \<times> json) list \<Rightarrow> agent_handle option" where
  "task_owned_schema u ps =
     (if map_of ps ''phase'' = Some (JStr ''reserved'') then
        if fields_only [''callId'', ''identity'', ''operationId'', ''phase'', ''ownerId''] ps then do {
          c \<leftarrow> opt_field non_empty_string ''callId'' ps;
          i \<leftarrow> req_field identity_schema ''identity'' ps;
          p \<leftarrow> req_field non_empty_string ''operationId'' ps;
          w \<leftarrow> req_field non_empty_string ''ownerId'' ps;
          Some (Reserved i p c w) }
        else None
      else if map_of ps ''phase'' = Some (JStr ''claimed'') then
        if fields_only [''address'', ''callId'', ''identity'', ''operationId'', ''phase'',
             ''ownerId''] ps then do {
          a \<leftarrow> req_field (address_schema u) ''address'' ps;
          c \<leftarrow> opt_field non_empty_string ''callId'' ps;
          i \<leftarrow> req_field identity_schema ''identity'' ps;
          p \<leftarrow> req_field non_empty_string ''operationId'' ps;
          w \<leftarrow> req_field non_empty_string ''ownerId'' ps;
          Some (Claimed i p c a w) }
        else None
      else if map_of ps ''phase'' = Some (JStr ''available'') then
        if fields_only [''address'', ''identity'', ''phase''] ps then do {
          a \<leftarrow> req_field (address_schema u) ''address'' ps;
          i \<leftarrow> req_field identity_schema ''identity'' ps;
          Some (Available i a) }
        else None
      else None)"

definition agent_handle_schema :: "(string \<Rightarrow> bool) \<Rightarrow> json \<Rightarrow> agent_handle option" where
  \<comment> \<open>The union: the turn-owned schema first, then the task-owned one.\<close>
  "agent_handle_schema u j = (case j of JObj ps \<Rightarrow>
     (case turn_owned_schema u ps of Some h \<Rightarrow> Some h | None \<Rightarrow> task_owned_schema u ps)
   | _ \<Rightarrow> None)"

definition unique_ids :: "handle_store \<Rightarrow> bool" where
  "unique_ids hs \<longleftrightarrow> length (js_set (map handle_id hs)) = length hs"

definition agent_handle_store_schema :: "(string \<Rightarrow> bool) \<Rightarrow> json \<Rightarrow> handle_store option" where
  "agent_handle_store_schema u j = (case j of JObj ps \<Rightarrow>
     if fields_only [''handles''] ps then
       (case map_of ps ''handles'' of
          Some (JArr xs) \<Rightarrow> do {
            hs \<leftarrow> array_schema (agent_handle_schema u) xs;
            if unique_ids hs then Some hs else None }
        | _ \<Rightarrow> None)
     else None | _ \<Rightarrow> None)"

section \<open>The values the transitions build\<close>

definition identity_json :: "agent_identity \<Rightarrow> json" where
  "identity_json i = JObj [(''id'', JStr (agent_id i)), (''name'', JStr (agent_name i)),
     (''nodeId'', JStr (agent_node i))]"

definition start_operation_json :: "start_operation \<Rightarrow> json" where
  "start_operation_json p = JObj [(''callId'', JStr (op_call p)), (''id'', JStr (op_id p)),
     (''kind'', JStr ''start''), (''parentTurnId'', JStr (op_turn p))]"

fun operation_json :: "operation \<Rightarrow> json" where
  "operation_json (StartOp p) = start_operation_json p"
| "operation_json (ContinueOp p s) = JObj [(''callId'', JStr (op_call p)), (''id'', JStr (op_id p)),
     (''kind'', JStr ''continue''), (''parentTurnId'', JStr (op_turn p)),
     (''previousStatus'', JStr s)]"

fun credential_json :: "credential_resolver \<Rightarrow> (string \<times> json) list" where
  "credential_json None = []"
| "credential_json (Some None) = [(''credentialResolver'', JObj [])]"
| "credential_json (Some (Some r)) = [(''credentialResolver'', JObj [(''resolverId'', JStr r)])]"

fun start_target_json :: "start_target \<Rightarrow> json" where
  "start_target_json (LocalTarget t) =
     JObj [(''continuationToken'', JStr t), (''kind'', JStr ''agent/local'')]"
| "start_target_json (SelfTarget t) =
     JObj [(''continuationToken'', JStr t), (''kind'', JStr ''agent/self'')]"
| "start_target_json (RemoteTarget url cb cr) =
     JObj ([(''callbackBaseUrl'', JStr cb)] @ credential_json cr @
       [(''kind'', JStr ''agent/remote''), (''url'', JStr url)])"

fun address_json :: "agent_address \<Rightarrow> json" where
  "address_json (LocalAddress s t) = JObj [(''continuationToken'', JStr t),
     (''kind'', JStr ''agent/local''), (''sessionId'', JStr s)]"
| "address_json (SelfAddress s t) = JObj [(''continuationToken'', JStr t),
     (''kind'', JStr ''agent/self''), (''sessionId'', JStr s)]"
| "address_json (RemoteAddress s url cb cr) =
     JObj ([(''callbackBaseUrl'', JStr cb)] @ credential_json cr @
       [(''kind'', JStr ''agent/remote''), (''sessionId'', JStr s), (''url'', JStr url)])"

fun call_json :: "string option \<Rightarrow> json" where
  \<comment> \<open>\<open>callId: command.callId\<close> writes the key even when the value is \<open>undefined\<close>.\<close>
  "call_json None = JUndef"
| "call_json (Some c) = JStr c"

fun handle_json :: "agent_handle \<Rightarrow> json" where
  "handle_json (Starting i p t) = JObj [(''identity'', identity_json i),
     (''operation'', start_operation_json p), (''phase'', JStr ''starting''),
     (''target'', start_target_json t)]"
| "handle_json (Running i p a) = JObj [(''address'', address_json a), (''identity'', identity_json i),
     (''operation'', operation_json p), (''phase'', JStr ''running'')]"
| "handle_json (Parked i a s) = JObj [(''address'', address_json a), (''identity'', identity_json i),
     (''lastStatus'', JStr s), (''phase'', JStr ''parked'')]"
| "handle_json (Reserved i p c w) = JObj [(''callId'', call_json c), (''identity'', identity_json i),
     (''operationId'', JStr p), (''phase'', JStr ''reserved''), (''ownerId'', JStr w)]"
| "handle_json (Claimed i p c a w) = JObj [(''address'', address_json a), (''callId'', call_json c),
     (''identity'', identity_json i), (''operationId'', JStr p), (''phase'', JStr ''claimed''),
     (''ownerId'', JStr w)]"
| "handle_json (Available i a) = JObj [(''address'', address_json a), (''identity'', identity_json i),
     (''phase'', JStr ''available'')]"

definition store_json :: "handle_store \<Rightarrow> json" where
  "store_json hs = JObj [(''handles'', JArr (map handle_json hs))]"

section \<open>What the schema accepts\<close>

definition valid_identity :: "agent_identity \<Rightarrow> bool" where
  "valid_identity i \<longleftrightarrow> agent_id i \<noteq> [] \<and> agent_name i \<noteq> [] \<and> agent_node i \<noteq> []"

definition valid_start :: "start_operation \<Rightarrow> bool" where
  "valid_start p \<longleftrightarrow> op_id p \<noteq> [] \<and> op_call p \<noteq> [] \<and> op_turn p \<noteq> []"

fun valid_operation :: "operation \<Rightarrow> bool" where
  "valid_operation (StartOp p) = valid_start p"
| "valid_operation (ContinueOp p s) = (valid_start p \<and> length s \<le> max_status_length)"

fun valid_credential :: "credential_resolver \<Rightarrow> bool" where
  "valid_credential (Some (Some r)) = (r \<noteq> [])"
| "valid_credential _ = True"

fun valid_target :: "(string \<Rightarrow> bool) \<Rightarrow> start_target \<Rightarrow> bool" where
  "valid_target u (LocalTarget t) = (t \<noteq> [])"
| "valid_target u (SelfTarget t) = (t \<noteq> [])"
| "valid_target u (RemoteTarget url cb cr) = (u url \<and> u cb \<and> valid_credential cr)"

fun valid_address :: "(string \<Rightarrow> bool) \<Rightarrow> agent_address \<Rightarrow> bool" where
  "valid_address u (LocalAddress s t) = (s \<noteq> [] \<and> t \<noteq> [])"
| "valid_address u (SelfAddress s t) = (s \<noteq> [] \<and> t \<noteq> [])"
| "valid_address u (RemoteAddress s url cb cr) = (s \<noteq> [] \<and> u url \<and> u cb \<and> valid_credential cr)"

fun valid_handle :: "(string \<Rightarrow> bool) \<Rightarrow> agent_handle \<Rightarrow> bool" where
  "valid_handle u (Starting i p t) = (valid_identity i \<and> valid_start p \<and> valid_target u t)"
| "valid_handle u (Running i p a) = (valid_identity i \<and> valid_operation p \<and> valid_address u a)"
| "valid_handle u (Parked i a s) =
     (valid_identity i \<and> valid_address u a \<and> length s \<le> max_status_length)"
| "valid_handle u (Reserved i p c w) = (valid_identity i \<and> p \<noteq> [] \<and> c \<noteq> Some [] \<and> w \<noteq> [])"
| "valid_handle u (Claimed i p c a w) =
     (valid_identity i \<and> p \<noteq> [] \<and> c \<noteq> Some [] \<and> valid_address u a \<and> w \<noteq> [])"
| "valid_handle u (Available i a) = (valid_identity i \<and> valid_address u a)"

definition valid_store :: "(string \<Rightarrow> bool) \<Rightarrow> handle_store \<Rightarrow> bool" where
  "valid_store u hs \<longleftrightarrow> (\<forall>h \<in> set hs. valid_handle u h) \<and> distinct (map handle_id hs)"

lemma unique_ids_distinct [simp]: "unique_ids hs \<longleftrightarrow> distinct (map handle_id hs)"
  using length_js_set_eq [of "map handle_id hs"] by (simp add: unique_ids_def)

lemma identity_schema_json [simp]:
  "identity_schema (identity_json i) = (if valid_identity i then Some i else None)"
  by (cases i) (simp add: identity_schema_def identity_json_def valid_identity_def schema_defs)

lemma start_operation_schema_json [simp]:
  "start_operation_schema (start_operation_json p) = (if valid_start p then Some p else None)"
  by (cases p) (simp add: start_operation_schema_def start_operation_json_def valid_start_def
      schema_defs)

lemma operation_schema_json [simp]:
  "operation_schema (operation_json p) = (if valid_operation p then Some p else None)"
proof (cases p)
  case (StartOp q)
  have "jget (start_operation_json q) ''kind'' = JStr ''start''"
    by (simp add: start_operation_json_def)
  then show ?thesis by (simp add: StartOp operation_schema_def)
next
  case (ContinueOp q s)
  then show ?thesis
    by (cases q) (simp add: operation_schema_def continue_operation_schema_def valid_start_def
        schema_defs)
qed

lemma credential_schema_json:
  "map_of (credential_json cr @ ps) ''credentialResolver'' =
     (case cr of None \<Rightarrow> map_of ps ''credentialResolver'' | Some None \<Rightarrow> Some (JObj [])
      | Some (Some r) \<Rightarrow> Some (JObj [(''resolverId'', JStr r)]))"
  "credential_schema (JObj []) = Some None"
  "credential_schema (JObj [(''resolverId'', JStr r)]) = (if r = [] then None else Some (Some r))"
  by (cases cr rule: credential_json.cases; simp add: credential_schema_def schema_defs)+

lemma start_target_schema_json [simp]:
  "start_target_schema u (start_target_json t) = (if valid_target u t then Some t else None)"
proof (cases t)
  case (RemoteTarget url cb cr)
  then show ?thesis
    by (cases cr rule: credential_json.cases)
      (simp_all add: start_target_schema_def schema_defs credential_schema_json(2,3))
qed (simp_all add: start_target_schema_def schema_defs)

lemma address_schema_json [simp]:
  "address_schema u (address_json a) = (if valid_address u a then Some a else None)"
proof (cases a)
  case (RemoteAddress s url cb cr)
  then show ?thesis
    by (cases cr rule: credential_json.cases)
      (simp_all add: address_schema_def schema_defs credential_schema_json(2,3))
qed (simp_all add: address_schema_def schema_defs)

lemma call_schema_json [simp]:
  "opt_field non_empty_string k ((k, call_json c) # ps) = (if c = Some [] then None else Some c)"
  by (cases c) (simp_all add: schema_defs)

lemma agent_handle_schema_json [simp]:
  "agent_handle_schema u (handle_json h) = (if valid_handle u h then Some h else None)"
  by (cases h) (simp_all add: agent_handle_schema_def turn_owned_schema_def task_owned_schema_def
      fields_only_def)

lemma store_schema_json [simp]:
  "agent_handle_store_schema u (store_json hs) = (if valid_store u hs then Some hs else None)"
proof (cases "\<forall>h \<in> set hs. valid_handle u h")
  case True
  then have "array_schema (agent_handle_schema u) (map handle_json hs) = Some hs"
    by (intro array_schema_map) simp
  with True show ?thesis
    by (simp add: agent_handle_store_schema_def store_json_def fields_only_def valid_store_def)
next
  case False
  then obtain h where "h \<in> set hs" "agent_handle_schema u (handle_json h) = None" by auto
  then have "array_schema (agent_handle_schema u) (map handle_json hs) = None"
    by (rule array_schema_map_None)
  with False show ?thesis
    by (auto simp: agent_handle_store_schema_def store_json_def fields_only_def valid_store_def)
qed

section \<open>The session-state slot\<close>

definition handles_key :: string where
  "handles_key = ''eve.agent.handles''"

definition assert_persistable ::
  "(string \<Rightarrow> bool) \<Rightarrow> handle_store \<Rightarrow> handle_error + handle_store" where
  "assert_persistable u hs = (case agent_handle_store_schema u (store_json hs) of
     None \<Rightarrow> Inl RefusedStore | Some hs' \<Rightarrow> Inr hs')"

definition get_agent_handle_store ::
  "(string \<Rightarrow> bool) \<Rightarrow> state_map option \<Rightarrow> handle_error + handle_store option" where
  "get_agent_handle_store u s =
     (let raw = state_get s handles_key in
      if raw = JUndef then Inr None
      else case agent_handle_store_schema u raw of
        None \<Rightarrow> Inl CorruptStore | Some hs \<Rightarrow> Inr (Some hs))"

definition set_agent_handle_store ::
  "(string \<Rightarrow> bool) \<Rightarrow> state_map option \<Rightarrow> handle_store \<Rightarrow> handle_error + state_map" where
  "set_agent_handle_store u s hs =
     bindR (assert_persistable u hs) (\<lambda>hs'. Inr (state_put handles_key (store_json hs') s))"

definition write_handles ::
  "(string \<Rightarrow> bool) \<Rightarrow> 'a stateful_scheme \<Rightarrow> handle_store \<Rightarrow> handle_error + 'a stateful_scheme" where
  "write_handles u session hs =
     bindR (set_agent_handle_store u (state session) hs) (\<lambda>m. Inr (session\<lparr>state := Some m\<rparr>))"

definition handles_of ::
  "(string \<Rightarrow> bool) \<Rightarrow> 'a stateful_scheme \<Rightarrow> handle_error + handle_store" where
  \<comment> \<open>\<open>getAgentHandleStore(session.state)?.handles ?? []\<close>\<close>
  "handles_of u session = bindR (get_agent_handle_store u (state session))
     (\<lambda>r. Inr (case r of None \<Rightarrow> [] | Some hs \<Rightarrow> hs))"

definition derive_agent_id :: "string \<Rightarrow> string \<Rightarrow> string" where
  "derive_agent_id name start_id = ''ag_'' @ name @ '':'' @ take 12 start_id"

definition format_agent_status :: "(rat \<Rightarrow> string) \<Rightarrow> json \<Rightarrow> string" where
  "format_agent_status num output =
     (let text = (case output of JStr s \<Rightarrow> s
                  | _ \<Rightarrow> (case json_text num output of None \<Rightarrow> [] | Some t \<Rightarrow> t))
      in take max_status_length (trim (collapse_spaces text)))"

lemma assert_persistable_eq [simp]:
  "assert_persistable u hs = (if valid_store u hs then Inr hs else Inl RefusedStore)"
  by (simp add: assert_persistable_def)

lemma set_agent_handle_store_eq:
  "set_agent_handle_store u s hs =
     (if valid_store u hs then Inr (state_put handles_key (store_json hs) s) else Inl RefusedStore)"
  by (simp add: set_agent_handle_store_def)

lemma write_handles_eq [effect_simps]:
  "write_handles u session hs =
     (if valid_store u hs
      then Inr (session\<lparr>state := Some (state_put handles_key (store_json hs) (state session))\<rparr>)
      else Inl RefusedStore)"
  by (simp add: write_handles_def set_agent_handle_store_eq)

lemma store_json_not_undef [simp]: "store_json hs \<noteq> JUndef"
  by (simp add: store_json_def)

lemma get_agent_handle_store_put [simp, slot_simps]:
  "get_agent_handle_store u (Some (state_put handles_key (store_json hs) s)) =
     (if valid_store u hs then Inr (Some hs) else Inl CorruptStore)"
  by (simp add: get_agent_handle_store_def Let_def)

interpretation handle_slot:
  state_slot handles_key "\<lambda>hs m. state_put handles_key (store_json hs) (Some m)"
    "\<lambda>m. get_agent_handle_store u (Some m)" "\<lambda>hs. Inr (Some hs)" "valid_store u" for u
proof unfold_locales
  fix s t :: state_map
  assume "map_of s handles_key = map_of t handles_key"
  then have "state_get (Some s) handles_key = state_get (Some t) handles_key"
    by (intro state_get_cong) simp
  then show "get_agent_handle_store u (Some s) = get_agent_handle_store u (Some t)"
    by (simp add: get_agent_handle_store_def)
next
  show "map_of (state_put handles_key (store_json v) (Some s)) k = map_of s k"
    if "k \<noteq> handles_key" for k v s
    using that by (simp add: state_put_def update_conv')
qed simp

lemma write_handles_reads_back:
  "write_handles u session hs = Inr session' \<Longrightarrow> handles_of u session' = Inr hs \<and> valid_store u hs"
  by (auto simp: write_handles_eq handles_of_def split: if_splits)

text \<open>Whatever the schema returns is valid, so a read that does not throw is a valid store.\<close>

lemma field_valid:
  "non_empty_string j = Some s \<Longrightarrow> s \<noteq> []"
  "string_max n j = Some s \<Longrightarrow> length s \<le> n"
  "url_schema u j = Some s \<Longrightarrow> u s"
  "req_field dec k ps = Some x \<Longrightarrow> \<exists>j. dec j = Some x"
  by (auto simp: schema_defs split: json.splits if_splits option.splits)

lemma opt_field_valid: "opt_field dec k ps = Some (Some x) \<Longrightarrow> \<exists>j. dec j = Some x"
  by (auto simp: opt_field_def split: option.splits json.splits)

lemma identity_schema_valid: "identity_schema j = Some i \<Longrightarrow> valid_identity i"
  by (auto simp: identity_schema_def valid_identity_def bind_eq_Some_conv
      split: json.splits if_splits dest!: field_valid(4) field_valid(1))

lemma start_operation_schema_valid: "start_operation_schema j = Some p \<Longrightarrow> valid_start p"
  by (auto simp: start_operation_schema_def valid_start_def bind_eq_Some_conv
      split: json.splits if_splits dest!: field_valid(4) field_valid(1))

lemma operation_schema_valid: "operation_schema j = Some p \<Longrightarrow> valid_operation p"
  by (auto simp: operation_schema_def continue_operation_schema_def valid_start_def
      bind_eq_Some_conv split: json.splits if_splits
      dest!: field_valid(4) field_valid(1,2) start_operation_schema_valid)

lemma credential_schema_valid: "credential_schema j = Some c \<Longrightarrow> valid_credential (Some c)"
  by (cases c) (auto simp: credential_schema_def split: json.splits if_splits
      dest!: opt_field_valid field_valid(1))

lemma credential_field_valid:
  "opt_field credential_schema k ps = Some c \<Longrightarrow> valid_credential c"
  by (cases c) (auto dest!: opt_field_valid credential_schema_valid)

lemma start_target_schema_valid: "start_target_schema u j = Some t \<Longrightarrow> valid_target u t"
  by (auto simp: start_target_schema_def bind_eq_Some_conv split: json.splits if_splits
      dest!: field_valid(4) field_valid(1,3) credential_field_valid)

lemma address_schema_valid: "address_schema u j = Some a \<Longrightarrow> valid_address u a"
  by (auto simp: address_schema_def bind_eq_Some_conv split: json.splits if_splits
      dest!: field_valid(4) field_valid(1,3) credential_field_valid)

lemma part_valid:
  "req_field non_empty_string k ps = Some s \<Longrightarrow> s \<noteq> []"
  "req_field (string_max n) k ps = Some s \<Longrightarrow> length s \<le> n"
  "req_field identity_schema k ps = Some i \<Longrightarrow> valid_identity i"
  "req_field start_operation_schema k ps = Some p \<Longrightarrow> valid_start p"
  "req_field operation_schema k ps = Some q \<Longrightarrow> valid_operation q"
  "req_field (start_target_schema u) k ps = Some t \<Longrightarrow> valid_target u t"
  "req_field (address_schema u) k ps = Some a \<Longrightarrow> valid_address u a"
  by (auto dest!: field_valid(4) dest: field_valid(1,2) identity_schema_valid
      start_operation_schema_valid operation_schema_valid start_target_schema_valid
      address_schema_valid)

lemma call_field_valid: "opt_field non_empty_string k ps = Some c \<Longrightarrow> c \<noteq> Some []"
  by (auto dest!: opt_field_valid field_valid(1))

lemma turn_owned_schema_valid: "turn_owned_schema u ps = Some h \<Longrightarrow> valid_handle u h"
  by (auto simp: turn_owned_schema_def bind_eq_Some_conv split: if_split_asm dest: part_valid)

lemma task_owned_schema_valid: "task_owned_schema u ps = Some h \<Longrightarrow> valid_handle u h"
  by (auto simp: task_owned_schema_def bind_eq_Some_conv split: if_split_asm
      dest: part_valid call_field_valid)

lemma agent_handle_store_schema_valid:
  assumes "agent_handle_store_schema u j = Some hs"
  shows "valid_store u hs"
proof -
  from assms obtain ps xs where "array_schema (agent_handle_schema u) xs = Some hs"
    and "distinct (map handle_id hs)"
    by (auto simp: agent_handle_store_schema_def bind_eq_Some_conv
        split: json.splits if_splits option.splits)
  moreover have "agent_handle_schema u x = Some h \<Longrightarrow> valid_handle u h" for x h
    by (auto simp: agent_handle_schema_def split: json.splits option.splits
        dest: turn_owned_schema_valid task_owned_schema_valid)
  ultimately show ?thesis
    by (auto simp: valid_store_def dest!: array_schema_SomeD)
qed

lemma valid_store_Nil [simp]: "valid_store u []"
  by (simp add: valid_store_def)

lemma get_agent_handle_store_valid:
  "get_agent_handle_store u s = Inr (Some hs) \<Longrightarrow> valid_store u hs"
  unfolding get_agent_handle_store_def Let_def
  by (auto split: option.split_asm if_split_asm dest: agent_handle_store_schema_valid)

lemma handles_of_valid: "handles_of u session = Inr hs \<Longrightarrow> valid_store u hs"
  unfolding handles_of_def
  by (auto split: option.split_asm dest: get_agent_handle_store_valid)

lemma length_format_agent_status: "length (format_agent_status num j) \<le> max_status_length"
  by (simp add: format_agent_status_def Let_def)

lemma format_agent_status_single_spaced: "single_spaced (format_agent_status num j)"
  by (simp add: format_agent_status_def Let_def single_spaced_take single_spaced_trim
      single_spaced_collapse)

end
