(* ===== verification/Agent_Handle_Transitions.thy ===== *)
theory Agent_Handle_Transitions
  imports Agent_Handle_Store
begin

text \<open>
  The transitions of the agent handle store (\<open>subagents/handles/transitions.ts\<close>): the parent
  turn's (prepare, confirm, reject, abandon, settle), and the atomic owner-lease commands that
  tasks and workflow-tool runs send. A transition throws when the session's store is corrupt or the
  new store would be refused; everything else is a value of its result type.

  The second half states the lifecycle as two edge relations on what one identity is bound to, and
  shows that every transition moves every identity along an edge.
\<close>

section \<open>Transitions of the parent turn\<close>

definition prepare_agent_start ::
  "(string \<Rightarrow> bool) \<Rightarrow> 'a stateful_scheme \<Rightarrow> agent_identity \<Rightarrow> start_operation \<Rightarrow> start_target \<Rightarrow>
     handle_error + 'a stateful_scheme" where
  "prepare_agent_start u session ident op target =
     bindR (handles_of u session) (\<lambda>hs.
       if list_ex (\<lambda>h. handle_id h = agent_id ident) hs then Inl (HandleExists (agent_id ident))
       else write_handles u session (hs @ [Starting ident op target]))"

fun is_active :: "string \<Rightarrow> agent_handle \<Rightarrow> bool" where
  "is_active oid (Starting i p t) = (op_id p = oid)"
| "is_active oid (Running i p a) = (op_id (operation_data p) = oid)"
| "is_active oid _ = False"

definition find_active_handle :: "handle_store \<Rightarrow> string \<Rightarrow> agent_handle option" where
  "find_active_handle hs oid = find (is_active oid) hs"

definition confirm_agent_started ::
  "(string \<Rightarrow> bool) \<Rightarrow> 'a stateful_scheme \<Rightarrow> string \<Rightarrow> agent_address \<Rightarrow>
     handle_error + 'a stateful_scheme" where
  "confirm_agent_started u session oid addr =
     bindR (handles_of u session) (\<lambda>hs.
       case find_active_handle hs oid of
         Some (Starting i p t) \<Rightarrow>
           write_handles u session (update_first (is_active oid) (\<lambda>_. Running i (StartOp p) addr) hs)
       | Some h \<Rightarrow> Inr session
       | None \<Rightarrow> Inl (NoPreparedHandle oid))"

datatype disposition = Dead | Retryable

definition reject_agent_effect ::
  "(string \<Rightarrow> bool) \<Rightarrow> 'a stateful_scheme \<Rightarrow> string \<Rightarrow> disposition \<Rightarrow>
     handle_error + 'a stateful_scheme" where
  "reject_agent_effect u session oid disp =
     bindR (handles_of u session) (\<lambda>hs.
       case find_active_handle hs oid of
         None \<Rightarrow> Inr session
       | Some h \<Rightarrow>
           (case (disp, h) of
              (Retryable, Running i (ContinueOp p prev) a) \<Rightarrow>
                write_handles u session (update_first (is_active oid) (\<lambda>_. Parked i a prev) hs)
            | _ \<Rightarrow> write_handles u session (remove_first (is_active oid) hs)))"

definition cancelled_status :: string where
  "cancelled_status = ''(cancelled)''"

fun is_running :: "agent_handle \<Rightarrow> bool" where
  "is_running (Running i p a) = True"
| "is_running _ = False"

fun park_running :: "agent_handle \<Rightarrow> agent_handle" where
  "park_running (Running i p a) = Parked i a cancelled_status"
| "park_running h = h"

definition abandon_running_agent_turns ::
  "(string \<Rightarrow> bool) \<Rightarrow> 'a stateful_scheme \<Rightarrow> handle_error + 'a stateful_scheme" where
  "abandon_running_agent_turns u session =
     bindR (handles_of u session) (\<lambda>hs.
       if \<not> list_ex is_running hs then Inr session
       else write_handles u session (map park_running hs))"

datatype agent_turn_result = Succeeded json | Failed json | TurnCancelled
datatype agent_turn_outcome = OutcomeParked agent_turn_result | OutcomeTerminal agent_turn_result
  \<comment> \<open>the usage delta the outcome also carries is folded elsewhere\<close>

datatype 's settle_result = Settled 's | IgnoredUnknownOperation

fun settled_status :: "(rat \<Rightarrow> string) \<Rightarrow> agent_turn_result \<Rightarrow> string" where
  "settled_status num (Succeeded out) = format_agent_status num out"
| "settled_status num (Failed err) = format_agent_status num err"
| "settled_status num TurnCancelled = cancelled_status"

definition runs_operation :: "string \<Rightarrow> agent_handle \<Rightarrow> bool" where
  "runs_operation oid h \<longleftrightarrow> is_running h \<and> is_active oid h"

definition settle_agent_turn ::
  "(string \<Rightarrow> bool) \<Rightarrow> (rat \<Rightarrow> string) \<Rightarrow> 'a stateful_scheme \<Rightarrow> string \<Rightarrow> agent_turn_outcome \<Rightarrow>
     handle_error + 'a stateful_scheme settle_result" where
  "settle_agent_turn u num session oid outcome =
     bindR (handles_of u session) (\<lambda>hs.
       case find (runs_operation oid) hs of
         Some (Running i p a) \<Rightarrow>
           (case outcome of
              OutcomeTerminal r \<Rightarrow>
                bindR (write_handles u session (remove_first (runs_operation oid) hs))
                  (\<lambda>s. Inr (Settled s))
            | OutcomeParked r \<Rightarrow>
                bindR (write_handles u session
                    (update_first (runs_operation oid) (\<lambda>_. Parked i a (settled_status num r)) hs))
                  (\<lambda>s. Inr (Settled s)))
       | _ \<Rightarrow> Inr IgnoredUnknownOperation)"

section \<open>Owner-lease commands\<close>

datatype target_kind = ExpectLocal | ExpectRemote

datatype handle_command =
    Read
  | Reserve agent_identity string "string option" string \<comment> \<open>operation id, call id, owner id\<close>
  | Confirm agent_address string string \<comment> \<open>operation id, owner id\<close>
  | Claim string target_kind "string option" string string string
      \<comment> \<open>agent id, expected target, call id, invoked name, operation id, owner id\<close>
  | Remove string string \<comment> \<open>agent id, owner id\<close>
  | ReleaseOwner string

datatype command_result =
    Ready "agent_handle option" | Busy agent_handle | Mismatch agent_handle | Unknown

fun leased_to :: "string \<Rightarrow> string \<Rightarrow> agent_handle \<Rightarrow> bool" where
  \<comment> \<open>Reserved or claimed for this operation by this owner.\<close>
  "leased_to oid w (Reserved i p c w') = (p = oid \<and> w' = w)"
| "leased_to oid w (Claimed i p c a w') = (p = oid \<and> w' = w)"
| "leased_to oid w _ = False"

fun is_remote :: "agent_address \<Rightarrow> bool" where
  "is_remote (RemoteAddress s url cb cr) = True"
| "is_remote _ = False"

fun claim_mismatch :: "target_kind \<Rightarrow> string \<Rightarrow> agent_handle \<Rightarrow> bool" where
  "claim_mismatch k name (Starting i p t) = True"
| "claim_mismatch k name (Running i p a) = True"
| "claim_mismatch k name (Reserved i p c w) = (agent_name i \<noteq> name)"
| "claim_mismatch k name (Parked i a s) = (agent_name i \<noteq> name \<or> is_remote a \<noteq> (k = ExpectRemote))"
| "claim_mismatch k name (Claimed i p c a w) =
     (agent_name i \<noteq> name \<or> is_remote a \<noteq> (k = ExpectRemote))"
| "claim_mismatch k name (Available i a) = (agent_name i \<noteq> name \<or> is_remote a \<noteq> (k = ExpectRemote))"

definition replace_handle ::
  "handle_store \<Rightarrow> (agent_handle \<Rightarrow> bool) \<Rightarrow> agent_handle \<Rightarrow> command_result \<times> handle_store" where
  "replace_handle store existing h = (Ready (Some h), update_first existing (\<lambda>_. h) store)"

fun release_handle :: "string \<Rightarrow> agent_handle \<Rightarrow> agent_handle list" where
  "release_handle w (Reserved i p c w') = (if w' = w then [] else [Reserved i p c w'])"
| "release_handle w (Claimed i p c a w') = (if w' = w then [Available i a] else [Claimed i p c a w'])"
| "release_handle w h = [h]"

definition handles_equal :: "handle_store \<Rightarrow> handle_store \<Rightarrow> bool" where
  \<comment> \<open>Element-wise identity: an element a transition replaced is a new object with another phase.\<close>
  "handles_equal xs ys \<longleftrightarrow> length xs = length ys \<and> list_all2 (=) xs ys"

definition has_id :: "string \<Rightarrow> agent_handle \<Rightarrow> bool" where
  "has_id k h \<longleftrightarrow> handle_id h = k"

fun apply_handle_command :: "handle_store \<Rightarrow> handle_command \<Rightarrow> command_result \<times> handle_store" where
  "apply_handle_command store Read = (Ready None, store)"
| "apply_handle_command store (Reserve ident oid call w) =
     (case find (has_id (agent_id ident)) store of
        Some h \<Rightarrow> (if leased_to oid w h then (Ready (Some h), store) else (Busy h, store))
      | None \<Rightarrow> (let h = Reserved ident oid call w in (Ready (Some h), store @ [h])))"
| "apply_handle_command store (Confirm addr oid w) =
     (case find (leased_to oid w) store of
        Some (Claimed i p c a w') \<Rightarrow> (Ready (Some (Claimed i p c a w')), store)
      | Some (Reserved i p c w') \<Rightarrow>
          replace_handle store (leased_to oid w) (Claimed i p c addr w')
      | _ \<Rightarrow> (Unknown, store))"
| "apply_handle_command store (Claim k expected call name oid w) =
     (case find (has_id k) store of
        None \<Rightarrow> (Unknown, store)
      | Some h \<Rightarrow>
          if claim_mismatch expected name h then (Mismatch h, store)
          else (case h of
              Claimed i p c a w' \<Rightarrow>
                (if p = oid \<and> w' = w then (Ready (Some h), store) else (Busy h, store))
            | Reserved i p c w' \<Rightarrow> (Busy h, store)
            | Parked i a s \<Rightarrow> replace_handle store (has_id k) (Claimed i oid call a w)
            | Available i a \<Rightarrow> replace_handle store (has_id k) (Claimed i oid call a w)
            | _ \<Rightarrow> (Mismatch h, store)))"
| "apply_handle_command store (Remove k w) =
     (case find (has_id k) store of
        None \<Rightarrow> (Ready None, store)
      | Some (Claimed i p c a w') \<Rightarrow>
          (if w' \<noteq> w then (Busy (Claimed i p c a w'), store)
           else (Ready None, remove_first (has_id k) store))
      | Some h \<Rightarrow> (Ready None, remove_first (has_id k) store))"
| "apply_handle_command store (ReleaseOwner w) =
     (let hs = concat (map (release_handle w) store) in
      (Ready None, if handles_equal store hs then store else hs))"

definition apply_task_handle_command ::
  "(string \<Rightarrow> bool) \<Rightarrow> 'a stateful_scheme \<Rightarrow> handle_command \<Rightarrow>
     handle_error + command_result \<times> 'a stateful_scheme" where
  "apply_task_handle_command u session cmd =
     bindR (get_agent_handle_store u (state session)) (\<lambda>r.
       let store = (case r of None \<Rightarrow> [] | Some hs \<Rightarrow> hs);
           (result, store') = apply_handle_command store cmd
       in if store' = store then Inr (result, session)
          else bindR (write_handles u session store') (\<lambda>s. Inr (result, s)))"

fun abandon_owned :: "string list \<Rightarrow> agent_handle \<Rightarrow> agent_handle list" where
  "abandon_owned ws (Reserved i p c w) = (if w \<in> set ws then [] else [Reserved i p c w])"
| "abandon_owned ws (Claimed i p c a w) =
     (if w \<in> set ws then [Parked i a cancelled_status] else [Claimed i p c a w])"
| "abandon_owned ws h = [h]"

definition abandon_agent_invocation_owners ::
  "(string \<Rightarrow> bool) \<Rightarrow> 'a stateful_scheme \<Rightarrow> string list \<Rightarrow> handle_error + 'a stateful_scheme" where
  "abandon_agent_invocation_owners u session ws =
     bindR (handles_of u session) (\<lambda>hs.
       let abandoned = concat (map (abandon_owned ws) hs) in
       if handles_equal hs abandoned then Inr session else write_handles u session abandoned)"

definition command_schema :: "(string \<Rightarrow> bool) \<Rightarrow> json \<Rightarrow> handle_command option" where
  \<comment> \<open>\<open>parseAgentHandleStoreCommand\<close>: the discriminated union on \<open>kind\<close>.\<close>
  "command_schema u j = (case j of JObj ps \<Rightarrow>
     (if map_of ps ''kind'' = Some (JStr ''read'') then
        if fields_only [''kind''] ps then Some Read else None
      else if map_of ps ''kind'' = Some (JStr ''reserve'') then
        if fields_only [''identity'', ''callId'', ''kind'', ''operationId'', ''ownerId''] ps then do {
          i \<leftarrow> req_field identity_schema ''identity'' ps;
          c \<leftarrow> opt_field non_empty_string ''callId'' ps;
          p \<leftarrow> req_field non_empty_string ''operationId'' ps;
          w \<leftarrow> req_field non_empty_string ''ownerId'' ps;
          Some (Reserve i p c w) }
        else None
      else if map_of ps ''kind'' = Some (JStr ''confirm'') then
        if fields_only [''address'', ''kind'', ''operationId'', ''ownerId''] ps then do {
          a \<leftarrow> req_field (address_schema u) ''address'' ps;
          p \<leftarrow> req_field non_empty_string ''operationId'' ps;
          w \<leftarrow> req_field non_empty_string ''ownerId'' ps;
          Some (Confirm a p w) }
        else None
      else if map_of ps ''kind'' = Some (JStr ''claim'') then
        if fields_only [''agentId'', ''callId'', ''expectedTarget'', ''invokedName'', ''kind'',
             ''operationId'', ''ownerId''] ps then do {
          k \<leftarrow> req_field non_empty_string ''agentId'' ps;
          c \<leftarrow> opt_field non_empty_string ''callId'' ps;
          t \<leftarrow> (if map_of ps ''expectedTarget'' = Some (JStr ''local'') then Some ExpectLocal
               else if map_of ps ''expectedTarget'' = Some (JStr ''remote'') then Some ExpectRemote
               else None);
          n \<leftarrow> req_field non_empty_string ''invokedName'' ps;
          p \<leftarrow> req_field non_empty_string ''operationId'' ps;
          w \<leftarrow> req_field non_empty_string ''ownerId'' ps;
          Some (Claim k t c n p w) }
        else None
      else if map_of ps ''kind'' = Some (JStr ''remove'') then
        if fields_only [''agentId'', ''kind'', ''ownerId''] ps then do {
          k \<leftarrow> req_field non_empty_string ''agentId'' ps;
          w \<leftarrow> req_field non_empty_string ''ownerId'' ps;
          Some (Remove k w) }
        else None
      else if map_of ps ''kind'' = Some (JStr ''release-owner'') then
        if fields_only [''kind'', ''ownerId''] ps
        then map_option ReleaseOwner (req_field non_empty_string ''ownerId'' ps) else None
      else None) | _ \<Rightarrow> None)"

fun valid_command :: "(string \<Rightarrow> bool) \<Rightarrow> handle_command \<Rightarrow> bool" where
  "valid_command u Read = True"
| "valid_command u (Reserve i p c w) = (valid_identity i \<and> p \<noteq> [] \<and> c \<noteq> Some [] \<and> w \<noteq> [])"
| "valid_command u (Confirm a p w) = (valid_address u a \<and> p \<noteq> [] \<and> w \<noteq> [])"
| "valid_command u (Claim k t c n p w) = (k \<noteq> [] \<and> c \<noteq> Some [] \<and> n \<noteq> [] \<and> p \<noteq> [] \<and> w \<noteq> [])"
| "valid_command u (Remove k w) = (k \<noteq> [] \<and> w \<noteq> [])"
| "valid_command u (ReleaseOwner w) = (w \<noteq> [])"

lemma command_schema_valid: "command_schema u j = Some c \<Longrightarrow> valid_command u c"
  by (auto simp: command_schema_def bind_eq_Some_conv split: json.split_asm if_split_asm
      dest: part_valid call_field_valid)

section \<open>What an identity is bound to\<close>

definition lookup :: "handle_store \<Rightarrow> string \<Rightarrow> agent_handle option" where
  "lookup hs k = find (has_id k) hs"

definition ids :: "handle_store \<Rightarrow> string list" where
  "ids hs = map handle_id hs"

lemma find_append: "find P (xs @ ys) = (case find P xs of None \<Rightarrow> find P ys | Some x \<Rightarrow> Some x)"
  by (induction xs) auto

lemma lookup_append: "lookup (xs @ ys) k = (case lookup xs k of None \<Rightarrow> lookup ys k | Some h \<Rightarrow> Some h)"
  by (simp add: lookup_def find_append split: option.split)

lemma lookup_Nil [simp]: "lookup [] k = None"
  by (simp add: lookup_def)

lemma lookup_Cons [simp]: "lookup (h # hs) k = (if handle_id h = k then Some h else lookup hs k)"
  by (simp add: lookup_def has_id_def)

lemma lookup_None_iff: "lookup hs k = None \<longleftrightarrow> k \<notin> set (ids hs)"
  by (auto simp: lookup_def find_None_iff has_id_def ids_def)

lemma lookup_SomeD: "lookup hs k = Some h \<Longrightarrow> handle_id h = k \<and> h \<in> set hs"
  by (auto simp: lookup_def has_id_def dest: find_SomeD)

lemma lookup_in: "distinct (ids hs) \<Longrightarrow> h \<in> set hs \<Longrightarrow> lookup hs (handle_id h) = Some h"
  by (induction hs) (auto simp: ids_def)

text \<open>Replacing or removing the first match changes the binding of that identity only.\<close>

lemma found_first:
  assumes "find P hs = Some h" and "distinct (ids hs)"
  shows "lookup hs (handle_id h) = Some h"
    and "handle_id h' = handle_id h \<Longrightarrow>
      lookup (update_first P (\<lambda>_. h') hs) k = (if k = handle_id h then Some h' else lookup hs k)"
    and "lookup (remove_first P hs) k = (if k = handle_id h then None else lookup hs k)"
    and "handle_id h' = handle_id h \<Longrightarrow> ids (update_first P (\<lambda>_. h') hs) = ids hs"
    and "distinct (ids (remove_first P hs))"
proof -
  from find_first_split [OF assms(1)] obtain us vs where hs: "hs = us @ h # vs"
    and upd: "\<And>f. update_first P f hs = us @ f h # vs" and rem: "remove_first P hs = us @ vs"
    by blast
  have out: "handle_id h \<notin> set (ids us)" "handle_id h \<notin> set (ids vs)"
    using assms(2) by (auto simp: hs ids_def)
  then have none: "lookup us (handle_id h) = None" "lookup vs (handle_id h) = None"
    by (simp_all add: lookup_None_iff)
  show "lookup hs (handle_id h) = Some h"
    using none by (simp add: hs lookup_append)
  show "lookup (update_first P (\<lambda>_. h') hs) k = (if k = handle_id h then Some h' else lookup hs k)"
    if "handle_id h' = handle_id h"
    unfolding upd using none that by (auto simp: hs lookup_append split: option.split)
  show "lookup (remove_first P hs) k = (if k = handle_id h then None else lookup hs k)"
    unfolding rem using none by (auto simp: hs lookup_append split: option.split)
  show "ids (update_first P (\<lambda>_. h') hs) = ids hs" if "handle_id h' = handle_id h"
    unfolding upd using that by (simp add: hs ids_def)
  show "distinct (ids (remove_first P hs))"
    unfolding rem using assms(2) by (simp add: hs ids_def)
qed

lemma find_has_id [simp]: "find (has_id k) hs = lookup hs k"
  by (simp add: lookup_def)

text \<open>A map that turns each handle into itself, a handle of the same identity, or nothing.\<close>

definition keeps_identity :: "(agent_handle \<Rightarrow> agent_handle list) \<Rightarrow> bool" where
  "keeps_identity f \<longleftrightarrow> (\<forall>h. f h = [] \<or> (\<exists>h'. f h = [h'] \<and> identity h' = identity h))"

definition image_of :: "(agent_handle \<Rightarrow> agent_handle list) \<Rightarrow> agent_handle option \<Rightarrow> agent_handle option" where
  "image_of f x = (case x of None \<Rightarrow> None | Some h \<Rightarrow> (case f h of [] \<Rightarrow> None | h' # _ \<Rightarrow> Some h'))"

lemma keeps_identity_ids:
  assumes "keeps_identity f"
  shows "set (ids (concat (map f hs))) \<subseteq> set (ids hs)"
proof (induction hs)
  case (Cons h hs)
  from assms have "f h = [] \<or> (\<exists>h'. f h = [h'] \<and> identity h' = identity h)"
    by (simp add: keeps_identity_def)
  with Cons show ?case by (auto simp: ids_def)
qed (simp add: ids_def)

lemma keeps_identity_distinct:
  assumes "keeps_identity f" and "distinct (ids hs)"
  shows "distinct (ids (concat (map f hs)))"
  using assms(2)
proof (induction hs)
  case (Cons h hs)
  from assms(1) have "f h = [] \<or> (\<exists>h'. f h = [h'] \<and> identity h' = identity h)"
    by (simp add: keeps_identity_def)
  moreover have "handle_id h \<notin> set (ids (concat (map f hs)))"
    using Cons.prems keeps_identity_ids [OF assms(1), of hs] by (auto simp: ids_def)
  ultimately show ?case using Cons by (auto simp: ids_def)
qed (simp add: ids_def)

lemma keeps_identity_lookup:
  assumes "keeps_identity f" and "distinct (ids hs)"
  shows "lookup (concat (map f hs)) k = image_of f (lookup hs k)"
  using assms(2)
proof (induction hs)
  case (Cons h hs)
  from assms(1) have f: "f h = [] \<or> (\<exists>h'. f h = [h'] \<and> identity h' = identity h)"
    by (simp add: keeps_identity_def)
  have "lookup (concat (map f hs)) (handle_id h) = None"
    using Cons.prems keeps_identity_ids [OF assms(1), of hs] by (auto simp: ids_def lookup_None_iff)
  with f Cons show ?case by (auto simp: image_of_def ids_def lookup_append)
qed (simp add: image_of_def)

lemma keeps_identity_release [simp]: "keeps_identity (release_handle w)"
proof -
  have "release_handle w h = [] \<or> (\<exists>h'. release_handle w h = [h'] \<and> identity h' = identity h)" for h
    by (cases h) auto
  then show ?thesis by (simp add: keeps_identity_def)
qed

lemma keeps_identity_abandon [simp]: "keeps_identity (abandon_owned ws)"
proof -
  have "abandon_owned ws h = [] \<or> (\<exists>h'. abandon_owned ws h = [h'] \<and> identity h' = identity h)" for h
    by (cases h) auto
  then show ?thesis by (simp add: keeps_identity_def)
qed

lemma handles_equal_iff [simp]: "handles_equal xs ys \<longleftrightarrow> xs = ys"
  by (auto simp: handles_equal_def list.rel_eq)

lemma release_command [simp]:
  "snd (apply_handle_command store (ReleaseOwner w)) = concat (map (release_handle w) store)"
  by (simp add: Let_def)

end
