(* ===== verification/Agent_Handle_Lifecycle.thy ===== *)
theory Agent_Handle_Lifecycle
  imports Agent_Handle_Transitions
begin

text \<open>
  What the handle transitions guarantee: the lifecycle of an identity as two edge relations and the
  proof that the transitions move along them, unique ids under every sequence of commands, exclusive
  leases, idempotent replay, and writes that are never refused.
\<close>

section \<open>Lifecycle edges\<close>

text \<open>What one owner-lease command may do to the binding of an identity.\<close>

inductive command_edge :: "handle_command \<Rightarrow> agent_handle option \<Rightarrow> agent_handle option \<Rightarrow> bool" where
  stay: "command_edge cmd x x"
| reserve: "command_edge (Reserve i p c w) None (Some (Reserved i p c w))"
| confirm: "command_edge (Confirm a p w) (Some (Reserved i p c w)) (Some (Claimed i p c a w))"
| claim_parked: "agent_name i = n \<Longrightarrow> is_remote a = (t = ExpectRemote) \<Longrightarrow>
    command_edge (Claim (agent_id i) t c n p w) (Some (Parked i a s)) (Some (Claimed i p c a w))"
| claim_available: "agent_name i = n \<Longrightarrow> is_remote a = (t = ExpectRemote) \<Longrightarrow>
    command_edge (Claim (agent_id i) t c n p w) (Some (Available i a)) (Some (Claimed i p c a w))"
| remove: "(\<And>i p c a w'. h = Claimed i p c a w' \<Longrightarrow> w' = w) \<Longrightarrow>
    command_edge (Remove (handle_id h) w) (Some h) None"
| release_reserved: "command_edge (ReleaseOwner w) (Some (Reserved i p c w)) None"
| release_claimed:
    "command_edge (ReleaseOwner w) (Some (Claimed i p c a w)) (Some (Available i a))"

inductive_cases claimed_edge: "command_edge cmd (Some (Claimed i p c a w)) x"
inductive_cases reserved_edge: "command_edge cmd (Some (Reserved i p c w)) x"

text \<open>What one transition of the parent turn may do to it.\<close>

inductive turn_edge :: "agent_handle option \<Rightarrow> agent_handle option \<Rightarrow> bool" where
  turn_stay: "turn_edge x x"
| turn_prepare: "turn_edge None (Some (Starting i p t))"
| turn_confirm: "turn_edge (Some (Starting i p t)) (Some (Running i (StartOp p) a))"
| turn_park: "turn_edge (Some (Running i p a)) (Some (Parked i a s))"
| turn_start_dead: "turn_edge (Some (Starting i p t)) None"
| turn_ended: "turn_edge (Some (Running i p a)) None"

section \<open>Commands move along the edges\<close>

lemma image_of_release:
  "command_edge (ReleaseOwner w) x (image_of (release_handle w) x)"
proof (cases x)
  case (Some h)
  then show ?thesis by (cases h) (auto simp: image_of_def intro: command_edge.intros)
qed (simp add: image_of_def command_edge.stay)

lemma leased_find:
  assumes "find (leased_to p w) s = Some h"
  obtains i c where "h = Reserved i p c w" | i c a where "h = Claimed i p c a w"
  using find_SomeD [OF assms] by (cases h) auto

lemma command_simulation:
  assumes "distinct (ids s)"
  shows "command_edge cmd (lookup s k) (lookup (snd (apply_handle_command s cmd)) k)"
proof (cases cmd)
  case Read
  then show ?thesis by (simp add: command_edge.stay)
next
  case (Reserve i p c w)
  then show ?thesis
    by (cases "lookup s (agent_id i)")
      (auto simp: Let_def lookup_append lookup_SomeD split: option.split
        intro: command_edge.stay command_edge.reserve)
next
  case (Confirm a p w)
  show ?thesis
  proof (cases "find (leased_to p w) s")
    case None
    with Confirm show ?thesis by (simp add: command_edge.stay)
  next
    case (Some h)
    from Some show ?thesis
    proof (rule leased_find)
      fix i c assume h: "h = Reserved i p c w"
      note f = found_first(1) [OF Some assms] found_first(2) [OF Some assms, of "Claimed i p c a w" k]
      with Confirm Some h show ?thesis
        by (auto simp: replace_handle_def intro: command_edge.stay command_edge.confirm)
    next
      fix i c a' assume "h = Claimed i p c a' w"
      with Confirm Some show ?thesis by (simp add: command_edge.stay)
    qed
  qed
next
  case (Claim j t c n p w)
  show ?thesis
  proof (cases "lookup s j")
    case None
    with Claim show ?thesis by (simp add: command_edge.stay)
  next
    case (Some h)
    have f: "find (has_id j) s = Some h" and j: "handle_id h = j"
      using Some lookup_SomeD [OF Some] by simp_all
    show ?thesis
    proof (cases h)
      case (Parked i a st)
      have "lookup (update_first (has_id j) (\<lambda>_. Claimed i p c a w) s) k =
          (if k = j then Some (Claimed i p c a w) else lookup s k)"
        using found_first(2) [OF f assms, of "Claimed i p c a w" k] j Parked by simp
      moreover have "command_edge cmd (Some h) (Some (Claimed i p c a w))"
        if "\<not> claim_mismatch t n h"
        using that j Parked by (auto simp: Claim intro: command_edge.claim_parked)
      ultimately show ?thesis
        using Claim Some Parked by (simp add: replace_handle_def command_edge.stay)
    next
      case (Available i a)
      have "lookup (update_first (has_id j) (\<lambda>_. Claimed i p c a w) s) k =
          (if k = j then Some (Claimed i p c a w) else lookup s k)"
        using found_first(2) [OF f assms, of "Claimed i p c a w" k] j Available by simp
      moreover have "command_edge cmd (Some h) (Some (Claimed i p c a w))"
        if "\<not> claim_mismatch t n h"
        using that j Available by (auto simp: Claim intro: command_edge.claim_available)
      ultimately show ?thesis
        using Claim Some Available by (simp add: replace_handle_def command_edge.stay)
    qed (use Claim Some in \<open>auto intro: command_edge.stay\<close>)
  qed
next
  case (Remove j w)
  show ?thesis
  proof (cases "lookup s j")
    case None
    with Remove show ?thesis by (simp add: command_edge.stay)
  next
    case (Some h)
    have f: "find (has_id j) s = Some h" and j: "handle_id h = j"
      using Some lookup_SomeD [OF Some] by simp_all
    have "command_edge (Remove j w) (lookup s k) (if k = j then None else lookup s k)"
      if "\<And>i p c a w'. h = Claimed i p c a w' \<Longrightarrow> w' = w"
      using command_edge.remove [of h w] that Some j by (auto intro: command_edge.stay)
    with Remove Some j found_first(3) [OF f assms, of k] show ?thesis
      by (cases h) (auto intro: command_edge.stay)
  qed
next
  case (ReleaseOwner w)
  then show ?thesis
    using image_of_release keeps_identity_lookup [OF keeps_identity_release assms]
    by (simp only: release_command)
qed

lemma command_distinct:
  assumes "distinct (ids s)"
  shows "distinct (ids (snd (apply_handle_command s cmd)))"
proof (cases cmd)
  case (Reserve i p c w)
  show ?thesis
  proof (cases "lookup s (agent_id i)")
    case None
    then have "agent_id i \<notin> set (ids s)" by (simp add: lookup_None_iff)
    with Reserve None assms show ?thesis by (simp add: Let_def ids_def)
  qed (use Reserve assms in simp)
next
  case (Confirm a p w)
  show ?thesis
  proof (cases "find (leased_to p w) s")
    case (Some h)
    from Some show ?thesis
    proof (rule leased_find)
      fix i c assume h: "h = Reserved i p c w"
      with found_first(4) [OF Some assms, of "Claimed i p c a w"] Some Confirm assms show ?thesis
        by (simp add: replace_handle_def)
    qed (use Some Confirm assms in simp)
  qed (use Confirm assms in simp)
next
  case (Claim j t c n p w)
  show ?thesis
  proof (cases "lookup s j")
    case (Some h)
    then have f: "find (has_id j) s = Some h" by simp
    show ?thesis
      using Claim Some assms found_first(4) [OF f assms]
      by (cases h) (simp_all add: replace_handle_def)
  qed (use Claim assms in simp)
next
  case (Remove j w)
  show ?thesis
  proof (cases "lookup s j")
    case (Some h)
    then have f: "find (has_id j) s = Some h" by simp
    show ?thesis
      using Remove Some assms found_first(5) [OF f assms] by (cases h) simp_all
  qed (use Remove assms in simp)
next
  case (ReleaseOwner w)
  then show ?thesis using keeps_identity_distinct [OF keeps_identity_release assms]
    by (simp only: release_command)
qed (use assms in simp)

interpretation handle_commands:
  transition_system "\<lambda>s cmd. snd (apply_handle_command s cmd)" "\<lambda>s. distinct (ids s)"
  by unfold_locales (rule command_distinct)

section \<open>Leases\<close>

fun command_owner :: "handle_command \<Rightarrow> string option" where
  "command_owner Read = None"
| "command_owner (Reserve i p c w) = Some w"
| "command_owner (Confirm a p w) = Some w"
| "command_owner (Claim k t c n p w) = Some w"
| "command_owner (Remove k w) = Some w"
| "command_owner (ReleaseOwner w) = Some w"

lemma claimed_kept_by_others:
  assumes "distinct (ids s)" and "lookup s k = Some (Claimed i p c a w)"
    and "command_owner cmd \<noteq> Some w"
  shows "lookup (snd (apply_handle_command s cmd)) k = Some (Claimed i p c a w)"
  using command_simulation [OF assms(1), of cmd k] assms(2,3)
  by (auto elim!: claimed_edge)

lemma claimed_kept_by_run:
  assumes "distinct (ids s)" and "lookup s k = Some (Claimed i p c a w)"
    and "\<forall>cmd \<in> set cmds. command_owner cmd \<noteq> Some w"
  shows "lookup (foldl (\<lambda>s cmd. snd (apply_handle_command s cmd)) s cmds) k = Some (Claimed i p c a w)"
  using assms
proof (induction cmds arbitrary: s)
  case (Cons cmd cmds)
  then show ?case by (simp add: claimed_kept_by_others command_distinct)
qed simp

section \<open>Replay\<close>

lemma release_release:
  "concat (map (release_handle w) (concat (map (release_handle w) s))) = concat (map (release_handle w) s)"
proof (induction s)
  case (Cons h s)
  then show ?case by (cases h) auto
qed simp

lemma command_replay:
  assumes "distinct (ids s)" and "apply_handle_command s cmd = (r, s')"
  shows "apply_handle_command s' cmd = (r, s')"
proof (cases cmd)
  case (Reserve i p c w)
  show ?thesis
  proof (cases "lookup s (agent_id i)")
    case None
    with Reserve assms(2) show ?thesis by (auto simp: Let_def lookup_append)
  qed (use Reserve assms(2) in \<open>auto split: if_splits\<close>)
next
  case (Confirm a p w)
  show ?thesis
  proof (cases "find (leased_to p w) s")
    case (Some h)
    from Some show ?thesis
    proof (rule leased_find)
      fix i c assume h: "h = Reserved i p c w"
      with find_update_first_hit [OF Some, of "Claimed i p c a w"] Some Confirm assms(2)
      show ?thesis by (auto simp: replace_handle_def)
    qed (use Some Confirm assms(2) in auto)
  qed (use Confirm assms(2) in auto)
next
  case (Claim j t c n p w)
  show ?thesis
  proof (cases "lookup s j")
    case (Some h)
    have f: "find (has_id j) s = Some h" and j: "handle_id h = j"
      using Some lookup_SomeD [OF Some] by simp_all
    have after: "lookup (update_first (has_id j) (\<lambda>_. h') s) j = Some h'" if "identity h' = identity h" for h'
      using found_first(2) [OF f assms(1), of h' j] j that by simp
    show ?thesis
      using Claim Some assms(2) after by (cases h) (auto simp: replace_handle_def split: if_splits)
  qed (use Claim assms(2) in auto)
next
  case (Remove j w)
  show ?thesis
  proof (cases "lookup s j")
    case (Some h)
    have f: "find (has_id j) s = Some h" and j: "handle_id h = j"
      using Some lookup_SomeD [OF Some] by simp_all
    have "lookup (remove_first (has_id j) s) j = None"
      using found_first(3) [OF f assms(1), of j] j by simp
    with Remove Some assms(2) show ?thesis by (cases h) (auto split: if_splits)
  qed (use Remove assms(2) in auto)
next
  case (ReleaseOwner w)
  with assms(2) release_release [of w s] show ?thesis by (auto simp: Let_def)
qed (use assms(2) in auto)

section \<open>Valid stores\<close>

lemma valid_store_ids: "valid_store u hs \<longleftrightarrow> (\<forall>h \<in> set hs. valid_handle u h) \<and> distinct (ids hs)"
  by (simp add: valid_store_def ids_def)

lemma handles_valid_concat:
  "(\<And>h h'. h \<in> set hs \<Longrightarrow> h' \<in> set (f h) \<Longrightarrow> valid_handle u h') \<Longrightarrow>
     \<forall>h \<in> set (concat (map f hs)). valid_handle u h"
  by auto

lemma handles_valid_update:
  "\<forall>h \<in> set hs. valid_handle u h \<Longrightarrow> valid_handle u h' \<Longrightarrow>
     \<forall>h \<in> set (update_first P (\<lambda>_. h') hs). valid_handle u h"
  using set_update_first [of P "\<lambda>_. h'" hs] by auto

lemma handles_valid_remove:
  "\<forall>h \<in> set hs. valid_handle u h \<Longrightarrow> \<forall>h \<in> set (remove_first P hs). valid_handle u h"
  using set_remove_first [of P hs] by auto

lemma release_handle_valid: "valid_handle u h \<Longrightarrow> h' \<in> set (release_handle w h) \<Longrightarrow> valid_handle u h'"
  by (cases h) (auto split: if_splits)

lemma abandon_owned_valid: "valid_handle u h \<Longrightarrow> h' \<in> set (abandon_owned ws h) \<Longrightarrow> valid_handle u h'"
  by (cases h) (auto simp: cancelled_status_def max_status_length_def split: if_splits)

lemma command_handles_valid:
  assumes "\<forall>h \<in> set s. valid_handle u h" and "valid_command u cmd"
  shows "\<forall>h \<in> set (snd (apply_handle_command s cmd)). valid_handle u h"
proof (cases cmd)
  case (Reserve i p c w)
  then show ?thesis using assms by (auto simp: Let_def split: option.split)
next
  case (Confirm a p w)
  show ?thesis
  proof (cases "find (leased_to p w) s")
    case (Some h)
    then have h: "valid_handle u h" using assms(1) find_SomeD by fastforce
    from Some show ?thesis
    proof (rule leased_find)
      fix i c assume h': "h = Reserved i p c w"
      have "\<forall>h \<in> set (update_first (leased_to p w) (\<lambda>_. Claimed i p c a w) s). valid_handle u h"
        using h h' Confirm assms by (intro handles_valid_update) auto
      with Some Confirm h' show ?thesis by (simp add: replace_handle_def)
    qed (use Some Confirm assms in simp)
  qed (use Confirm assms in simp)
next
  case (Claim j t c n p w)
  show ?thesis
  proof (cases "lookup s j")
    case (Some h)
    then have h: "valid_handle u h" using assms(1) lookup_SomeD by fastforce
    have "\<forall>h \<in> set (update_first (has_id j) (\<lambda>_. Claimed i p c a w) s). valid_handle u h"
      if "valid_identity i" "valid_address u a" for i a
      using that Claim assms by (intro handles_valid_update) auto
    then show ?thesis
      using Claim Some assms h by (cases h) (auto simp: replace_handle_def)
  qed (use Claim assms in simp)
next
  case (Remove j w)
  show ?thesis
  proof (cases "lookup s j")
    case (Some h)
    then show ?thesis
      using Remove assms(1) handles_valid_remove [OF assms(1)] by (cases h) simp_all
  qed (use Remove assms in simp)
next
  case (ReleaseOwner w)
  show ?thesis
    unfolding ReleaseOwner release_command
    by (rule handles_valid_concat) (use assms(1) release_handle_valid in blast)
qed (use assms in simp)

lemma command_store_valid:
  "valid_store u s \<Longrightarrow> valid_command u cmd \<Longrightarrow> valid_store u (snd (apply_handle_command s cmd))"
  unfolding valid_store_ids using command_handles_valid command_distinct by blast

lemma task_command_accepted:
  assumes "handles_of u session = Inr hs" and "valid_command u cmd"
  shows "\<exists>session'. apply_task_handle_command u session cmd = Inr (fst (apply_handle_command hs cmd), session')
    \<and> handles_of u session' = Inr (snd (apply_handle_command hs cmd))"
proof -
  obtain r where r: "get_agent_handle_store u (state session) = Inr r"
    and hs: "hs = (case r of None \<Rightarrow> [] | Some hs \<Rightarrow> hs)"
    using assms(1) by (auto simp: handles_of_def)
  obtain res hs' where app: "apply_handle_command hs cmd = (res, hs')" by force
  have valid: "valid_store u hs'"
    using command_store_valid [OF handles_of_valid [OF assms(1)] assms(2)] app by simp
  show ?thesis
  proof (cases "hs' = hs")
    case True
    with assms(1) app r show ?thesis
      by (simp add: apply_task_handle_command_def hs [symmetric])
  next
    case False
    with app r valid show ?thesis
      by (simp add: apply_task_handle_command_def hs [symmetric] write_handles_eq handles_of_def)
  qed
qed

end
