(* ===== verification/Agent_Handle_Turns.thy ===== *)
theory Agent_Handle_Turns
  imports Agent_Handle_Lifecycle
begin

text \<open>
  The transitions of the parent turn as one system: every accepted transition moves every identity
  along \<open>turn_edge\<close> and leaves a store that reads back, and the handles that a workflow owner
  holds are not touched by any of them.
\<close>

datatype turn_transition =
    PrepareStart agent_identity start_operation start_target
  | ConfirmStarted string agent_address
  | RejectEffect string disposition
  | AbandonTurns
  | SettleTurn string agent_turn_outcome

fun settled_session :: "'s \<Rightarrow> 's settle_result \<Rightarrow> 's" where
  "settled_session s (Settled s') = s'"
| "settled_session s IgnoredUnknownOperation = s"

fun apply_turn_transition ::
  "(string \<Rightarrow> bool) \<Rightarrow> (rat \<Rightarrow> string) \<Rightarrow> 'a stateful_scheme \<Rightarrow> turn_transition \<Rightarrow>
     handle_error + 'a stateful_scheme" where
  "apply_turn_transition u num s (PrepareStart i p t) = prepare_agent_start u s i p t"
| "apply_turn_transition u num s (ConfirmStarted oid a) = confirm_agent_started u s oid a"
| "apply_turn_transition u num s (RejectEffect oid d) = reject_agent_effect u s oid d"
| "apply_turn_transition u num s AbandonTurns = abandon_running_agent_turns u s"
| "apply_turn_transition u num s (SettleTurn oid r) =
     bindR (settle_agent_turn u num s oid r) (\<lambda>x. Inr (settled_session s x))"

definition turn_moves :: "handle_store \<Rightarrow> handle_store \<Rightarrow> bool" where
  "turn_moves hs hs' \<longleftrightarrow> (\<forall>k. turn_edge (lookup hs k) (lookup hs' k))"

lemma turn_moves_refl [simp]: "turn_moves hs hs"
  by (simp add: turn_moves_def turn_edge.turn_stay)

lemma turn_moves_update:
  assumes "find P hs = Some h" and "distinct (ids hs)" and "identity h' = identity h"
    and "turn_edge (Some h) (Some h')"
  shows "turn_moves hs (update_first P (\<lambda>_. h') hs)"
  unfolding turn_moves_def
proof
  fix k
  show "turn_edge (lookup hs k) (lookup (update_first P (\<lambda>_. h') hs) k)"
    using found_first(1) [OF assms(1,2)] found_first(2) [OF assms(1,2), of h' k] assms(3,4)
      turn_edge.turn_stay
    by (cases "k = handle_id h") auto
qed

lemma turn_moves_remove:
  assumes "find P hs = Some h" and "distinct (ids hs)" and "turn_edge (Some h) None"
  shows "turn_moves hs (remove_first P hs)"
  unfolding turn_moves_def
proof
  fix k
  show "turn_edge (lookup hs k) (lookup (remove_first P hs) k)"
    using found_first(1) [OF assms(1,2)] found_first(3) [OF assms(1,2), of k] assms(3) turn_edge.turn_stay
    by (cases "k = handle_id h") auto
qed

lemma lookup_None_list_ex: "lookup hs k = None \<longleftrightarrow> \<not> list_ex (\<lambda>h. handle_id h = k) hs"
  by (induction hs) auto

lemma lookup_map_park:
  "lookup (map park_running hs) k = map_option park_running (lookup hs k)"
proof (induction hs)
  case (Cons h hs)
  then show ?case by (cases h) auto
qed simp

lemma park_running_edge: "turn_edge x (map_option park_running x)"
proof (cases x)
  case (Some h)
  then show ?thesis by (cases h) (auto intro: turn_edge.intros)
qed (simp add: turn_edge.turn_stay)

lemma active_cases:
  assumes "find (is_active oid) hs = Some h"
  obtains i p t where "h = Starting i p t" "op_id p = oid"
    | i p a where "h = Running i p a" "op_id (operation_data p) = oid"
  using find_SomeD [OF assms] by (cases h) auto

lemma running_found:
  assumes "find (runs_operation oid) hs = Some h"
  obtains i p a where "h = Running i p a" "op_id (operation_data p) = oid"
  using find_SomeD [OF assms] by (cases h) (auto simp: runs_operation_def)

lemma turn_simulation:
  assumes hs: "handles_of u s = Inr hs" and step: "apply_turn_transition u num s c = Inr s'"
  shows "\<exists>hs'. handles_of u s' = Inr hs' \<and> turn_moves hs hs'"
proof -
  have d: "distinct (ids hs)"
    using handles_of_valid [OF hs] by (simp add: valid_store_ids)
  have wrote: "\<exists>hs'. handles_of u s' = Inr hs' \<and> turn_moves hs hs'"
    if "write_handles u s hs' = Inr s'" "turn_moves hs hs'" for hs'
    using write_handles_reads_back [OF that(1)] that(2) by blast
  have same: ?thesis if "s' = s" using that hs by auto
  show ?thesis
  proof (cases c)
    case (PrepareStart i p t)
    with step hs have new: "lookup hs (agent_id i) = None"
      and w: "write_handles u s (hs @ [Starting i p t]) = Inr s'"
      by (cases "list_ex (\<lambda>h. handle_id h = agent_id i) hs";
          simp add: prepare_agent_start_def lookup_None_list_ex)+
    have "turn_moves hs (hs @ [Starting i p t])"
      unfolding turn_moves_def
    proof
      fix k
      show "turn_edge (lookup hs k) (lookup (hs @ [Starting i p t]) k)"
        using new by (cases "k = agent_id i")
          (auto simp: lookup_append split: option.split intro: turn_edge.intros)
    qed
    with w show ?thesis by (rule wrote)
  next
    case (ConfirmStarted oid a)
    show ?thesis
    proof (cases "find (is_active oid) hs")
      case None
      then show ?thesis using ConfirmStarted step hs
        by (simp add: confirm_agent_started_def find_active_handle_def)
    next
      case (Some h)
      from Some show ?thesis
      proof (rule active_cases)
        fix i p t assume h: "h = Starting i p t"
        then have "turn_moves hs (update_first (is_active oid) (\<lambda>_. Running i (StartOp p) a) hs)"
          by (intro turn_moves_update [OF Some d]) (auto intro: turn_edge.intros)
        moreover have "write_handles u s
            (update_first (is_active oid) (\<lambda>_. Running i (StartOp p) a) hs) = Inr s'"
          using ConfirmStarted step hs Some h by (simp add: confirm_agent_started_def find_active_handle_def)
        ultimately show ?thesis using wrote by blast
      next
        fix i p b assume "h = Running i p b"
        then show ?thesis using ConfirmStarted step hs Some
          by (intro same) (simp add: confirm_agent_started_def find_active_handle_def)
      qed
    qed
  next
    case (RejectEffect oid e)
    have def: "(case find (is_active oid) hs of None \<Rightarrow> Inr s
       | Some h \<Rightarrow> (case (e, h) of
           (Retryable, Running i (ContinueOp p prev) a) \<Rightarrow>
             write_handles u s (update_first (is_active oid) (\<lambda>_. Parked i a prev) hs)
         | _ \<Rightarrow> write_handles u s (remove_first (is_active oid) hs))) = Inr s'"
      using RejectEffect step hs by (simp add: reject_agent_effect_def find_active_handle_def)
    show ?thesis
    proof (cases "find (is_active oid) hs")
      case None
      then show ?thesis using def by (intro same) simp
    next
      case (Some h)
      then have "turn_edge (Some h) None"
        by (rule active_cases) (auto intro: turn_edge.intros)
      then have dead: "turn_moves hs (remove_first (is_active oid) hs)"
        by (rule turn_moves_remove [OF Some d])
      from Some show ?thesis
      proof (rule active_cases)
        fix i p t assume "h = Starting i p t"
        then show ?thesis using def Some by (intro wrote [OF _ dead]) (cases e; simp)
      next
        fix i p a assume h: "h = Running i p a"
        have park: "turn_moves hs (update_first (is_active oid) (\<lambda>_. Parked i a st) hs)" for st
          using h by (intro turn_moves_update [OF Some d]) (auto intro: turn_edge.intros)
        show ?thesis
        proof (cases "\<exists>q st. e = Retryable \<and> p = ContinueOp q st")
          case True
          then obtain q st where "e = Retryable" "p = ContinueOp q st" by blast
          then show ?thesis using def Some h by (intro wrote [OF _ park]) simp
        next
          case False
          then show ?thesis using def Some h by (intro wrote [OF _ dead]) (cases e; cases p; simp)
        qed
      qed
    qed
  next
    case AbandonTurns
    have "turn_moves hs (map park_running hs)"
      by (simp add: turn_moves_def lookup_map_park park_running_edge)
    then show ?thesis
      using AbandonTurns step hs wrote same by (auto simp: abandon_running_agent_turns_def split: if_splits)
  next
    case (SettleTurn oid r)
    show ?thesis
    proof (cases "find (runs_operation oid) hs")
      case None
      then show ?thesis using SettleTurn step hs
        by (intro same) (auto simp: settle_agent_turn_def)
    next
      case (Some h)
      then obtain i p a where h: "h = Running i p a" by (rule running_found)
      have rem: "turn_moves hs (remove_first (runs_operation oid) hs)"
        using h by (auto intro!: turn_moves_remove [OF Some d] turn_edge.intros)
      have park: "turn_moves hs (update_first (runs_operation oid) (\<lambda>_. Parked i a st) hs)" for st
        using h by (intro turn_moves_update [OF Some d]) (auto intro: turn_edge.intros)
      show ?thesis
      proof (cases r)
        case (OutcomeParked x)
        then show ?thesis using SettleTurn step hs Some h wrote [OF _ park]
          by (fastforce simp: settle_agent_turn_def)
      next
        case (OutcomeTerminal x)
        then show ?thesis using SettleTurn step hs Some h wrote [OF _ rem]
          by (fastforce simp: settle_agent_turn_def)
      qed
    qed
  qed
qed

inductive_cases task_owned_edge:
  "turn_edge (Some (Reserved i p c w)) x"
  "turn_edge (Some (Claimed i p c a w)) x"
  "turn_edge (Some (Available i a)) x"

lemma leases_kept_by_turn:
  assumes "handles_of u s = Inr hs" and "apply_turn_transition u num s c = Inr s'"
    and "lookup hs k = Some h" and "h = Reserved i p call w \<or> h = Claimed i p call a w \<or> h = Available i a"
  shows "\<exists>hs'. handles_of u s' = Inr hs' \<and> lookup hs' k = Some h"
proof -
  obtain hs' where "handles_of u s' = Inr hs'" and m: "turn_moves hs hs'"
    using turn_simulation [OF assms(1,2)] by blast
  moreover have "lookup hs' k = Some h"
    using m [unfolded turn_moves_def, rule_format, of k] assms(3,4) by (auto elim: task_owned_edge)
  ultimately show ?thesis by blast
qed

section \<open>Settling\<close>

lemma settle_exact:
  assumes "handles_of u s = Inr hs" and "settle_agent_turn u num s oid r = Inr (Settled s')"
  obtains i p a hs' where "lookup hs (agent_id i) = Some (Running i p a)"
    and "op_id (operation_data p) = oid" and "handles_of u s' = Inr hs'"
    and "\<forall>k. lookup hs' k = (if k = agent_id i then
          (case r of OutcomeTerminal x \<Rightarrow> None | OutcomeParked x \<Rightarrow> Some (Parked i a (settled_status num x)))
        else lookup hs k)"
proof -
  have d: "distinct (ids hs)"
    using handles_of_valid [OF assms(1)] by (simp add: valid_store_ids)
  obtain h where f: "find (runs_operation oid) hs = Some h"
    using assms by (auto simp: settle_agent_turn_def split: option.splits)
  then obtain i p a where h: "h = Running i p a" and op: "op_id (operation_data p) = oid"
    by (rule running_found)
  define hs' where "hs' = (case r of OutcomeTerminal x \<Rightarrow> remove_first (runs_operation oid) hs
      | OutcomeParked x \<Rightarrow> update_first (runs_operation oid) (\<lambda>_. Parked i a (settled_status num x)) hs)"
  have "write_handles u s hs' = Inr s'"
    using assms f h by (cases r) (auto simp: settle_agent_turn_def hs'_def)
  then have "handles_of u s' = Inr hs'" using write_handles_reads_back by blast
  moreover have "lookup hs' k = (if k = agent_id i then
          (case r of OutcomeTerminal x \<Rightarrow> None | OutcomeParked x \<Rightarrow> Some (Parked i a (settled_status num x)))
        else lookup hs k)" for k
    using found_first(3) [OF f d, of k] h
      found_first(2) [OF f d, of "Parked i a (settled_status num (case r of OutcomeTerminal x \<Rightarrow> x | OutcomeParked x \<Rightarrow> x))" k]
    by (cases r) (auto simp: hs'_def)
  moreover have "lookup hs (agent_id i) = Some (Running i p a)"
    using found_first(1) [OF f d] h by simp
  ultimately show ?thesis using that op by blast
qed

lemma settled_status_short: "length (settled_status num r) \<le> max_status_length"
  by (cases r) (simp_all add: length_format_agent_status, simp add: cancelled_status_def max_status_length_def)

lemma settle_never_refused:
  assumes "handles_of u s = Inr hs"
  shows "\<exists>x. settle_agent_turn u num s oid r = Inr x"
proof (cases "find (runs_operation oid) hs")
  case None
  with assms show ?thesis by (simp add: settle_agent_turn_def)
next
  case (Some h)
  have v: "valid_store u hs" using handles_of_valid [OF assms] .
  have d: "distinct (ids hs)" and all: "\<forall>h \<in> set hs. valid_handle u h"
    using v by (simp_all add: valid_store_ids)
  obtain i p a where h: "h = Running i p a" using running_found [OF Some] by metis
  have vh: "valid_handle u h" using all find_SomeD [OF Some] by blast
  have "valid_store u (remove_first (runs_operation oid) hs)"
    unfolding valid_store_ids
    using handles_valid_remove [OF all] found_first(5) [OF Some d] by blast
  moreover have "valid_store u (update_first (runs_operation oid) (\<lambda>_. Parked i a (settled_status num x)) hs)" for x
    unfolding valid_store_ids
    using handles_valid_update [OF all, of "Parked i a (settled_status num x)"]
      found_first(4) [OF Some d, of "Parked i a (settled_status num x)"] d h vh settled_status_short
    by auto
  ultimately show ?thesis
    using assms Some h by (cases r) (simp_all add: settle_agent_turn_def write_handles_eq)
qed

end
