(* ===== verification/Agent_Handle_Query.thy ===== *)
theory Agent_Handle_Query
  imports Agent_Handle_Turns
begin

text \<open>
  The driver's reads of the handle slot and the three-way merge that keeps the leases the driver
  granted while a turn ran on an older snapshot (\<open>subagents/handles/query.ts\<close>,
  \<open>subagents/handles/rebase.ts\<close>). The driver reads the stored value without the schema, so these
  definitions work on \<open>json\<close>; \<open>merge_refines\<close> shows that on stores the transitions wrote they
  compute \<open>merge_handles\<close>, whose entry-wise meaning is \<open>merge_lookup\<close>.
\<close>

section \<open>Reads\<close>

definition read_agent_handles :: "state_map option \<Rightarrow> json list" where
  "read_agent_handles s = (case jget (state_get s handles_key) ''handles'' of JArr hs \<Rightarrow> hs | _ \<Rightarrow> [])"

definition stored_id :: "json \<Rightarrow> string" where
  \<comment> \<open>\<open>handle.identity.id\<close>: a string, by the schema of every store that was written.\<close>
  "stored_id h = (case jstr (jget h ''identity'') ''id'' of Some k \<Rightarrow> k | None \<Rightarrow> [])"

fun values_equal :: "json \<Rightarrow> json \<Rightarrow> bool"
  and values_equal_items :: "json list \<Rightarrow> json list \<Rightarrow> bool"
  and values_equal_members :: "(string \<times> json) list \<Rightarrow> json \<Rightarrow> bool"
where
  "values_equal (JArr xs) (JArr ys) = (length xs = length ys \<and> values_equal_items xs ys)"
| "values_equal (JObj ps) (JObj qs) = (length ps = length qs \<and> values_equal_members ps (JObj qs))"
| "values_equal a b = strict_eq a b"
| "values_equal_items (x # xs) (y # ys) = (values_equal x y \<and> values_equal_items xs ys)"
| "values_equal_items _ _ = True"
| "values_equal_members [] q = True"
| "values_equal_members ((k, v) # ps) q = (values_equal v (jget q k) \<and> values_equal_members ps q)"

fun stored_equal :: "json option \<Rightarrow> json option \<Rightarrow> bool" where
  \<comment> \<open>\<open>handlesEqual\<close>\<close>
  "stored_equal None None = True"
| "stored_equal (Some a) (Some b) = values_equal a b"
| "stored_equal _ _ = False"

definition find_running_agent_handle :: "state_map option \<Rightarrow> string \<Rightarrow> json option" where
  "find_running_agent_handle s call = find (\<lambda>h. jget h ''phase'' = JStr ''running'' \<and>
     jget (jget h ''operation'') ''callId'' = JStr call) (read_agent_handles s)"

record action_result =
  result_kind :: string
  result_origin :: "string option"
  result_background_task :: "json option"
  result_call :: string

definition is_result_bound_to_running_handle :: "state_map option \<Rightarrow> action_result \<Rightarrow> bool" where
  "is_result_bound_to_running_handle s r =
     (if result_kind r \<noteq> ''subagent-result'' then True
      else if result_origin r = Some ''dispatch'' \<or> result_background_task r \<noteq> None then True
      else find_running_agent_handle s (result_call r) \<noteq> None)"

definition is_inbox_subagent_result_from_running_handle ::
  "state_map option \<Rightarrow> action_result \<Rightarrow> bool" where
  "is_inbox_subagent_result_from_running_handle s r \<longleftrightarrow>
     find_running_agent_handle s (result_call r) \<noteq> None"

section \<open>The merge\<close>

definition keyed :: "('a \<Rightarrow> string) \<Rightarrow> 'a list \<Rightarrow> (string \<times> 'a) list" where
  "keyed f xs = entries_map (map (\<lambda>x. (f x, x)) xs)"

fun merge_loop ::
  "('a \<Rightarrow> string) \<Rightarrow> ('a option \<Rightarrow> 'a option \<Rightarrow> bool) \<Rightarrow> (string \<times> 'a) list \<Rightarrow> (string \<times> 'a) list \<Rightarrow>
     string list \<Rightarrow> 'a list \<Rightarrow> handle_error + 'a list" where
  \<comment> \<open>The loop over the turn's handles, then the loop over the mutated ids that are left.\<close>
  "merge_loop f eq base driver mutated [] =
     Inr (concat (map (\<lambda>k. option_list (map_of driver k)) mutated))"
| "merge_loop f eq base driver mutated (h # hs) =
     (if f h \<notin> set mutated then
        bindR (merge_loop f eq base driver mutated hs) (\<lambda>r. Inr (h # r))
      else if \<not> eq (Some h) (map_of base (f h)) \<and> \<not> eq (Some h) (map_of driver (f h)) then
        Inl (OwnershipChanged (f h))
      else
        bindR (merge_loop f eq base driver (removeAll (f h) mutated) hs)
          (\<lambda>r. Inr (option_list (map_of driver (f h)) @ r)))"

definition mutated_ids ::
  "('a option \<Rightarrow> 'a option \<Rightarrow> bool) \<Rightarrow> (string \<times> 'a) list \<Rightarrow> (string \<times> 'a) list \<Rightarrow> string list" where
  "mutated_ids eq base driver =
     filter (\<lambda>k. \<not> eq (map_of base k) (map_of driver k)) (js_set (map fst base @ map fst driver))"

definition merge_task_owned_agent_handles ::
  "state_map option \<Rightarrow> state_map option \<Rightarrow> state_map option \<Rightarrow> handle_error + state_map option" where
  "merge_task_owned_agent_handles base_state driver_state turn_state =
     (let base = keyed stored_id (read_agent_handles base_state);
          driver = keyed stored_id (read_agent_handles driver_state);
          mutated = mutated_ids stored_equal base driver
      in if mutated = [] then Inr turn_state
         else bindR (merge_loop stored_id stored_equal base driver mutated
                       (read_agent_handles turn_state))
           (\<lambda>merged. Inr (Some (state_put handles_key
              (JObj [(''handles'', JArr merged)]) turn_state))))"

record durable_session_state =
  snapshot :: "harness_session option" \<comment> \<open>\<open>snapshot.session\<close>\<close>
  state_rest :: json

definition rebase_task_agent_handle_mutations ::
  "durable_session_state \<Rightarrow> durable_session_state \<Rightarrow> durable_session_state \<Rightarrow>
     handle_error + durable_session_state" where
  \<comment> \<open>The action's session state, the driver's and the base; the rest of the action is untouched.\<close>
  "rebase_task_agent_handle_mutations action_state driver_state base_state =
     (case snapshot action_state of
        None \<Rightarrow> Inl NoSnapshot
      | Some session \<Rightarrow>
          bindR (merge_task_owned_agent_handles
              (case snapshot base_state of None \<Rightarrow> None | Some b \<Rightarrow> state b)
              (case snapshot driver_state of None \<Rightarrow> None | Some d \<Rightarrow> state d)
              (state session))
            (\<lambda>merged. Inr (action_state\<lparr>snapshot := Some (session\<lparr>state := merged\<rparr>)\<rparr>)))"

section \<open>The comparison is exact on stored handles\<close>

lemma values_equal_identity [simp]:
  "values_equal (identity_json i) (identity_json i') \<longleftrightarrow> i = i'"
  by (cases i; cases i') (simp add: identity_json_def)

lemma values_equal_start [simp]:
  "values_equal (start_operation_json p) (start_operation_json p') \<longleftrightarrow> p = p'"
  by (cases p; cases p') (auto simp: start_operation_json_def)

lemma values_equal_operation [simp]:
  "values_equal (operation_json p) (operation_json p') \<longleftrightarrow> p = p'"
proof (cases p)
  case (StartOp q)
  then show ?thesis by (cases p') (simp, simp add: start_operation_json_def)
next
  case (ContinueOp q s)
  then show ?thesis
    by (cases p'; cases q) (auto simp: start_operation_json_def intro: start_operation.equality)
qed

lemma values_equal_target [simp]:
  "values_equal (start_target_json t) (start_target_json t') \<longleftrightarrow> t = t'"
proof (cases t)
  case (RemoteTarget url cb cr)
  show ?thesis
  proof (cases t')
    case (RemoteTarget url' cb' cr')
    with \<open>t = _\<close> show ?thesis
      by (cases cr rule: credential_json.cases; cases cr' rule: credential_json.cases) auto
  qed (use RemoteTarget in \<open>cases cr rule: credential_json.cases; simp\<close>)+
qed (cases t'; auto)+

lemma values_equal_address [simp]:
  "values_equal (address_json a) (address_json a') \<longleftrightarrow> a = a'"
proof (cases a)
  case (RemoteAddress s url cb cr)
  show ?thesis
  proof (cases a')
    case (RemoteAddress s' url' cb' cr')
    with \<open>a = _\<close> show ?thesis
      by (cases cr rule: credential_json.cases; cases cr' rule: credential_json.cases) auto
  qed (use RemoteAddress in \<open>cases cr rule: credential_json.cases; simp\<close>)+
qed (cases a'; auto)+

lemma values_equal_call [simp]: "values_equal (call_json c) (call_json c') \<longleftrightarrow> c = c'"
  by (cases c; cases c') auto

lemma values_equal_handle [simp]:
  "values_equal (handle_json h) (handle_json h') \<longleftrightarrow> h = h'"
  by (cases h; cases h') auto

lemma stored_equal_handle [simp]:
  "stored_equal (map_option handle_json x) (map_option handle_json y) \<longleftrightarrow> x = y"
  by (cases x; cases y) simp_all

lemma stored_id_handle [simp]: "stored_id (handle_json h) = handle_id h"
  by (cases h) (simp_all add: stored_id_def identity_json_def jstr_def)

section \<open>What the merge computes\<close>

definition merge_handles ::
  "handle_store \<Rightarrow> handle_store \<Rightarrow> handle_store \<Rightarrow> handle_error + handle_store" where
  "merge_handles base driver turn =
     (let b = keyed handle_id base; d = keyed handle_id driver; m = mutated_ids (=) b d
      in if m = [] then Inr turn else merge_loop handle_id (=) b d m turn)"

lemma map_of_keyed: "distinct (ids hs) \<Longrightarrow> map_of (keyed handle_id hs) k = lookup hs k"
proof -
  assume d: "distinct (ids hs)"
  have "map_of (map (\<lambda>x. (handle_id x, x)) hs) k = lookup hs k"
    by (induction hs) auto
  moreover have "distinct (map fst (map (\<lambda>x. (handle_id x, x)) hs))"
    using d by (simp add: ids_def comp_def)
  ultimately show ?thesis
    by (simp add: keyed_def map_of_entries_map_distinct del: entries_map.simps)
qed

lemma mutated_iff:
  "k \<in> set (mutated_ids (=) b d) \<longleftrightarrow> map_of b k \<noteq> map_of d k"
proof -
  have "map_of b k \<noteq> map_of d k \<Longrightarrow> k \<in> set (map fst b) \<or> k \<in> set (map fst d)"
    using map_of_eq_None_iff [of b k] map_of_eq_None_iff [of d k] by auto
  then show ?thesis by (auto simp: mutated_ids_def)
qed

lemma distinct_mutated [simp]: "distinct (mutated_ids eq b d)"
  by (simp add: mutated_ids_def)

lemma ids_append [simp]: "ids (xs @ ys) = ids xs @ ids ys"
  by (simp add: ids_def)

lemma ids_simps [simp]: "ids [] = []" "ids (h # hs) = handle_id h # ids hs"
  by (simp_all add: ids_def)

lemma lookup_option_list:
  "(\<And>h. x = Some h \<Longrightarrow> handle_id h = j) \<Longrightarrow>
     lookup (option_list x @ hs) k = (if k = j \<and> x \<noteq> None then x else lookup hs k)"
  by (cases x) (auto simp: option_list_def)

lemma rest_lookup:
  assumes "\<forall>k h. map_of d k = Some h \<longrightarrow> handle_id h = k" and "distinct ms"
  shows "lookup (concat (map (\<lambda>k. option_list (map_of d k)) ms)) k =
      (if k \<in> set ms then map_of d k else None)"
    and "distinct (ids (concat (map (\<lambda>k. option_list (map_of d k)) ms)))"
    and "set (ids (concat (map (\<lambda>k. option_list (map_of d k)) ms))) \<subseteq> set ms"
proof -
  show sub: "set (ids (concat (map (\<lambda>k. option_list (map_of d k)) ms))) \<subseteq> set ms" for ms
    by (induction ms) (auto simp: option_list_def assms(1) split: option.splits)
  show "lookup (concat (map (\<lambda>k. option_list (map_of d k)) ms)) k =
      (if k \<in> set ms then map_of d k else None)"
    by (induction ms) (auto simp: option_list_def assms(1) split: option.splits)
  show "distinct (ids (concat (map (\<lambda>k. option_list (map_of d k)) ms)))"
    using assms(2)
  proof (induction ms)
    case (Cons m ms)
    with sub [of ms] show ?case by (auto simp: option_list_def assms(1) split: option.splits)
  qed simp
qed

lemma merge_loop_spec:
  assumes "\<forall>k h. map_of d k = Some h \<longrightarrow> handle_id h = k"
    and "distinct ms" and "distinct (ids hs)"
    and "merge_loop handle_id (=) b d ms hs = Inr r"
  shows "lookup r k = (if k \<in> set ms then map_of d k else lookup hs k) \<and> distinct (ids r)
    \<and> set (ids r) \<subseteq> set ms \<union> set (ids hs)"
  using assms(2-)
proof (induction hs arbitrary: ms r)
  case Nil
  with rest_lookup [OF assms(1), of ms] show ?case by auto
next
  case (Cons h hs)
  show ?case
  proof (cases "handle_id h \<in> set ms")
    case False
    with Cons.prems obtain r' where r': "merge_loop handle_id (=) b d ms hs = Inr r'" "r = h # r'"
      by auto
    with Cons.IH [OF _ _ r'(1)] Cons.prems False show ?thesis by auto
  next
    case True
    with Cons.prems obtain r' where
      r': "merge_loop handle_id (=) b d (removeAll (handle_id h) ms) hs = Inr r'"
        "r = option_list (map_of d (handle_id h)) @ r'"
      by (auto split: if_splits)
    have ih: "lookup r' k = (if k \<in> set (removeAll (handle_id h) ms) then map_of d k else lookup hs k)"
      "distinct (ids r')" "set (ids r') \<subseteq> set (removeAll (handle_id h) ms) \<union> set (ids hs)"
      using Cons.IH [OF _ _ r'(1)] Cons.prems by (auto simp: distinct_removeAll)
    have none: "lookup hs (handle_id h) = None"
      using Cons.prems by (simp add: lookup_None_iff)
    have "lookup r k = (if k \<in> set ms then map_of d k else lookup (h # hs) k)"
      using ih(1) True none lookup_option_list [of "map_of d (handle_id h)" "handle_id h" r' k]
        assms(1) by (auto simp: r'(2))
    moreover have "distinct (ids r)" "set (ids r) \<subseteq> set ms \<union> set (ids (h # hs))"
      using ih(2,3) Cons.prems True by (auto simp: r'(2) option_list_def assms(1) split: option.splits)
    ultimately show ?thesis by simp
  qed
qed

lemma merge_loop_throws:
  assumes "distinct (ids hs)"
  shows "(\<exists>e. merge_loop handle_id (=) b d ms hs = Inl e) \<longleftrightarrow>
    (\<exists>h \<in> set hs. handle_id h \<in> set ms \<and> map_of b (handle_id h) \<noteq> Some h \<and> map_of d (handle_id h) \<noteq> Some h)"
  using assms
proof (induction hs arbitrary: ms)
  case (Cons h hs)
  have keep: "h' \<in> set hs \<Longrightarrow> handle_id h' \<noteq> handle_id h" for h'
    using Cons.prems by (metis distinct.simps(2) ids_def image_eqI list.set_map list.simps(9))
  show ?case
  proof (cases "handle_id h \<in> set ms")
    case False
    with Cons.IH [of ms] Cons.prems show ?thesis by (auto simp: bindR_eq_Inl)
  next
    case True
    with Cons.IH [of "removeAll (handle_id h) ms"] Cons.prems keep show ?thesis
      by (auto simp: bindR_eq_Inl)
  qed
qed simp

lemma keyed_ids: "distinct (ids hs) \<Longrightarrow> \<forall>k h. map_of (keyed handle_id hs) k = Some h \<longrightarrow> handle_id h = k"
  by (simp add: map_of_keyed lookup_SomeD)

lemma merge_lookup:
  assumes "distinct (ids base)" "distinct (ids driver)" "distinct (ids turn)"
    and "merge_handles base driver turn = Inr r"
  shows "lookup r k = (if lookup driver k \<noteq> lookup base k then lookup driver k else lookup turn k)"
    and "distinct (ids r)"
proof -
  let ?b = "keyed handle_id base" and ?d = "keyed handle_id driver"
  let ?m = "mutated_ids (=) ?b ?d"
  have m: "k \<in> set ?m \<longleftrightarrow> lookup driver k \<noteq> lookup base k" for k
    using assms(1,2) by (auto simp: mutated_iff map_of_keyed)
  have "lookup r k = (if k \<in> set ?m then lookup driver k else lookup turn k) \<and> distinct (ids r)"
  proof (cases "?m = []")
    case True
    with assms(3,4) show ?thesis by (simp add: merge_handles_def)
  next
    case False
    with assms(4) have "merge_loop handle_id (=) ?b ?d ?m turn = Inr r"
      by (simp add: merge_handles_def Let_def)
    from merge_loop_spec [OF keyed_ids [OF assms(2)] _ assms(3) this, of k] assms(2) show ?thesis
      by (simp add: map_of_keyed)
  qed
  with m show "lookup r k = (if lookup driver k \<noteq> lookup base k then lookup driver k else lookup turn k)"
    and "distinct (ids r)" by simp_all
qed

lemma merge_throws:
  assumes "distinct (ids base)" "distinct (ids driver)" "distinct (ids turn)"
  shows "(\<exists>e. merge_handles base driver turn = Inl e) \<longleftrightarrow>
    (\<exists>k h. lookup turn k = Some h \<and> lookup driver k \<noteq> lookup base k \<and>
       lookup base k \<noteq> Some h \<and> lookup driver k \<noteq> Some h)"
proof -
  let ?b = "keyed handle_id base" and ?d = "keyed handle_id driver"
  let ?m = "mutated_ids (=) ?b ?d"
  have m: "k \<in> set ?m \<longleftrightarrow> lookup driver k \<noteq> lookup base k" for k
    using assms(1,2) by (auto simp: mutated_iff map_of_keyed)
  have "(\<exists>e. merge_handles base driver turn = Inl e) \<longleftrightarrow>
      (\<exists>h \<in> set turn. handle_id h \<in> set ?m \<and> lookup base (handle_id h) \<noteq> Some h \<and>
         lookup driver (handle_id h) \<noteq> Some h)"
    using merge_loop_throws [OF assms(3), of ?b ?d ?m] assms(1,2)
    by (cases "?m = []") (simp_all add: merge_handles_def map_of_keyed Let_def)
  also have "\<dots> \<longleftrightarrow> (\<exists>k h. lookup turn k = Some h \<and> k \<in> set ?m \<and> lookup base k \<noteq> Some h \<and>
      lookup driver k \<noteq> Some h)" (is "?L \<longleftrightarrow> ?R")
  proof
    assume ?L
    then obtain h where "h \<in> set turn" and "handle_id h \<in> set ?m"
      "lookup base (handle_id h) \<noteq> Some h" "lookup driver (handle_id h) \<noteq> Some h" by blast
    then show ?R using lookup_in [OF assms(3)] by blast
  next
    assume ?R
    then obtain k h where "lookup turn k = Some h" "k \<in> set ?m"
      "lookup base k \<noteq> Some h" "lookup driver k \<noteq> Some h" by blast
    then show ?L using lookup_SomeD [of turn k h] by blast
  qed
  finally show ?thesis by (simp only: m)
qed

section \<open>The stored merge is the merge of handles\<close>

lemma map_snd_update:
  "map (\<lambda>(k, v). (k, g v)) (AList.update k v xs) = AList.update k (g v) (map (\<lambda>(k, v). (k, g v)) xs)"
  by (induction xs) auto

lemma entries_map_values:
  "entries_map (map (\<lambda>(k, v). (k, g v)) xs) = map (\<lambda>(k, v). (k, g v)) (entries_map xs)"
proof -
  have "foldl (\<lambda>m (k, v). AList.update k v m) (map (\<lambda>(k, v). (k, g v)) m) (map (\<lambda>(k, v). (k, g v)) xs) =
      map (\<lambda>(k, v). (k, g v)) (foldl (\<lambda>m (k, v). AList.update k v m) m xs)" for m
  proof (induction xs arbitrary: m)
    case (Cons x xs)
    obtain k v where x: "x = (k, v)" by force
    show ?case using Cons.IH [of "AList.update k v m"] by (simp add: x map_snd_update)
  qed simp
  from this [of "[]"] show ?thesis by simp
qed

lemma keyed_stored:
  "keyed stored_id (map handle_json hs) = map (\<lambda>(k, v). (k, handle_json v)) (keyed handle_id hs)"
  using entries_map_values [of handle_json "map (\<lambda>h. (handle_id h, h)) hs"]
  by (simp add: keyed_def comp_def del: entries_map.simps)

lemma map_of_stored: "map_of (map (\<lambda>(k, v). (k, handle_json v)) m) k = map_option handle_json (map_of m k)"
  by (simp add: map_of_map)

lemma fst_stored: "map fst (map (\<lambda>(k, v). (k, handle_json v)) m) = map fst m"
  by auto

lemma mutated_stored:
  "mutated_ids stored_equal (map (\<lambda>(k, v). (k, handle_json v)) b) (map (\<lambda>(k, v). (k, handle_json v)) d) =
     mutated_ids (=) b d"
  by (simp only: mutated_ids_def map_of_stored fst_stored stored_equal_handle)

lemma merge_loop_stored:
  "merge_loop stored_id stored_equal (map (\<lambda>(k, v). (k, handle_json v)) b)
      (map (\<lambda>(k, v). (k, handle_json v)) d) ms (map handle_json hs) =
     bindR (merge_loop handle_id (=) b d ms hs) (\<lambda>r. Inr (map handle_json r))"
proof (induction hs arbitrary: ms)
  case Nil
  have "option_list (map_option handle_json x) = map handle_json (option_list x)" for x
    by (cases x) (simp_all add: option_list_def)
  then show ?case by (simp add: map_of_stored map_concat comp_def)
next
  case (Cons h hs)
  have o: "option_list (map_option handle_json x) = map handle_json (option_list x)" for x
    by (cases x) (simp_all add: option_list_def)
  have e: "stored_equal (Some (handle_json h)) (map_option handle_json x) \<longleftrightarrow> Some h = x" for x
    using stored_equal_handle [of "Some h" x] by simp
  show ?case
    by (cases "merge_loop handle_id (=) b d ms hs";
        cases "merge_loop handle_id (=) b d (removeAll (handle_id h) ms) hs")
      (simp_all add: Cons.IH map_of_stored e o)
qed

lemma read_agent_handles_store:
  "state_get s handles_key = store_json hs \<Longrightarrow> read_agent_handles s = map handle_json hs"
  by (simp add: read_agent_handles_def store_json_def)

lemma merge_refines:
  assumes "state_get base handles_key = store_json b" "state_get driver handles_key = store_json d"
    and "state_get turn handles_key = store_json t"
  shows "merge_task_owned_agent_handles base driver turn =
    (if mutated_ids (=) (keyed handle_id b) (keyed handle_id d) = [] then Inr turn
     else bindR (merge_handles b d t) (\<lambda>r. Inr (Some (state_put handles_key (store_json r) turn))))"
  using assms
  by (cases "merge_loop handle_id (=) (keyed handle_id b) (keyed handle_id d)
        (mutated_ids (=) (keyed handle_id b) (keyed handle_id d)) t")
    (simp_all add: merge_task_owned_agent_handles_def read_agent_handles_store keyed_stored
      mutated_stored merge_loop_stored merge_handles_def store_json_def Let_def)

lemma merge_reads:
  assumes "get_agent_handle_store u base = Inr (Some b)" and "state_get base handles_key = store_json b"
    and "get_agent_handle_store u driver = Inr (Some d)" and "state_get driver handles_key = store_json d"
    and "get_agent_handle_store u turn = Inr (Some t)" and "state_get turn handles_key = store_json t"
    and "merge_task_owned_agent_handles base driver turn = Inr merged"
  shows "\<exists>r. read_agent_handles merged = map handle_json r \<and> valid_store u r \<and>
     (\<forall>k. lookup r k = (if lookup d k \<noteq> lookup b k then lookup d k else lookup t k))"
proof -
  have v: "valid_store u b" "valid_store u d" "valid_store u t"
    using assms(1,3,5) get_agent_handle_store_valid by blast+
  then have dist: "distinct (ids b)" "distinct (ids d)" "distinct (ids t)"
    by (simp_all add: valid_store_ids)
  note ref = merge_refines [OF assms(2,4,6)]
  have "\<exists>r. merge_handles b d t = Inr r \<and> read_agent_handles merged = map handle_json r"
  proof (cases "mutated_ids (=) (keyed handle_id b) (keyed handle_id d) = []")
    case True
    with ref assms(6,7) show ?thesis
      by (simp add: merge_handles_def read_agent_handles_store)
  next
    case False
    with ref assms(7) obtain r where "merge_handles b d t = Inr r"
      and "merged = Some (state_put handles_key (store_json r) turn)"
      by (cases "merge_handles b d t") auto
    then show ?thesis by (simp add: read_agent_handles_store)
  qed
  then obtain r where r: "merge_handles b d t = Inr r" "read_agent_handles merged = map handle_json r"
    by blast
  note m = merge_lookup [OF dist r(1)]
  have "valid_handle u h" if "h \<in> set r" for h
  proof -
    have "lookup r (handle_id h) = Some h" using lookup_in [OF m(2) that] .
    then have "lookup d (handle_id h) = Some h \<or> lookup t (handle_id h) = Some h"
      using m(1) [of "handle_id h"] by (auto split: if_splits)
    then show ?thesis using v by (auto simp: valid_store_ids dest: lookup_SomeD)
  qed
  with m r(2) show ?thesis by (auto simp: valid_store_ids)
qed

end
