(* ===== verification/Task_Delivery.thy ===== *)
theory Task_Delivery
  imports Task_Index
begin

text \<open>
  What the parent tells its model about background tasks (\<open>tasks/delivery-context.ts\<close>), the
  delivery policy (\<open>tasks/delivery-policy.ts\<close>), and the task id and inbox token
  (\<open>tasks/task-id.ts\<close>, \<open>tasks/task-inbox-token.ts\<close>). The hex digest of SHA-256 is the parameter
  \<open>sha\<close>; the prose of the instructions is the datatype \<open>policy_instruction\<close>.
\<close>

section \<open>Delivery context\<close>

datatype delivery_phase = PhaseNone | Initiating | Pending | Settled_Cohort

fun task_status_text :: "task_state \<Rightarrow> string" where
  "task_status_text Working = ''working''"
| "task_status_text (InputRequired rs) = ''input_required''"
| "task_status_text (Completed d) = ''completed''"
| "task_status_text (TaskFailed d) = ''failed''"
| "task_status_text TaskCancelled = ''cancelled''"

fun last_output :: "task_state \<Rightarrow> json" where
  "last_output (Completed d) = JObj [(''data'', d), (''type'', JStr ''result'')]"
| "last_output (TaskFailed d) = JObj [(''data'', d), (''type'', JStr ''error'')]"
| "last_output _ = JUndef"

definition cohort_task_json :: "bool \<Rightarrow> index_entry \<Rightarrow> json" where
  "cohort_task_json settled e = JObj [
     (''name'', JStr (meta_name (entry_metadata e))),
     (''output'', if settled then (case terminal_cache e of Some v \<Rightarrow> last_output (status v) | None \<Rightarrow> JUndef)
        else JUndef),
     (''status'', JStr (case terminal_cache e of Some v \<Rightarrow> task_status_text (status v) | None \<Rightarrow> ''pending'')),
     (''taskId'', JStr (entry_task e))]"

definition delivery_label :: string where
  "delivery_label = ''[Task state]''"

definition project_task_cohort :: "(rat \<Rightarrow> string) \<Rightarrow> index_entry list \<Rightarrow> string \<times> delivery_phase" where
  "project_task_cohort num cohort =
     (let settled = list_all (\<lambda>e. terminal_cache e \<noteq> None) cohort;
          tasks = map (cohort_task_json settled) cohort
      in (delivery_label @ [CHR 0x0A] @
            (case json_text num (JObj [(''tasks'', JArr tasks)]) of Some t \<Rightarrow> t | None \<Rightarrow> ''undefined''),
          if settled then Settled_Cohort else Pending))"

definition resolve_task_delivery_context ::
  "(rat \<Rightarrow> string) \<Rightarrow> state_map option \<Rightarrow> string \<Rightarrow> index_error + (string \<times> delivery_phase) option" where
  "resolve_task_delivery_context num s delivery =
     bindR (get_session_task_index s) (\<lambda>es.
       case find (\<lambda>e. prefix (entry_task e @ '':'') delivery) es of
         None \<Rightarrow> Inr None
       | Some d \<Rightarrow> Inr (Some (project_task_cohort num (filter (\<lambda>e. created_turn e = created_turn d) es))))"

definition resolve_initiating_task_context ::
  "(rat \<Rightarrow> string) \<Rightarrow> state_map option \<Rightarrow> string \<Rightarrow> index_error + (string \<times> delivery_phase) option" where
  "resolve_initiating_task_context num s turn =
     bindR (get_session_task_index s) (\<lambda>es.
       let cohort = filter (\<lambda>e. created_turn e = turn) es in
       if \<not> list_ex (\<lambda>e. entry_executor e \<noteq> None \<and> terminal_cache e = None) cohort then Inr None
       else Inr (Some (fst (project_task_cohort num cohort), Initiating)))"

text \<open>What a pending cohort may show of an entry.\<close>

definition shown :: "index_entry \<Rightarrow> string \<times> string option \<times> string" where
  "shown e = (meta_name (entry_metadata e), map_option (\<lambda>v. task_status_text (status v)) (terminal_cache e),
     entry_task e)"

lemma shown_pending: "shown e = shown e' \<Longrightarrow> cohort_task_json False e = cohort_task_json False e'"
  by (cases "terminal_cache e"; cases "terminal_cache e'"; simp add: shown_def cohort_task_json_def)

lemma shown_pending_all:
  "map shown es = map shown es' \<Longrightarrow> map (cohort_task_json False) es = map (cohort_task_json False) es'"
proof (induction es arbitrary: es')
  case (Cons e es)
  then obtain e' rest where es': "es' = e' # rest" by (cases es') auto
  with Cons.prems shown_pending [of e e'] Cons.IH [of rest] show ?case by simp
qed simp

lemma shown_cached: "map shown es = map shown es' \<Longrightarrow>
    list_all (\<lambda>e. terminal_cache e \<noteq> None) es = list_all (\<lambda>e. terminal_cache e \<noteq> None) es'"
proof (induction es arbitrary: es')
  case (Cons e es)
  then obtain e' rest where es': "es' = e' # rest" by (cases es') auto
  with Cons.prems have "terminal_cache e = None \<longleftrightarrow> terminal_cache e' = None"
    by (cases "terminal_cache e"; cases "terminal_cache e'") (simp_all add: shown_def)
  with Cons.IH [of rest] Cons.prems es' show ?case by (simp del: not_None_eq)
qed simp

lemma pending_cohort_blind:
  assumes "map shown es = map shown es'" and "e \<in> set es" and "terminal_cache e = None"
  shows "project_task_cohort num es = project_task_cohort num es'"
proof -
  have p: "\<not> list_all (\<lambda>e. terminal_cache e \<noteq> None) es" using assms(2,3) by (auto simp: list_all_iff)
  have "map (cohort_task_json False) es = map (cohort_task_json False) es'"
    using assms(1) by (rule shown_pending_all)
  then show ?thesis
    unfolding project_task_cohort_def Let_def shown_cached [OF assms(1), symmetric] using p by (simp only: if_False)
qed

section \<open>Delivery policy\<close>

datatype policy_instruction = ConditionalText | InitiatingText | PendingText | SettledText

record delivery_policy =
  allows_empty_delivery :: bool
  instruction :: "policy_instruction option"

definition resolve_delivery_policy ::
  "bool \<Rightarrow> bool \<Rightarrow> bool \<Rightarrow> bool \<Rightarrow> delivery_phase option \<Rightarrow> delivery_policy" where
  "resolve_delivery_policy has_schema is_child first_turn scheduled phase =
     (if has_schema \<or> is_child then \<lparr>allows_empty_delivery = False, instruction = None\<rparr>
      else if phase = Some Pending then \<lparr>allows_empty_delivery = True, instruction = Some PendingText\<rparr>
      else if phase = Some Settled_Cohort then \<lparr>allows_empty_delivery = False, instruction = Some SettledText\<rparr>
      else if first_turn \<and> scheduled then \<lparr>allows_empty_delivery = True, instruction = Some ConditionalText\<rparr>
      else if phase = Some Initiating then \<lparr>allows_empty_delivery = False, instruction = Some InitiatingText\<rparr>
      else \<lparr>allows_empty_delivery = False, instruction = None\<rparr>)"

section \<open>Ids and tokens\<close>

definition derive_task_id :: "(string \<Rightarrow> string) \<Rightarrow> string \<Rightarrow> string \<Rightarrow> string \<Rightarrow> string" where
  "derive_task_id sha session turn call =
     ''task_'' @ take 24 (sha (session @ [CHR 0x00] @ turn @ [CHR 0x00] @ call))"

definition derive_task_inbox_token :: "(string \<Rightarrow> string) \<Rightarrow> string \<Rightarrow> string \<Rightarrow> string" where
  "derive_task_inbox_token sha continuation t =
     ''task:'' @ t @ '':'' @ take 32 (sha (t @ [CHR 0x00] @ continuation))"

definition is_hex :: "char \<Rightarrow> bool" where
  "is_hex c \<longleftrightarrow> c \<in> set ''0123456789abcdef''"

definition read_task_id_from_inbox_token :: "string \<Rightarrow> string option" where
  \<comment> \<open>\<open>^task:(task_[^:]+):[a-f0-9]{32}$\<close>: the id cannot contain the colon that ends it.\<close>
  "read_task_id_from_inbox_token token =
     (let rest = drop 5 token;
          t = takeWhile (\<lambda>c. c \<noteq> CHR '':'') rest;
          tail = drop (length t) rest
      in if prefix ''task:'' token \<and> prefix ''task_'' t \<and> length t > 5 \<and>
            length tail = 33 \<and> hd tail = CHR '':'' \<and> list_all is_hex (tl tail)
         then Some t else None)"

definition hex_digest :: "(string \<Rightarrow> string) \<Rightarrow> bool" where
  \<comment> \<open>What \<open>digest("hex")\<close> of SHA-256 returns: 64 lower-case hexadecimal digits.\<close>
  "hex_digest sha \<longleftrightarrow> (\<forall>s. length (sha s) = 64 \<and> list_all is_hex (sha s))"

lemma not_hex_colon [simp]: "is_hex c \<Longrightarrow> c \<noteq> CHR '':''"
  by (auto simp: is_hex_def)

lemma hex_taken: "hex_digest sha \<Longrightarrow> list_all is_hex (take n (sha s))"
  by (auto simp: hex_digest_def list_all_iff dest: in_set_takeD)

lemma inbox_token_roundtrip:
  assumes "hex_digest sha" and "t = derive_task_id sha session turn call"
  shows "read_task_id_from_inbox_token (derive_task_inbox_token sha continuation t) = Some t"
proof -
  define h where "h = take 24 (sha (session @ [CHR 0x00] @ turn @ [CHR 0x00] @ call))"
  define g where "g = take 32 (sha (t @ [CHR 0x00] @ continuation))"
  have t: "t = ''task_'' @ h" using assms(2) by (simp add: derive_task_id_def h_def)
  have h: "length h = 24" "list_all is_hex h" and g: "length g = 32" "list_all is_hex g"
    using assms(1) hex_taken [OF assms(1)] by (simp_all add: h_def g_def hex_digest_def)
  have "\<forall>c \<in> set h. c \<noteq> CHR '':''" using h(2) not_hex_colon by (auto simp: list_all_iff)
  then have tw: "takeWhile (\<lambda>c. c \<noteq> CHR '':'') (t @ CHR '':'' # g) = t"
    by (simp add: t takeWhile_append2)
  have "derive_task_inbox_token sha continuation t = ''task:'' @ t @ CHR '':'' # g"
    by (simp add: derive_task_inbox_token_def g_def)
  then show ?thesis
    using tw h g by (simp add: read_task_id_from_inbox_token_def Let_def, simp add: t)
qed

end
