(* ===== verification/Input_Resolution_Props.thy ===== *)
theory Input_Resolution_Props
  imports Input_Resolution
begin

text \<open>
  What the resolution of pending input guarantees: no response is lost, batches leave the pending list
  only when they are resolved, an approval is resolved alone at the tail of the transcript and only
  when every approval of its batch is answered, and a tool counts as approved only by an explicit
  approval.
\<close>

section \<open>Canonical responses\<close>

lemma map_of_response_map: "map_of (response_map rs) k = map_of (rev (map (\<lambda>r. (request_id r, r)) rs)) k"
  unfolding response_map_def by (simp only: map_of_entries_map)

lemma distinct_entries_map: "distinct (map fst (entries_map xs))"
proof -
  have "distinct (map fst m) \<Longrightarrow> distinct (map fst (foldl (\<lambda>m (k, v). AList.update k v m) m xs))" for m
    by (induction xs arbitrary: m) (auto simp: distinct_update)
  then show ?thesis by simp
qed

lemma canonical_iff:
  "r \<in> set (canonicalize_input_responses rs) \<longleftrightarrow>
     map_of (rev (map (\<lambda>r. (request_id r, r)) rs)) (request_id r) = Some r"
proof -
  have fst: "k = request_id v" if "(k, v) \<in> set (response_map rs)" for k v
  proof -
    have "map_of (response_map rs) k = Some v"
      using that by (simp add: response_map_def distinct_entries_map map_of_is_SomeI del: entries_map.simps)
    then show ?thesis by (auto simp: map_of_response_map dest!: map_of_SomeD)
  qed
  have "r \<in> set (canonicalize_input_responses rs) \<longleftrightarrow> (request_id r, r) \<in> set (response_map rs)"
    using fst by (force simp: canonicalize_input_responses_def)
  also have "\<dots> \<longleftrightarrow> map_of (response_map rs) (request_id r) = Some r"
    by (simp add: response_map_def distinct_entries_map map_of_eq_Some_iff del: entries_map.simps)
  finally show ?thesis by (simp add: map_of_response_map)
qed

lemma canonical_sub: "set (canonicalize_input_responses rs) \<subseteq> set rs"
proof
  fix r assume "r \<in> set (canonicalize_input_responses rs)"
  then show "r \<in> set rs" by (auto simp: canonical_iff dest!: map_of_SomeD)
qed

lemma canonical_append:
  assumes "r \<in> set (canonicalize_input_responses xs)" and "request_id r \<notin> request_id ` set ys"
  shows "r \<in> set (canonicalize_input_responses (xs @ ys))"
proof -
  have "map_of (rev (map (\<lambda>r. (request_id r, r)) ys)) (request_id r) = None"
    using assms(2) by (force simp: map_of_eq_None_iff)
  with assms(1) show ?thesis by (simp add: canonical_iff map_add_def)
qed

lemma text_response_id:
  "resolve_text_to_response t q = Some r \<Longrightarrow> request_id r = request_id q"
  by (auto simp: resolve_text_to_response_def Let_def request_id_def jstr_def split: if_splits option.splits)

lemma responses_of_compact [simp]: "responses_of (Some (compact_step_input i)) = responses_of i"
  by (cases i) (auto simp: responses_of_def compact_step_input_def empty_input_def or_empty_def split: option.split)

lemma canonical_text_input:
  assumes "r \<in> set (canonicalize_input_responses (responses_of i))"
  shows "r \<in> set (canonicalize_input_responses (responses_of (resolve_text_message_input b i)))"
proof (cases "resolve_text_message_input b i = i")
  case False
  then obtain s t where i: "i = Some s" and t: "message s = Some (Text t)"
    by (auto simp: resolve_text_message_input_def split: option.splits user_content.splits)
  define rs where "rs = resolve_text_to_responses t (filter (\<lambda>q. request_id q \<notin>
      set (case strings_of (batch_auth_required b) of Some xs \<Rightarrow> xs | None \<Rightarrow> [])) (batch_requests b))"
  have none: "\<not> list_ex (\<lambda>r. request_id r \<in> set (batch_ids b)) (or_empty (input_responses s))"
    and ri: "responses_of (resolve_text_message_input b i) = or_empty (input_responses s) @ rs"
    using False by (auto simp: resolve_text_message_input_def i t rs_def Let_def responses_of_def [of "Some _"]
        or_empty_def [of "Some _"] compact_step_input_def split: if_splits)
  have "request_id x \<in> set (batch_ids b)" if x: "x \<in> set rs" for x
  proof -
    from x obtain q where "q \<in> set (batch_requests b)" "resolve_text_to_response t q = Some x"
      by (auto simp: rs_def resolve_text_to_responses_def List.map_filter_def)
    then show ?thesis by (simp add: batch_ids_def text_response_id)
  qed
  moreover have "r \<in> set (or_empty (input_responses s))"
    using assms canonical_sub by (auto simp: i responses_of_def)
  ultimately have "request_id r \<notin> request_id ` set rs"
    using none by (auto simp: list_ex_iff)
  with assms show ?thesis unfolding ri by (intro canonical_append) (simp_all add: i responses_of_def)
qed (use assms in simp)

section \<open>No response is lost\<close>

lemma approved_key_differs [simp]:
  "approved_tools_key \<noteq> pending_batches_key" "approved_tools_key \<noteq> legacy_batch_key"
  "approved_tools_key \<noteq> deferred_input_key" "deferred_input_key \<noteq> approved_tools_key"
  by (simp_all add: approved_tools_key_def pending_batches_key_def legacy_batch_key_def deferred_input_key_def)

lemma read_step_input_storable [simp]: "storable (read_step_input j)"
  by (simp add: storable_def read_step_input_def split: json.split)

lemma deferred_storable: "get_deferred_step_input session = Some d \<Longrightarrow> storable d"
  by (auto simp: get_deferred_step_input_def Let_def split: if_splits)

lemma merged_storable:
  "storable i \<Longrightarrow> storable (merged_deferred (get_deferred_step_input session) i)"
  by (cases "get_deferred_step_input session")
    (auto simp: merged_deferred_def coalesce_turn_inputs_def storable_def split: option.split
      dest: deferred_storable)

lemma queue_keeps:
  assumes "storable d" and "r \<in> set (or_empty (input_responses d))"
  shows "r \<in> set (responses_of (get_deferred_step_input (queue_deferred_step_input session d)))"
  using queue_reads_back(1) [OF merged_storable [OF assms(1)], of session] assms(2)
  by (cases "get_deferred_step_input session")
    (simp_all add: responses_of_def merged_deferred_def coalesce_turn_inputs_def)

lemma queue_recorded [simp]:
  "read_recorded_approved_tools (queue_deferred_step_input session d) = read_recorded_approved_tools session"
  by (simp add: read_recorded_approved_tools_def queue_deferred_step_input_def Let_def)

lemma queue_pending [simp]:
  "storable d \<Longrightarrow> get_pending_input_batches (state (queue_deferred_step_input session d)) =
     get_pending_input_batches (state session)"
  by (rule queue_reads_back(2) [OF merged_storable])

lemma pending_of_position:
  assumes "b \<in> set (pending_of bs)" and "c \<in> set (pending_of bs)"
  shows "fst b = fst c \<longleftrightarrow> b = c"
  using assms by (auto simp: pending_of_def in_set_enumerate_eq prod_eq_iff)

lemma remove_members:
  assumes "get_pending_input_batches (state session) = Inr stored"
    and "set removed \<subseteq> set (pending_of stored)" and "remove_pending_input_batches session removed = Inr s"
  shows "get_pending_input_batches (state s) = Inr (map snd (filter (\<lambda>b. b \<notin> set removed) (pending_of stored)))"
    and "get_deferred_step_input s = get_deferred_step_input session"
proof -
  have "filter (\<lambda>p. fst p \<notin> set (map fst removed)) (pending_of stored) =
      filter (\<lambda>b. b \<notin> set removed) (pending_of stored)"
  proof (rule filter_cong [OF refl])
    fix p assume p: "p \<in> set (pending_of stored)"
    show "(fst p \<notin> set (map fst removed)) = (p \<notin> set removed)"
      using pending_of_position [OF p] assms(2) by (auto simp: image_iff)
  qed
  with remove_pending_reads_back [OF assms(1), of removed] assms(3)
  show "get_pending_input_batches (state s) = Inr (map snd (filter (\<lambda>b. b \<notin> set removed) (pending_of stored)))"
    and "get_deferred_step_input s = get_deferred_step_input session" by auto
qed

text \<open>
  The session after a resolution: the pending batches are some of the stored ones, and a response to
  one of them waits in the deferred input.
\<close>

definition accounted :: "batch list \<Rightarrow> json list \<Rightarrow> 'a stateful_scheme \<Rightarrow> bool" where
  "accounted stored rs session \<longleftrightarrow> (\<exists>kept. get_pending_input_batches (state session) = Inr (map snd kept) \<and>
     set kept \<subseteq> set (pending_of stored) \<and>
     (\<forall>r \<in> set rs. \<forall>b \<in> set kept. request_id r \<in> set (batch_ids (snd b)) \<longrightarrow>
        r \<in> set (responses_of (get_deferred_step_input session))))"

lemma responses_for_batches_mem:
  "r \<in> set rs \<Longrightarrow> b \<in> set bs \<Longrightarrow> request_id r \<in> set (batch_ids (snd b)) \<Longrightarrow>
     r \<in> set (responses_for_batches rs bs)"
  by (force simp: responses_for_batches_def list_ex_iff batch_ids_def)

lemma map_snd_pending [simp]: "map snd (pending_of bs) = bs"
  by (simp add: pending_of_def)

lemma replayed_storable [simp]: "storable (replayed_input dt l i)"
  by (simp add: storable_def replayed_input_def empty_input_def)

lemma replayed_responses [simp]: "or_empty (input_responses (replayed_input dt l i)) = l"
  by (simp add: replayed_input_def or_empty_def)

lemma finish_session:
  "result_session (finish_resolved_input dt l g ms rej res i s) =
     (if replayed_input dt l i = empty_input then s else queue_deferred_step_input s (replayed_input dt l i))"
  by (simp add: finish_resolved_input_def Let_def)

lemma finish_accounted:
  assumes "get_pending_input_batches (state session) = Inr stored"
    and "set removed \<subseteq> set (pending_of stored)" and "remove_pending_input_batches session removed = Inr s"
  shows "accounted stored rs (result_session (finish_resolved_input dt
    (responses_for_batches rs (filter (\<lambda>b. b \<notin> set removed) (pending_of stored))) g ms rej res i s))"
proof -
  let ?kept = "filter (\<lambda>b. b \<notin> set removed) (pending_of stored)"
  let ?d = "replayed_input dt (responses_for_batches rs ?kept) i"
  have pend: "get_pending_input_batches (state s) = Inr (map snd ?kept)"
    by (rule remove_members(1) [OF assms])
  show ?thesis
  proof (cases "?d = empty_input")
    case True
    then have "responses_for_batches rs ?kept = []"
      using replayed_responses [of dt "responses_for_batches rs ?kept" i]
      by (simp add: empty_input_def or_empty_def)
    then have "\<not> (r \<in> set rs \<and> b \<in> set ?kept \<and> request_id r \<in> set (batch_ids (snd b)))" for r b
      using responses_for_batches_mem [of r rs b ?kept] by auto
    then have "\<forall>r \<in> set rs. \<forall>b \<in> set ?kept. request_id r \<in> set (batch_ids (snd b)) \<longrightarrow>
        r \<in> set (responses_of (get_deferred_step_input s))" by blast
    with True pend show ?thesis
      unfolding accounted_def finish_session by (intro exI [of _ ?kept] conjI) simp_all
  next
    case False
    have "r \<in> set (responses_of (get_deferred_step_input (queue_deferred_step_input s ?d)))"
      if "r \<in> set rs" "b \<in> set ?kept" "request_id r \<in> set (batch_ids (snd b))" for r b
      by (rule queue_keeps) (use responses_for_batches_mem [OF that] in simp_all)
    then have "\<forall>r \<in> set rs. \<forall>b \<in> set ?kept. request_id r \<in> set (batch_ids (snd b)) \<longrightarrow>
        r \<in> set (responses_of (get_deferred_step_input (queue_deferred_step_input s ?d)))" by blast
    with False pend show ?thesis
      unfolding accounted_def finish_session by (intro exI [of _ ?kept] conjI) simp_all
  qed
qed

lemma queued_all_accounted:
  assumes "get_pending_input_batches (state session) = Inr stored" and "storable d"
    and "set rs \<subseteq> set (or_empty (input_responses d))"
  shows "accounted stored rs (queue_deferred_step_input session d)"
  unfolding accounted_def
proof (intro exI [of _ "pending_of stored"] conjI ballI impI)
  fix r b assume "r \<in> set rs"
  with assms(3) show "r \<in> set (responses_of (get_deferred_step_input (queue_deferred_step_input session d)))"
    by (intro queue_keeps [OF assms(2)]) blast
qed (use assms in simp_all)

lemma leftover_accounted:
  assumes "get_pending_input_batches (state session) = Inr stored"
  shows "accounted stored rs (queue_leftover (responses_for_batches rs (pending_of stored)) session)"
proof (cases "responses_for_batches rs (pending_of stored) = []")
  case True
  then have "\<not> (r \<in> set rs \<and> b \<in> set (pending_of stored) \<and> request_id r \<in> set (batch_ids (snd b)))" for r b
    using responses_for_batches_mem [of r rs b "pending_of stored"] by auto
  then have "\<forall>r \<in> set rs. \<forall>b \<in> set (pending_of stored). request_id r \<in> set (batch_ids (snd b)) \<longrightarrow>
      r \<in> set (responses_of (get_deferred_step_input session))" by blast
  with True assms show ?thesis
    unfolding accounted_def queue_leftover_def by (intro exI [of _ "pending_of stored"] conjI) simp_all
next
  case False
  let ?l = "responses_for_batches rs (pending_of stored)"
  have s: "storable (empty_input\<lparr>input_responses := Some ?l\<rparr>)" by (simp add: storable_def empty_input_def)
  have "r \<in> set (responses_of (get_deferred_step_input (queue_deferred_step_input session
      (empty_input\<lparr>input_responses := Some ?l\<rparr>))))"
    if "r \<in> set rs" "b \<in> set (pending_of stored)" "request_id r \<in> set (batch_ids (snd b))" for r b
    by (rule queue_keeps [OF s]) (use responses_for_batches_mem [OF that] in \<open>simp add: or_empty_def\<close>)
  then have "\<forall>r \<in> set rs. \<forall>b \<in> set (pending_of stored). request_id r \<in> set (batch_ids (snd b)) \<longrightarrow>
      r \<in> set (responses_of (get_deferred_step_input (queue_deferred_step_input session
        (empty_input\<lparr>input_responses := Some ?l\<rparr>))))" by blast
  with False assms s show ?thesis
    unfolding accounted_def queue_leftover_def by (intro exI [of _ "pending_of stored"] conjI) simp_all
qed

definition input_ok :: "step_input option \<Rightarrow> bool" where
  "input_ok i \<longleftrightarrow> (case i of None \<Rightarrow> True | Some s \<Rightarrow> storable s)"

lemma compact_storable [simp]: "input_ok i \<Longrightarrow> storable (compact_step_input i)"
  by (cases i) (auto simp: input_ok_def storable_def compact_step_input_def empty_input_def)

lemma compact_responses [simp]: "or_empty (input_responses (compact_step_input i)) = responses_of i"
  using responses_of_compact [of i] by (simp add: responses_of_def)

lemma text_input_ok [simp]: "input_ok i \<Longrightarrow> input_ok (resolve_text_message_input b i)"
  by (auto simp: resolve_text_message_input_def input_ok_def Let_def storable_def compact_step_input_def
      split: option.split user_content.split)

lemma queued_compact_accounted:
  assumes "get_pending_input_batches (state session) = Inr stored" and "input_ok i"
    and "set rs \<subseteq> set (responses_of i)"
  shows "accounted stored rs (queue_deferred_step_input session (compact_step_input i))"
  using assms by (intro queued_all_accounted) simp_all

lemma question_accounted:
  assumes pend: "get_pending_input_batches (state session) = Inr stored" and ok: "input_ok i"
    and rs: "set rs \<subseteq> set (responses_of i)"
    and r: "resolve_question_only_input_batches base (pending_of stored) dt i rs session = Inr r"
  shows "accounted stored rs (result_session r)"
proof -
  let ?resolved = "find_answered_question_batches (pending_of stored) rs"
  have sub: "set ?resolved \<subseteq> set (pending_of stored)" by (auto simp: find_answered_question_batches_def)
  show ?thesis
  proof (cases "?resolved = []")
    case False
    with r obtain s where s: "remove_pending_input_batches session ?resolved = Inr s"
      and "r = finish_resolved_input dt (responses_for_batches rs
          (filter (\<lambda>b. b \<notin> set ?resolved) (pending_of stored))) None
        (resolve_question_batches (map snd ?resolved) base rs) [] (resolved_batches_of (map snd ?resolved) rs) i s"
      by (auto simp: resolve_question_only_input_batches_def Let_def bindR_Inr)
    with finish_accounted [OF pend sub s] show ?thesis by simp
  next
    case None: True
    show ?thesis
    proof (cases "message_of i = None")
      case True
      with r None queued_compact_accounted [OF pend ok rs] show ?thesis
        by (auto simp: resolve_question_only_input_batches_def Let_def plain_result_def)
    next
      case msg: False
      show ?thesis
      proof (cases "\<exists>sole. pending_of stored = [sole]")
        case True
        then obtain sole where sole: "pending_of stored = [sole]" by blast
        with r None msg obtain s where s: "remove_pending_input_batches session [sole] = Inr s"
          and rs': "result_session r = s"
          by (auto simp: resolve_question_only_input_batches_def Let_def bindR_Inr plain_result_def)
        from remove_members(1) [OF pend _ s] sole show ?thesis
          unfolding accounted_def rs' by (intro exI [of _ "[]"]) simp
      next
        case False
        with r None msg leftover_accounted [OF pend, of rs] show ?thesis
          by (auto simp: resolve_question_only_input_batches_def Let_def plain_result_def split: list.splits)
      qed
    qed
  qed
qed

lemma limit_accounted:
  assumes pend: "get_pending_input_batches (state session) = Inr stored" and ok: "input_ok i"
    and rs: "set rs \<subseteq> set (responses_of i)" and b: "b \<in> set (pending_of stored)"
    and r: "resolve_session_limit_input base (pending_of stored) b dt i rs session = Inr r"
  shows "accounted stored rs (result_session r)"
proof (cases "list_ex (answers rs) (batch_requests (snd b)) \<and> list_all (answers rs) (batch_requests (snd b))")
  case False
  with r queued_compact_accounted [OF pend ok rs] show ?thesis
    by (auto simp: resolve_session_limit_input_def Let_def plain_result_def)
next
  case True
  with r obtain s g ms dt' where s: "remove_pending_input_batches session [b] = Inr s"
    and "r = finish_resolved_input dt' (responses_for_batches rs
      (filter (\<lambda>c. c \<notin> set [b]) (pending_of stored))) g ms [] (resolved_batches_of [snd b] rs) i s"
    by (auto simp: resolve_session_limit_input_def Let_def bindR_Inr)
  with finish_accounted [OF pend _ s] b show ?thesis by simp
qed

lemma record_pending [simp]:
  "get_pending_input_batches (state (record_approved_tools key b rs session)) =
     get_pending_input_batches (state session)"
  by (simp add: record_approved_tools_def Let_def)

lemma slice_after_first_sub: "set (slice_after_first P xs) \<subseteq> set xs"
  unfolding slice_after_first_def
  by (metis Un_upper1 append_take_drop_id set_append set_dropWhileD set_take_subset set_takeWhileD subset_iff
      sup.bounded_iff subsetI)

lemma approval_accounted:
  assumes pend: "get_pending_input_batches (state session) = Inr stored" and ok: "input_ok i"
    and rs: "set rs \<subseteq> set (responses_of i)"
    and r: "resolve_approval_input_batches key base (pending_of stored) aps qs dt i rs session = Inr r"
  shows "accounted stored rs (result_session r)"
proof -
  define resolved where "resolved = slice_after_first (\<lambda>b. has_approval (snd b))
    (filter (\<lambda>b. b \<in> set (filter (\<lambda>b. approvals_answered rs (snd b)) aps) \<or>
      b \<in> set (find_answered_question_batches qs rs)) (pending_of stored))"
  have sub: "set resolved \<subseteq> set (pending_of stored)"
    unfolding resolved_def by (rule order_trans [OF slice_after_first_sub]) auto
  note r = r [unfolded resolve_approval_input_batches_def Let_def, folded resolved_def]
  show ?thesis
  proof (cases "resolved = []")
    case True
    with r queued_compact_accounted [OF pend ok rs] leftover_accounted [OF pend, of rs] show ?thesis
      by (auto simp: plain_result_def split: if_splits)
  next
    case False
    show ?thesis
    proof (cases "find (\<lambda>b. has_approval (snd b)) resolved")
      case None
      with r False obtain s where s: "remove_pending_input_batches session resolved = Inr s"
        and "r = finish_resolved_input dt (responses_for_batches rs
          (filter (\<lambda>b. b \<notin> set resolved) (pending_of stored))) None
          (resolve_question_batches (map snd resolved) base rs) []
          (resolved_batches_of (map snd resolved) rs) i s"
        by auto
      with finish_accounted [OF pend sub s] show ?thesis by simp
    next
      case (Some b)
      with r False obtain s ms rej where
        s: "remove_pending_input_batches (record_approved_tools key (snd b) rs session) resolved = Inr s"
        and "r = finish_resolved_input True (responses_for_batches rs
          (filter (\<lambda>b. b \<notin> set resolved) (pending_of stored))) None ms rej
          (resolved_batches_of (map snd resolved) rs) i s"
        by auto
      with finish_accounted [OF _ sub s] pend show ?thesis by simp
    qed
  qed
qed

lemma accounted_mono: "set xs \<subseteq> set ys \<Longrightarrow> accounted stored ys s \<Longrightarrow> accounted stored xs s"
  unfolding accounted_def by blast

lemma route_limit_member:
  "route_pending_input bs = Inr (LimitRoute b) \<Longrightarrow> b \<in> set bs"
proof -
  have fst: "classify_all bs = Inr cs \<Longrightarrow> map fst cs = bs" for cs
    by (induction bs arbitrary: cs) auto
  assume "route_pending_input bs = Inr (LimitRoute b)"
  then obtain cs d where "classify_all bs = Inr cs" "find (\<lambda>(b, d). d = SessionLimitDomain) cs = Some (b, d)"
    by (auto simp: route_pending_input_def Let_def split: option.splits if_splits)
  with fst show ?thesis by (metis find_Some_iff fst_conv image_eqI list.set_map nth_mem)
qed

lemma resolved_input_ok [simp]: "input_ok i \<Longrightarrow> input_ok (resolved_step_input route bs i)"
  by (simp add: resolved_step_input_def split: option.split)

lemma canonical_resolved:
  "r \<in> set (canonicalize_input_responses (responses_of i)) \<Longrightarrow>
     r \<in> set (canonicalize_input_responses (responses_of (resolved_step_input route bs i)))"
  using canonical_text_input by (simp add: resolved_step_input_def split: option.split)

lemma resolve_accounted:
  assumes pend: "get_pending_input_batches (state session) = Inr stored" and ok: "input_ok i"
    and r: "resolve_pending_input defer key base session i = Inr r"
  shows "accounted stored (canonicalize_input_responses (responses_of i)) (result_session r)"
proof (cases "stored = []")
  case True
  with r pend show ?thesis
    by (auto simp: resolve_pending_input_def accounted_def plain_result_def pending_of_def)
next
  case False
  then have ne: "pending_of stored \<noteq> []" by (auto dest: arg_cong [of _ _ "map snd"])
  with r pend obtain route where route: "route_pending_input (pending_of stored) = Inr route"
    by (auto simp: resolve_pending_input_def Let_def)
  define ri where "ri = resolved_step_input route (pending_of stored) i"
  define rs where "rs = canonicalize_input_responses (responses_of ri)"
  have ok': "input_ok ri" using ok by (simp add: ri_def)
  have sub: "set rs \<subseteq> set (responses_of ri)" unfolding rs_def by (rule canonical_sub)
  have canon: "set (canonicalize_input_responses (responses_of i)) \<subseteq> set rs"
    using canonical_resolved by (auto simp: rs_def ri_def)
  note r = r [unfolded resolve_pending_input_def pend bindR_Inr Let_def route, folded ri_def, folded rs_def]
  let ?deferred = "case route of ApprovalRoute approvals questions \<Rightarrow>
      defer \<and> message_of ri \<noteq> None \<and> \<not> has_answered_approval_batch approvals rs | _ \<Rightarrow> False"
  have "accounted stored rs (result_session r)"
  proof (cases ?deferred)
    case True
    with r ne queued_compact_accounted [OF pend ok' sub] show ?thesis by (auto simp: plain_result_def)
  next
    case proceed: False
    show ?thesis
    proof (cases "rs = [] \<and> message_of ri = None")
      case True
      moreover have "accounted stored [] s" if "s = session \<or> s = queue_deferred_step_input session (compact_step_input ri)" for s
        using that pend ok' unfolding accounted_def by (intro exI [of _ "pending_of stored"]) auto
      ultimately show ?thesis using r ne proceed by (auto simp: plain_result_def split: if_splits)
    next
      case False
      with r ne proceed limit_accounted [OF pend ok' sub] approval_accounted [OF pend ok' sub]
        question_accounted [OF pend ok' sub] route_limit_member route
      show ?thesis by (cases route) (simp_all only: if_False route.case, blast+)
    qed
  qed
  with canon show ?thesis by (rule accounted_mono)
qed

section \<open>An approval is resolved alone, at the tail\<close>

lemma classify_all_eq:
  "classify_all bs = Inr cs \<Longrightarrow> map fst cs = bs \<and> (\<forall>p \<in> set cs. classify_pending_input_batch (snd (fst p)) = Inr (snd p))"
proof (induction bs arbitrary: cs)
  case (Cons b bs)
  then obtain d rest where "classify_pending_input_batch (snd b) = Inr d" "classify_all bs = Inr rest"
    "cs = (b, d) # rest" by auto
  with Cons.IH [of rest] show ?case by simp
qed simp

lemma classify_batch:
  "classify_pending_input_batch b = Inr ApprovalDomain \<Longrightarrow> has_approval b"
  "classify_pending_input_batch b = Inr QuestionDomain \<Longrightarrow> \<not> has_approval b"
  by (auto simp: classify_pending_input_batch_def split: if_splits)

lemma route_approval:
  assumes "route_pending_input bs = Inr (ApprovalRoute approvals questions)"
  shows "set approvals \<subseteq> set bs" and "b \<in> set questions \<longleftrightarrow> b \<in> set bs \<and> \<not> has_approval (snd b)"
    and "b \<in> set bs \<Longrightarrow> has_approval (snd b) \<longleftrightarrow> b \<in> set approvals"
proof -
  from assms obtain cs where cs: "classify_all bs = Inr cs" and
    "find (\<lambda>(b, d). d = SessionLimitDomain) cs = None"
    and ap: "approvals = map fst (filter (\<lambda>(b, d). d = ApprovalDomain) cs)"
    and qs: "questions = filter (\<lambda>b. b \<notin> set approvals) bs"
    by (cases "classify_all bs") (auto simp: route_pending_input_def Let_def split: option.splits if_splits)
  then have limit: "\<forall>p \<in> set cs. snd p \<noteq> SessionLimitDomain" by (auto simp: find_None_iff)
  note all = classify_all_eq [OF cs]
  show sub: "set approvals \<subseteq> set bs" unfolding ap using all by force
  show iff: "has_approval (snd b) \<longleftrightarrow> b \<in> set approvals" if "b \<in> set bs" for b
  proof -
    from that all obtain d where d: "(b, d) \<in> set cs" by auto
    with limit all have "d = ApprovalDomain \<or> d = QuestionDomain"
      and c: "classify_pending_input_batch (snd b) = Inr d" by (cases d; auto)+
    have "has_approval (snd b)" if "b \<in> set approvals"
      using that all classify_batch(1) by (force simp: ap)
    moreover have "b \<in> set approvals" if "has_approval (snd b)"
    proof -
      from c that classify_batch(2) have "d \<noteq> QuestionDomain" by auto
      with \<open>d = ApprovalDomain \<or> d = QuestionDomain\<close> d show ?thesis by (force simp: ap)
    qed
    ultimately show ?thesis by blast
  qed
  show "b \<in> set questions \<longleftrightarrow> b \<in> set bs \<and> \<not> has_approval (snd b)"
    unfolding qs using iff [of b] by auto
qed

lemma slice_at_most_one: "length (filter P (slice_after_first P xs)) \<le> 1"
proof -
  have "filter P (takeWhile (\<lambda>x. \<not> P x) xs) = []"
    by (auto simp: filter_empty_conv dest: set_takeWhileD)
  then show ?thesis
    unfolding slice_after_first_def by (simp add: le_trans [OF length_filter_le])
qed

lemma approval_parts_answer:
  assumes "approval_batch_parts rs qs = Inr ps" and "q \<in> set qs" and "is_approval_request q"
  shows "\<exists>p \<in> set ps. jget p ''type'' = JStr ''tool-approval-response'' \<and> jget p ''approvalId'' = JStr (request_id q) \<and>
    jget p ''approved'' = JBool (resolve_approval_outcome (response_to rs q) = Approved)"
  using assms
proof (induction qs arbitrary: ps)
  case (Cons x qs)
  have own: "\<exists>p \<in> set (build_approval_tool_response_parts q r).
      jget p ''type'' = JStr ''tool-approval-response'' \<and> jget p ''approvalId'' = JStr (request_id q) \<and>
      jget p ''approved'' = JBool (resolve_approval_outcome r = Approved)" for r
    by (simp add: build_approval_tool_response_parts_def Let_def)
  from Cons own [of "response_to rs q"] show ?case
    by (auto split: if_splits)
qed simp

lemma tail_approval:
  assumes "approval_batch_parts rs (batch_requests b) = Inr ps" and "has_approval b"
  shows "has_tail_approval_response (append_resolved_batch_transcript ms b ps)"
proof -
  from assms(2) obtain q where "q \<in> set (batch_requests b)" "is_approval_request q"
    by (auto simp: has_approval_def list_ex_iff)
  from approval_parts_answer [OF assms(1) this] obtain p where
    "p \<in> set ps" "jget p ''type'' = JStr ''tool-approval-response''" by blast
  then show ?thesis
    by (auto simp: has_tail_approval_response_def append_resolved_batch_transcript_def tool_message_def list_ex_iff)
qed

lemma find_in_slice:
  "find P (slice_after_first P xs) = None \<Longrightarrow> filter P (slice_after_first P xs) = []"
  by (auto simp: find_None_iff filter_empty_conv)

lemma finish_messages [simp]:
  "result_messages (finish_resolved_input dt l g ms rej res i s) = ms"
  "outcome (finish_resolved_input dt l g ms rej res i s) = Resolved"
  "limit_continuation (finish_resolved_input dt l g ms rej res i s) = g"
  "rejected_actions (finish_resolved_input dt l g ms rej res i s) = rej"
  by (simp_all add: finish_resolved_input_def Let_def)

lemma finish_pending [simp]:
  "get_pending_input_batches (state (result_session (finish_resolved_input dt l g ms rej res i s))) =
     get_pending_input_batches (state s)"
  by (simp add: finish_session)

definition approvals_alone :: "batch list \<Rightarrow> json list \<Rightarrow> 'a stateful_scheme resolve_result \<Rightarrow> bool" where
  \<comment> \<open>The batches \<open>gone\<close> leave the pending list; at most one of them has approvals, and then all its
    approvals are answered and the transcript ends with their responses.\<close>
  "approvals_alone stored rs r \<longleftrightarrow> (\<exists>gone. set gone \<subseteq> set (pending_of stored) \<and>
     get_pending_input_batches (state (result_session r)) =
       Inr (map snd (filter (\<lambda>b. b \<notin> set gone) (pending_of stored))) \<and>
     length (filter (\<lambda>b. has_approval (snd b)) gone) \<le> 1 \<and>
     (\<forall>b \<in> set gone. has_approval (snd b) \<longrightarrow>
       approvals_answered rs (snd b) \<and> has_tail_approval_response (result_messages r)) \<and>
     (\<forall>b \<in> set gone. \<not> has_approval (snd b) \<longrightarrow> list_ex (answers rs) (batch_requests (snd b))))"

lemma approvals_alone_unchanged:
  "get_pending_input_batches (state (result_session r)) = Inr stored \<Longrightarrow> approvals_alone stored rs r"
  unfolding approvals_alone_def by (intro exI [of _ "[]"]) simp

lemma leftover_pending [simp]:
  "get_pending_input_batches (state (queue_leftover l session)) = get_pending_input_batches (state session)"
  by (simp add: queue_leftover_def storable_def empty_input_def)

lemma approval_resolver_alone:
  assumes pend: "get_pending_input_batches (state session) = Inr stored" and ok: "input_ok i"
    and route: "route_pending_input (pending_of stored) = Inr (ApprovalRoute aps qs)"
    and r: "resolve_approval_input_batches key base (pending_of stored) aps qs dt i rs session = Inr r"
  shows "approvals_alone stored rs r"
proof -
  define cands where "cands = filter (\<lambda>b. b \<in> set (filter (\<lambda>b. approvals_answered rs (snd b)) aps) \<or>
      b \<in> set (find_answered_question_batches qs rs)) (pending_of stored)"
  define resolved where "resolved = slice_after_first (\<lambda>b. has_approval (snd b)) cands"
  have "set cands \<subseteq> set (pending_of stored)" by (auto simp: cands_def)
  moreover have mem: "set resolved \<subseteq> set cands" unfolding resolved_def by (rule slice_after_first_sub)
  ultimately have sub: "set resolved \<subseteq> set (pending_of stored)" by blast
  have why: "if has_approval (snd b) then approvals_answered rs (snd b)
      else list_ex (answers rs) (batch_requests (snd b))" if "b \<in> set resolved" for b
    using that mem route_approval(2,3) [OF route, of b]
    by (auto simp: cands_def find_answered_question_batches_def)
  have one: "length (filter (\<lambda>b. has_approval (snd b)) resolved) \<le> 1"
    unfolding resolved_def by (rule slice_at_most_one)
  note r = r [unfolded resolve_approval_input_batches_def Let_def, folded cands_def, folded resolved_def]
  have gone: "approvals_alone stored rs r" if s: "remove_pending_input_batches s0 resolved = Inr s"
    and p0: "get_pending_input_batches (state s0) = Inr stored"
    and res: "get_pending_input_batches (state (result_session r)) = get_pending_input_batches (state s)"
    and tail: "\<forall>b \<in> set resolved. has_approval (snd b) \<longrightarrow> has_tail_approval_response (result_messages r)" for s0 s
  proof -
    have "get_pending_input_batches (state (result_session r)) =
        Inr (map snd (filter (\<lambda>b. b \<notin> set resolved) (pending_of stored)))"
      unfolding res by (rule remove_members(1) [OF p0 sub s])
    with sub one tail show ?thesis
      unfolding approvals_alone_def by (intro exI [of _ resolved] conjI ballI impI) (use why in force)+
  qed
  show ?thesis
  proof (cases "resolved = []")
    case True
    then have "get_pending_input_batches (state (result_session r)) = Inr stored"
      using r pend queue_pending [OF compact_storable [OF ok], of session]
      by (auto simp: plain_result_def split: if_splits)
    then show ?thesis by (rule approvals_alone_unchanged)
  next
    case False
    show ?thesis
    proof (cases "find (\<lambda>b. has_approval (snd b)) resolved")
      case None
      with r False obtain s ms dt' res l where s: "remove_pending_input_batches session resolved = Inr s"
        and "r = finish_resolved_input dt' l None ms [] res i s"
        by auto
      with None show ?thesis by (intro gone [OF s pend]) (auto simp: find_None_iff)
    next
      case (Some b)
      then have b: "has_approval (snd b)" by (auto simp: find_Some_iff)
      from Some r False obtain s ms ps res rej l where ps: "approval_batch_parts rs (batch_requests (snd b)) = Inr ps"
        and s: "remove_pending_input_batches (record_approved_tools key (snd b) rs session) resolved = Inr s"
        and "r = finish_resolved_input True l None (append_resolved_batch_transcript ms (snd b) ps) rej res i s"
        by auto
      with tail_approval [OF ps b] pend show ?thesis by (intro gone [OF s]) auto
    qed
  qed
qed

section \<open>The three domains at the entry point\<close>

definition effective_responses :: "route \<Rightarrow> batch list \<Rightarrow> step_input option \<Rightarrow> json list" where
  \<comment> \<open>The responses the step resolves with: explicit ones and the one read from a plain text message.\<close>
  "effective_responses route stored i =
     canonicalize_input_responses (responses_of (resolved_step_input route (pending_of stored) i))"

lemma resolve_pending_cases:
  assumes pend: "get_pending_input_batches (state session) = Inr stored" and ok: "input_ok i"
    and route: "route_pending_input (pending_of stored) = Inr route" and ne: "stored \<noteq> []"
    and r: "resolve_pending_input defer key base session i = Inr r"
  shows "(outcome r = Unresolved \<and> limit_continuation r = None \<and>
      get_pending_input_batches (state (result_session r)) = Inr stored \<and>
      read_recorded_approved_tools (result_session r) = read_recorded_approved_tools session) \<or>
    (case route of
       LimitRoute b \<Rightarrow> resolve_session_limit_input base (pending_of stored) b (has_tail_approval_response base)
         (resolved_step_input route (pending_of stored) i) (effective_responses route stored i) session = Inr r
     | ApprovalRoute aps qs \<Rightarrow> resolve_approval_input_batches key base (pending_of stored) aps qs
         (has_tail_approval_response base) (resolved_step_input route (pending_of stored) i)
         (effective_responses route stored i) session = Inr r
     | QuestionRoute \<Rightarrow> resolve_question_only_input_batches base (pending_of stored)
         (has_tail_approval_response base) (resolved_step_input route (pending_of stored) i)
         (effective_responses route stored i) session = Inr r)"
proof -
  have ne: "pending_of stored \<noteq> []" using ne by (auto dest: arg_cong [of _ _ "map snd"])
  define ri where "ri = resolved_step_input route (pending_of stored) i"
  have ok': "input_ok ri" using ok by (simp add: ri_def)
  define rs where "rs = effective_responses route stored i"
  have rs': "canonicalize_input_responses (responses_of ri) = rs"
    by (simp add: rs_def effective_responses_def ri_def)
  note r = r [unfolded resolve_pending_input_def pend bindR_Inr Let_def route, folded ri_def, unfolded rs']
  let ?deferred = "case route of ApprovalRoute approvals questions \<Rightarrow>
      defer \<and> message_of ri \<noteq> None \<and> \<not> has_answered_approval_batch approvals rs | _ \<Rightarrow> False"
  show ?thesis
  proof (cases "?deferred \<or> rs = [] \<and> message_of ri = None")
    case True
    with r ne queue_pending [OF compact_storable [OF ok'], of session] pend show ?thesis
      by (auto simp: plain_result_def queue_recorded split: if_splits)
  next
    case False
    with r ne show ?thesis
      unfolding ri_def [symmetric] rs_def [symmetric] by (cases route) (simp_all split: if_splits)
  qed
qed

lemma remove_recorded:
  "remove_pending_input_batches session removed = Inr s \<Longrightarrow>
     read_recorded_approved_tools s = read_recorded_approved_tools session"
  by (auto simp: remove_pending_input_batches_def read_recorded_approved_tools_def
      dest: set_pending_reads_back(4) [of _ _ _ approved_tools_key])

lemma finish_recorded [simp]:
  "read_recorded_approved_tools (result_session (finish_resolved_input dt l g ms rej res i s)) =
     read_recorded_approved_tools s"
  by (simp add: finish_session)

lemma leftover_recorded [simp]:
  "read_recorded_approved_tools (queue_leftover l session) = read_recorded_approved_tools session"
  by (simp add: queue_leftover_def)

lemma mem_map_filter: "t \<in> set (map f (filter P xs)) \<longleftrightarrow> (\<exists>x \<in> set xs. P x \<and> t = f x)"
  by auto

lemma mem_ids: "i \<in> set (map f (filter P xs)) \<longleftrightarrow> (\<exists>x \<in> set xs. f x = i \<and> P x)"
  by auto

lemma record_approved_mem:
  "t \<in> set (read_recorded_approved_tools (record_approved_tools key b rs session)) \<longleftrightarrow>
     t \<in> set (read_recorded_approved_tools session) \<or>
     (\<exists>q \<in> set (batch_requests b). is_approval_request q \<and> t = approval_key key q \<and>
        (\<exists>x \<in> set rs. request_id x = request_id q \<and> jget x ''optionId'' = JStr ''approve''))"
proof -
  let ?new = "map (approval_key key) (filter (\<lambda>q. is_approval_request q \<and>
    request_id q \<in> set (map request_id (filter (\<lambda>r. jget r ''optionId'' = JStr ''approve'') rs))) (batch_requests b))"
  have "t \<in> set ?new \<longleftrightarrow> (\<exists>q \<in> set (batch_requests b). is_approval_request q \<and> t = approval_key key q \<and>
      (\<exists>x \<in> set rs. request_id x = request_id q \<and> jget x ''optionId'' = JStr ''approve''))"
    unfolding mem_map_filter [of t] mem_ids by blast
  moreover have "t \<in> set (read_recorded_approved_tools (record_approved_tools key b rs session)) \<longleftrightarrow>
      t \<in> set (read_recorded_approved_tools session) \<or> t \<in> set ?new"
  proof (cases "?new = []")
    case False
    then show ?thesis
      by (simp add: record_approved_tools_def Let_def read_recorded_approved_tools_def [of "state_update _ _"]
          del: set_map map_map set_filter)
  qed (simp add: record_approved_tools_def Let_def)
  ultimately show ?thesis by simp
qed

definition approved_by :: "(json \<Rightarrow> string option) \<Rightarrow> batch list \<Rightarrow> json list \<Rightarrow> string \<Rightarrow> bool" where
  \<comment> \<open>A request to approve the tool \<open>t\<close> is among the batches and an explicit approval answers it.\<close>
  "approved_by key stored rs t \<longleftrightarrow> (\<exists>b \<in> set stored. approvals_answered rs b \<and>
     (\<exists>q \<in> set (batch_requests b). is_approval_request q \<and> t = approval_key key q \<and>
        (\<exists>x \<in> set rs. request_id x = request_id q \<and> jget x ''optionId'' = JStr ''approve'')))"

lemma pending_member: "b \<in> set (pending_of stored) \<Longrightarrow> snd b \<in> set stored"
  by (metis map_snd_pending image_eqI set_map)

lemma approval_recorded:
  assumes route: "route_pending_input (pending_of stored) = Inr (ApprovalRoute aps qs)"
    and r: "resolve_approval_input_batches key base (pending_of stored) aps qs dt i rs session = Inr r"
    and new: "t \<in> set (read_recorded_approved_tools (result_session r))"
  shows "t \<in> set (read_recorded_approved_tools session) \<or> approved_by key stored rs t"
proof -
  define cands where "cands = filter (\<lambda>b. b \<in> set (filter (\<lambda>b. approvals_answered rs (snd b)) aps) \<or>
      b \<in> set (find_answered_question_batches qs rs)) (pending_of stored)"
  define resolved where "resolved = slice_after_first (\<lambda>b. has_approval (snd b)) cands"
  have mem: "set resolved \<subseteq> set cands" unfolding resolved_def by (rule slice_after_first_sub)
  note r = r [unfolded resolve_approval_input_batches_def Let_def, folded cands_def, folded resolved_def]
  show ?thesis
  proof (cases "find (\<lambda>b. has_approval (snd b)) resolved")
    case None
    then show ?thesis
      using r new by (auto simp: plain_result_def remove_recorded split: if_splits)
  next
    case (Some b)
    then have b: "b \<in> set resolved" "has_approval (snd b)" by (auto simp: find_Some_iff)
    with mem route_approval(2) [OF route, of b] have ans: "approvals_answered rs (snd b)"
      and stored: "snd b \<in> set stored"
      by (auto simp: cands_def find_answered_question_batches_def intro: pending_member)
    from b(1) have "resolved \<noteq> []" by auto
    with Some r obtain s ms res rej l where
      s: "remove_pending_input_batches (record_approved_tools key (snd b) rs session) resolved = Inr s"
      and "r = finish_resolved_input True l None ms rej res i s" by auto
    with new have "t \<in> set (read_recorded_approved_tools (record_approved_tools key (snd b) rs session))"
      by (simp add: remove_recorded [OF s])
    with ans stored show ?thesis unfolding approved_by_def record_approved_mem by blast
  qed
qed

lemma question_recorded:
  "resolve_question_only_input_batches base bs dt i rs session = Inr r \<Longrightarrow>
     read_recorded_approved_tools (result_session r) = read_recorded_approved_tools session"
  by (auto simp: resolve_question_only_input_batches_def Let_def plain_result_def remove_recorded
      split: if_splits list.splits)

lemma limit_recorded:
  "resolve_session_limit_input base bs b dt i rs session = Inr r \<Longrightarrow>
     read_recorded_approved_tools (result_session r) = read_recorded_approved_tools session"
  by (auto simp: resolve_session_limit_input_def Let_def plain_result_def remove_recorded split: if_splits)

lemma resolve_recorded:
  assumes pend: "get_pending_input_batches (state session) = Inr stored" and ok: "input_ok i"
    and route: "route_pending_input (pending_of stored) = Inr route"
    and r: "resolve_pending_input defer key base session i = Inr r"
    and new: "t \<in> set (read_recorded_approved_tools (result_session r))"
  shows "t \<in> set (read_recorded_approved_tools session) \<or>
    approved_by key stored (effective_responses route stored i) t"
proof (cases "stored = []")
  case True
  with r pend new show ?thesis by (auto simp: resolve_pending_input_def plain_result_def pending_of_def)
next
  case False
  let ?recorded = "read_recorded_approved_tools (result_session r) = read_recorded_approved_tools session"
  note runs = resolve_pending_cases [OF pend ok route False r]
  show ?thesis
  proof (cases route)
    case (LimitRoute b)
    with runs have ?recorded by (auto dest: limit_recorded)
    with new show ?thesis by simp
  next
    case QuestionRoute
    with runs have ?recorded by (auto dest: question_recorded)
    with new show ?thesis by simp
  next
    case (ApprovalRoute aps qs)
    note route' = route [unfolded ApprovalRoute]
    from runs consider ?recorded
      | "resolve_approval_input_batches key base (pending_of stored) aps qs (has_tail_approval_response base)
          (resolved_step_input route (pending_of stored) i) (effective_responses route stored i) session = Inr r"
      by (auto simp: ApprovalRoute)
    then show ?thesis
    proof cases
      case 2
      from approval_recorded [OF route' this new] show ?thesis .
    qed (use new in simp)
  qed
qed

lemma limit_resolution:
  assumes pend: "get_pending_input_batches (state session) = Inr stored" and ok: "input_ok i"
    and route: "route_pending_input (pending_of stored) = Inr (LimitRoute b)"
    and r: "resolve_pending_input defer key base session i = Inr r"
  shows "if outcome r = Resolved
    then list_all (answers (effective_responses (LimitRoute b) stored i)) (batch_requests (snd b)) \<and>
      get_pending_input_batches (state (result_session r)) = Inr (map snd (filter (\<lambda>c. c \<noteq> b) (pending_of stored))) \<and>
      limit_continuation r = resolve_session_limit_continuation (batch_requests (snd b))
        (effective_responses (LimitRoute b) stored i)
    else outcome r = Unresolved \<and> limit_continuation r = None \<and>
      get_pending_input_batches (state (result_session r)) = Inr stored"
proof -
  have b: "b \<in> set (pending_of stored)" by (rule route_limit_member [OF route])
  then have ne: "stored \<noteq> []" by (auto simp: pending_of_def)
  let ?rs = "effective_responses (LimitRoute b) stored i"
  from resolve_pending_cases [OF pend ok route ne r] consider
    "outcome r = Unresolved \<and> limit_continuation r = None \<and>
      get_pending_input_batches (state (result_session r)) = Inr stored"
    | "resolve_session_limit_input base (pending_of stored) b (has_tail_approval_response base)
         (resolved_step_input (LimitRoute b) (pending_of stored) i) ?rs session = Inr r" by auto
  then show ?thesis
  proof cases
    case run: 2
    show ?thesis
    proof (cases "list_ex (answers ?rs) (batch_requests (snd b)) \<and> list_all (answers ?rs) (batch_requests (snd b))")
      case False
      with run queue_pending [OF compact_storable [OF resolved_input_ok [OF ok]], of session] pend show ?thesis
        by (auto simp: resolve_session_limit_input_def Let_def plain_result_def)
    next
      case True
      with run obtain s ms l dt res where s: "remove_pending_input_batches session [b] = Inr s"
        and "r = finish_resolved_input dt l (resolve_session_limit_continuation (batch_requests (snd b)) ?rs) ms []
          res (resolved_step_input (LimitRoute b) (pending_of stored) i) s"
        by (auto simp: resolve_session_limit_input_def Let_def)
      with remove_members(1) [OF pend _ s] b True show ?thesis by simp
    qed
  qed simp
qed

lemma approval_resolution:
  assumes pend: "get_pending_input_batches (state session) = Inr stored" and ok: "input_ok i"
    and route: "route_pending_input (pending_of stored) = Inr (ApprovalRoute aps qs)"
    and r: "resolve_pending_input defer key base session i = Inr r"
  shows "approvals_alone stored (effective_responses (ApprovalRoute aps qs) stored i) r"
proof (cases "stored = []")
  case True
  with route show ?thesis by (simp add: route_pending_input_def pending_of_def)
next
  case False
  have ok': "input_ok (resolved_step_input (ApprovalRoute aps qs) (pending_of stored) i)" using ok by simp
  from resolve_pending_cases [OF pend ok route False r] show ?thesis
    using approval_resolver_alone [OF pend ok' route] by (auto intro: approvals_alone_unchanged)
qed

section \<open>The only errors are malformed batches\<close>

lemma approval_parts_total:
  "\<forall>q \<in> set qs. is_approval_request q \<or> is_question_request q \<Longrightarrow> \<exists>ps. approval_batch_parts rs qs = Inr ps"
  by (induction qs) auto

lemma classified_requests:
  "classify_pending_input_batch b = Inr d \<Longrightarrow> d \<noteq> SessionLimitDomain \<Longrightarrow>
     \<forall>q \<in> set (batch_requests b). is_approval_request q \<or> is_question_request q"
  by (fastforce simp: classify_pending_input_batch_def is_session_limit_input_batch_def Let_def list_ex_iff
      split: if_splits)

lemma route_approval_requests:
  assumes "route_pending_input bs = Inr (ApprovalRoute approvals questions)" and "b \<in> set bs"
    and "q \<in> set (batch_requests (snd b))"
  shows "is_approval_request q \<or> is_question_request q"
proof -
  from assms(1) obtain cs where cs: "classify_all bs = Inr cs" and
    "find (\<lambda>(b, d). d = SessionLimitDomain) cs = None"
    by (cases "classify_all bs") (auto simp: route_pending_input_def Let_def split: option.splits if_splits)
  then have limit: "\<forall>p \<in> set cs. snd p \<noteq> SessionLimitDomain" by (auto simp: find_None_iff)
  from assms(2) classify_all_eq [OF cs] have "b \<in> fst ` set cs" by (metis list.set_map)
  then obtain p where p: "p \<in> set cs" "fst p = b" by blast
  with classify_all_eq [OF cs] have "classify_pending_input_batch (snd b) = Inr (snd p)" by blast
  with p limit classified_requests [of "snd b" "snd p"] assms(3) show ?thesis by simp
qed

lemma remove_total:
  "get_pending_input_batches (state session) = Inr bs \<Longrightarrow> \<exists>s. remove_pending_input_batches session removed = Inr s"
  using remove_pending_reads_back by blast

lemma approval_total:
  assumes pend: "get_pending_input_batches (state session) = Inr stored"
    and route: "route_pending_input (pending_of stored) = Inr (ApprovalRoute aps qs)"
  shows "\<exists>r. resolve_approval_input_batches key base (pending_of stored) aps qs dt i rs session = Inr r"
proof -
  define cands where "cands = filter (\<lambda>b. b \<in> set (filter (\<lambda>b. approvals_answered rs (snd b)) aps) \<or>
      b \<in> set (find_answered_question_batches qs rs)) (pending_of stored)"
  define resolved where "resolved = slice_after_first (\<lambda>b. has_approval (snd b)) cands"
  have mem: "set resolved \<subseteq> set cands" unfolding resolved_def by (rule slice_after_first_sub)
  have rec: "get_pending_input_batches (state (record_approved_tools key b rs session)) = Inr stored" for b
    using pend by simp
  have "\<exists>ps. approval_batch_parts rs (batch_requests (snd b)) = Inr ps"
    if "find (\<lambda>b. has_approval (snd b)) resolved = Some b" for b
  proof (rule approval_parts_total, rule ballI)
    fix q assume "q \<in> set (batch_requests (snd b))"
    moreover from that have "b \<in> set resolved" by (auto simp: find_Some_iff)
    with mem have "b \<in> set (pending_of stored)" by (auto simp: cands_def)
    ultimately show "is_approval_request q \<or> is_question_request q" using route_approval_requests [OF route] by blast
  qed
  with remove_total [OF pend, of resolved] remove_total [OF rec, of _ resolved] show ?thesis
    unfolding resolve_approval_input_batches_def Let_def cands_def [symmetric] resolved_def [symmetric]
    by (fastforce split: option.split)
qed

lemma if_exists_Inr: "(\<exists>r. (if P then Inr x else y) = Inr r) \<longleftrightarrow> P \<or> (\<exists>r. y = Inr r)"
  by auto

lemma route_exists_Inr: "(\<exists>r. (case route of LimitRoute b \<Rightarrow> f b | ApprovalRoute x y \<Rightarrow> g x y | QuestionRoute \<Rightarrow> h) = Inr r) \<longleftrightarrow>
    (case route of LimitRoute b \<Rightarrow> \<exists>r. f b = Inr r | ApprovalRoute x y \<Rightarrow> \<exists>r. g x y = Inr r | QuestionRoute \<Rightarrow> \<exists>r. h = Inr r)"
  by (cases route) simp_all

lemma resolve_errors:
  "resolve_pending_input defer key base session i = Inl e \<longleftrightarrow>
     get_pending_input_batches (state session) = Inl e \<or>
     (\<exists>stored. get_pending_input_batches (state session) = Inr stored \<and>
        route_pending_input (pending_of stored) = Inl e)"
proof (cases "get_pending_input_batches (state session)")
  case (Inr stored)
  show ?thesis
  proof (cases "route_pending_input (pending_of stored)")
    case route: (Inr route)
    have "\<exists>r. resolve_session_limit_input base (pending_of stored) b dt j rs session = Inr r" for b dt j rs
      using remove_total [OF Inr, of "[b]"] by (auto simp: resolve_session_limit_input_def Let_def)
    moreover have "\<exists>r. resolve_question_only_input_batches base (pending_of stored) dt j rs session = Inr r" for dt j rs
      using remove_total [OF Inr] by (fastforce simp: resolve_question_only_input_batches_def Let_def split: list.split)
    moreover note approval_total [OF Inr, of _ _ key base]
    ultimately have "\<exists>r. resolve_pending_input defer key base session i = Inr r"
      unfolding resolve_pending_input_def Inr bindR_Inr Let_def route using route
      by (simp only: if_exists_Inr route_exists_Inr) (auto split: route.split)
    with Inr route show ?thesis by auto
  next
    case (Inl e')
    then have "pending_of stored \<noteq> []" by (auto simp: route_pending_input_def)
    with Inr Inl show ?thesis by (simp add: resolve_pending_input_def)
  qed
qed (simp add: resolve_pending_input_def)

end
