(* ===== verification/Spec2Isabelle.thy ===== *)
theory Spec2Isabelle
  imports Pending_Authorization Approval_Safety Compaction_Props Command_Inbox Turn_Cancellation Stale_Responses Parked_Wait Ordered_Emitter Inbox_Wire Delivery_Conservation Json_Normalize Agent_Handle_Query Task_Delivery Usage_Limits Input_Resolution_Props
begin

text \<open>
  Verification of the durable decision core of the \<open>eve\<close> agent framework: the TypeScript under
  \<open>src/packages/eve/src/\<close> that decides what a durable session stores and how it moves. File names
  below are relative to that directory.

  \<^bold>\<open>The program.\<close> A session is a workflow that runs harness steps. Its state map holds, under string
  keys, the durable bookkeeping of the session: the handles of delegated agents, the index of
  background tasks, the usage counters and their limits, the open batches of human input and the input
  deferred to the next step. The code reads each entry back through a schema or a cast, changes it by
  pure functions and writes a new map; the workflow runtime, the model and the channels around these
  decisions are not part of the model.

  \<^bold>\<open>Theories.\<close>
  \<^item> \<open>Eve_Prelude\<close>: errors as sums, association lists as JavaScript objects, maps and sets; the locales
    \<open>state_slot\<close> and \<open>transition_system\<close> shared by the components.
  \<^item> \<open>Json_Values\<close>, \<open>Json_Normalize\<close>, \<open>Json_Text\<close>: \<open>shared/json.ts\<close>. Equality is shown to decide
    equality of the denoted value; the normaliser runs over an explicit heap so that sharing and cycles
    are visible; \<open>Json_Text\<close> has \<open>JSON.stringify\<close> and \<open>String.prototype.trim\<close>.
  \<^item> \<open>Session_State\<close>: the session records of \<open>harness/types.ts\<close>, access to the state map and the schema
    combinators of the validation library the sources use.
  \<^item> \<open>Agent_Handle_Store\<close>, \<open>Agent_Handle_Transitions\<close>, \<open>Agent_Handle_Lifecycle\<close>, \<open>Agent_Handle_Turns\<close>,
    \<open>Agent_Handle_Query\<close>: \<open>subagents/handles/\<close>. The stored shape and its schema, every parent-turn
    transition and every owner command, the abstract lifecycles they refine, and the driver's merge.
  \<^item> \<open>Task_View\<close>, \<open>Task_Index\<close>, \<open>Task_Delivery\<close>: \<open>tasks/\<close>. The transition function of one task, the
    session's index with its cached views, the context shown to the model, ids and inbox tokens.
  \<^item> \<open>Usage_Limits\<close>: \<open>harness/session-usage-limits.ts\<close>, \<open>harness/turn-tag-state.ts\<close> and
    \<open>subagents/token-budget.ts\<close>.
  \<^item> \<open>Step_Input\<close>, \<open>Pending_Input\<close>, \<open>Session_Limit_Prompt\<close>, \<open>Input_Resolution\<close>,
    \<open>Input_Resolution_Props\<close>: the input of a step, the stored batches, the limit prompt and the
    resolution of pending input (\<open>harness/messages.ts\<close>, \<open>harness/pending-input-batches.ts\<close>,
    \<open>harness/session-limit-continuation.ts\<close>, \<open>harness/input-requests.ts\<close>, \<open>harness/hitl/\<close>,
    \<open>channel/resolve-text.ts\<close>).
  \<^item> \<open>Delivery_Relay\<close>, \<open>Parked_Wait\<close>: \<open>execution/turn-control-receiver.ts\<close> and
    \<open>execution/parked-delivery-wait.ts\<close>. The two sources of a turn are a list of read events in an
    arbitrary order; the fields of the receiver and the loop it is in are the state, calls of durable
    steps are logged effects.
  \<^item> \<open>Ordered_Emitter\<close>: \<open>harness/ordered-stream-emitter.ts\<close>, as operations on its queue and the log of
    its writes.
  \<^item> \<open>Json_Objects\<close>, \<open>Migration_Chain\<close>, \<open>Inbox_Wire\<close>: object spread and guards, the version-walking
    runner and migrations of \<open>execution/durable-session-migrations/\<close>, and the decoder of
    \<open>execution/wire/session-inbox-wire.ts\<close> with the migrations of every inbox version.
  \<^item> \<open>Network_Address\<close>, \<open>Proxy_Requests\<close>, \<open>Proxy_Routing\<close>: \<open>shared/network-address.ts\<close>,
    \<open>harness/proxy-input-requests.ts\<close> and the routing of \<open>subagents/hitl-proxy.ts\<close>: which descendant an
    input response belongs to.
  \<^item> \<open>Proxied_Delivery\<close>, \<open>Delivery_Conservation\<close>: \<open>execution/proxied-deliver-step.ts\<close> and
    \<open>execution/deliver-payloads.ts\<close>. A whole delivery is routed, forwarded and settled; the outcome of the
    call with each number is a parameter. The second theory follows every answer to where it ends.
  \<^item> \<open>Stale_Responses\<close>: \<open>harness/stale-input-responses.ts\<close> with \<open>harness/input-extraction.ts\<close>: answers to
    prompts that are no longer pending.
  \<^item> \<open>Command_Inbox\<close>, \<open>Turn_Cancellation\<close>: \<open>execution/session-command-inbox.ts\<close>, cut at its awaits into
    operations on the hook states and the queue, over any order of events, and
    \<open>execution/turn-cancellation-control.ts\<close>.
  \<^item> \<open>Pending_Authorization\<close>: \<open>harness/authorization.ts\<close>, \<open>harness/inline-tool-authorization.ts\<close> and
    \<open>execution/authorization-callback-match.ts\<close>: the sign-in attempts a session waits for, the calls that
    raise them and the callbacks that complete them.
  \<^item> \<open>Approval_Candidates\<close>, \<open>Approval_Runs\<close>: \<open>harness/approval-candidates.ts\<close>. The durable record of who
    asks to approve a request and how it was settled, every operation on it, and what every run of them keeps.
  \<^item> \<open>Approval_Delivery\<close>, \<open>Approval_Safety\<close>: \<open>harness/approval-delivery-coordinator.ts\<close> and the
    publication of approval events in \<open>harness/tool-loop.ts\<close>. One pass ingests the delivered answers or asks
    the response policies about the waiting candidates; every pass is a run of the record's operations.
  \<^item> \<open>Compaction_Prompt\<close>, \<open>Compaction\<close>, \<open>Compaction_Props\<close>: \<open>harness/compaction-prompt.ts\<close>,
    \<open>harness/token-estimate.ts\<close> and \<open>harness/compaction.ts\<close>. A history, as a list of JSON messages, is
    shortened by capping tool results or by a summary; the answers of the compaction model are a parameter.

  \<^bold>\<open>What is shown.\<close> Schemas accept exactly the well-formed stores and the writers read back (C1);
  transitions refine abstract lifecycles and keep the invariants over every run (C3, C4, C8, C17 to
  C19); leases and settled tasks are protected from others (C5, C18); the merge is exact (C11); JSON equality, cleanliness, termination and
  the exact treatment of cycles (C13 to C16); usage is granted, shared and reported exactly (C25,
  C27); human input is neither lost nor misattributed (C28 to C31), and a stale answer never acts as one
  (C9); the relay and the parked wait keep every message in order and every response (C33 to C35); the
  command inbox delivers each payload once and oldest first (C2, C24); the emitter writes the whole
  stream in bounded memory (C36, C37); a persisted command means the same in every version (C38);
  the answers of a delivery reach the child of their route or come back to the parent (C40, C7). Only a
  response policy approves a guarded request, and only for a live candidate and its responder (C6); the
  audit trail of approvals is consistent, settlements are final, candidate ids do not collide and every
  event is published once (C12, C20, C22, C32); a sign-in callback completes a pending attempt of its own
  principal, once (C39). A compacted history is one a provider accepts and compaction ends (C21, C26). C2, C6, C7, C9, C12, C20, C21, C22, C24, C26 and C32 to C40 stand in the theory of their
  component, the others here.

  \<^bold>\<open>Representation.\<close> A JavaScript object is an association list without duplicate keys in insertion
  order, \<open>undefined\<close> is a value of its own, a number is an exact rational (token counts are integers
  below \<open>2^53\<close>; the rounding of fractional costs is outside the model), a string is a list of code
  units below 256. A throw is \<open>Inl\<close> of an error value. Hash functions, number formatting and key
  resolvers are parameters; the URL parser, \<open>isIP\<close> and \<open>BlockList\<close> of the host are the record \<open>platform\<close>.

  \<^bold>\<open>Bounds.\<close> The normaliser takes the depth of the call stack as fuel; running out is the
  \<open>RangeError\<close> of the code, and C15 shows that a stack as deep as the value is enough. The walk of a
  migration chain ends because every step raises the version towards the target, and the wait for a
  parked session's next turn because every round takes a read or a buffered delivery; both measures are
  in their termination proofs. The loop of a compaction shrinks its window in every round. The digits of a candidate id end because each division by 36 leaves less. All other definitions terminate by structural recursion. A
  candidate's sequence number is read back as long as it is at most \<open>2^53 - 1\<close>, so C22 is about fewer operations than that. A run of the
  relay, the emitter or the command inbox is over a finite list of events; what it shows holds for every such list.

  \<^bold>\<open>Not modelled.\<close> Model calls, streaming and tool execution (most of \<open>harness/tool-loop.ts\<close>), the response policies of
  tools with their tokens and timeout, minting a sign-in attempt (ULID and callback URL) and the callback results in
  the context store, the workflow runtime and its steps, the producers of inbox payloads (schemas of the validation library), the compiler and discovery (file system), channels, CLI and client (network and terminal),
  the sandbox, generated code and third-party packages.
\<close>

section \<open>Concrete values\<close>

text \<open>Small stores and sessions that the witnesses evaluate.\<close>

definition ada :: agent_identity where
  "ada = \<lparr>agent_id = ''ag_ada:1'', agent_name = ''ada'', agent_node = ''n1''\<rparr>"

definition bob :: agent_identity where
  "bob = \<lparr>agent_id = ''ag_bob:2'', agent_name = ''bob'', agent_node = ''n2''\<rparr>"

definition call_one :: start_operation where
  "call_one = \<lparr>op_id = ''op1'', op_call = ''call1'', op_turn = ''turn1''\<rparr>"

definition home :: agent_address where
  "home = LocalAddress ''s1'' ''tok1''"

definition session_with :: "handle_store \<Rightarrow> stateful" where
  "session_with hs = \<lparr>state = Some [(handles_key, store_json hs)]\<rparr>"

lemmas samples = ada_def bob_def call_one_def home_def session_with_def

lemma sample_ids [simp]: "agent_id ada = ''ag_ada:1''" "agent_id bob = ''ag_bob:2''"
  "agent_name ada = ''ada''" "agent_name bob = ''bob''" "op_id call_one = ''op1''"
  by (simp_all add: samples)

lemma sample_valid [simp]: "valid_identity ada" "valid_identity bob" "valid_address u home"
  "valid_start call_one" "\<not> is_remote home"
  by (simp_all add: samples valid_identity_def valid_start_def)

lemma state_session_with [simp]: "state_get (state (session_with hs)) handles_key = store_json hs"
  by (simp add: session_with_def state_get_def)

lemma get_session_with [simp]:
  "valid_store u hs \<Longrightarrow> get_agent_handle_store u (state (session_with hs)) = Inr (Some hs)"
  by (simp add: get_agent_handle_store_def Let_def)

lemma handles_of_session_with [simp]:
  "valid_store u hs \<Longrightarrow> handles_of u (session_with hs) = Inr hs"
  by (simp add: handles_of_def)

section \<open>Agent handles\<close>

text \<open>
  C1: the schema that guards every write of the handle store accepts a store exactly when its
  handles are well formed and their ids are unique, and it returns the store unchanged; whatever it
  accepts, from any stored value, is such a store.
\<close>
theorem store_schema_exact:
  "agent_handle_store_schema u (store_json hs) = (if valid_store u hs then Some hs else None)
    \<and> (agent_handle_store_schema u j = Some hs' \<longrightarrow> valid_store u hs')"
  by (simp add: agent_handle_store_schema_valid)

lemma store_schema_exact_witness:
  "valid_store (\<lambda>_. True) [Available ada home]"
  using store_schema_exact [of "\<lambda>_. True" "[]" "store_json [Available ada home]" "[Available ada home]"]
  by (simp add: valid_store_def)

text \<open>
  A transition's write is accepted exactly for a valid store; then the store reads back, and no
  other entry of the session state changes.
\<close>
theorem write_handles_slot:
  "if valid_store u hs
   then \<exists>s'. write_handles u s hs = Inr s' \<and> handles_of u s' = Inr hs \<and>
     (\<forall>k. k = handles_key \<or> state_get (state s') k = state_get (state s) k)
   else write_handles u s hs = Inl RefusedStore"
  by (simp add: write_handles_eq handles_of_def)

text \<open>
  C3: every owner-lease command moves the binding of every identity along an edge of the lease
  lifecycle, and only the edges of that command.
\<close>
theorem commands_follow_lifecycle:
  assumes "distinct (ids s)"
  shows "\<forall>k. command_edge cmd (lookup s k) (lookup (snd (apply_handle_command s cmd)) k)"
  using command_simulation [OF assms] by blast

lemma commands_follow_lifecycle_witness:
  "command_edge (Claim ''ag_ada:1'' ExpectLocal None ''ada'' ''op2'' ''w1'')
     (Some (Available ada home)) (Some (Claimed ada ''op2'' None home ''w1''))"
  using commands_follow_lifecycle [of "[Available ada home]"
      "Claim ''ag_ada:1'' ExpectLocal None ''ada'' ''op2'' ''w1''", THEN spec [of _ "''ag_ada:1''"]]
  by (simp add: replace_handle_def has_id_def)

text \<open>
  C4: whatever commands arrive, ids stay unique and every handle stays well formed, so no write of
  the store is ever refused.
\<close>
theorem command_runs_stay_valid:
  assumes "valid_store u s" and "\<forall>cmd \<in> set cmds. valid_command u cmd"
  shows "valid_store u (foldl (\<lambda>s cmd. snd (apply_handle_command s cmd)) s cmds)"
  using assms by (induction cmds arbitrary: s) (simp_all add: command_store_valid)

lemma command_runs_stay_valid_witness:
  "valid_store (\<lambda>_. True) [Claimed ada ''op2'' None home ''w1'', Reserved bob ''op3'' None ''w2'']"
  using command_runs_stay_valid [of "\<lambda>_. True" "[Available ada home]"
      "[Claim ''ag_ada:1'' ExpectLocal None ''ada'' ''op2'' ''w1'', Reserve bob ''op3'' None ''w2'']"]
  by (simp add: valid_store_def replace_handle_def has_id_def Let_def)

text \<open>
  C5: a claimed handle is exclusive. Commands of other owners, any number of them and in any order,
  leave the lease and its operation exactly as they are.
\<close>
theorem claimed_lease_exclusive:
  assumes "distinct (ids s)" and "lookup s k = Some (Claimed i p c a w)"
    and "\<forall>cmd \<in> set cmds. command_owner cmd \<noteq> Some w"
  shows "lookup (foldl (\<lambda>s cmd. snd (apply_handle_command s cmd)) s cmds) k = Some (Claimed i p c a w)"
  using assms by (rule claimed_kept_by_run)

lemma claimed_lease_exclusive_witness:
  "lookup (snd (apply_handle_command [Claimed ada ''op2'' None home ''w1''] (Remove ''ag_ada:1'' ''w2'')))
     ''ag_ada:1'' = Some (Claimed ada ''op2'' None home ''w1'')"
  using claimed_lease_exclusive [of "[Claimed ada ''op2'' None home ''w1'']" "''ag_ada:1''" ada "''op2''"
      None home "''w1''" "[Remove ''ag_ada:1'' ''w2'']"]
  by simp

text \<open>
  Commands are idempotent. A redelivered command gives the same result and changes nothing more.
\<close>
theorem command_redelivery:
  assumes "distinct (ids s)"
  shows "apply_handle_command (snd (apply_handle_command s cmd)) cmd = apply_handle_command s cmd"
  using command_replay [OF assms surjective_pairing] by simp

lemma command_redelivery_witness:
  "apply_handle_command [Reserved bob ''op3'' None ''w2''] (Reserve bob ''op3'' None ''w2'') =
     apply_handle_command [] (Reserve bob ''op3'' None ''w2'')"
  using command_redelivery [of "[]" "Reserve bob ''op3'' None ''w2''"] by (simp add: Let_def)

text \<open>
  A parsed command on a readable store is always applied: the session of the result holds the
  store the command computed, and the result is the command's.
\<close>
theorem parsed_command_applied:
  assumes "handles_of u session = Inr hs" and "command_schema u j = Some cmd"
  shows "\<exists>session'. apply_task_handle_command u session cmd =
      Inr (fst (apply_handle_command hs cmd), session') \<and>
    handles_of u session' = Inr (snd (apply_handle_command hs cmd))"
  using task_command_accepted [OF assms(1) command_schema_valid [OF assms(2)]] .

lemma parsed_command_applied_witness:
  "\<exists>session'. apply_task_handle_command (\<lambda>_. True) (session_with [Claimed ada ''op2'' None home ''w1''])
      (ReleaseOwner ''w1'') = Inr (Ready None, session') \<and>
    handles_of (\<lambda>_. True) session' = Inr [Available ada home]"
proof -
  have "valid_store (\<lambda>_. True) [Claimed ada ''op2'' None home ''w1'']" by (simp add: valid_store_def)
  moreover have "command_schema (\<lambda>_. True) (JObj [(''kind'', JStr ''release-owner''), (''ownerId'', JStr ''w1'')]) =
      Some (ReleaseOwner ''w1'')"
    by (simp add: command_schema_def fields_only_def)
  ultimately show ?thesis
    using parsed_command_applied [OF handles_of_session_with] by fastforce
qed

text \<open>
  C8: every accepted transition of the parent turn moves every identity along an edge of the turn
  lifecycle, and leaves a store that reads back.
\<close>
theorem turn_follows_lifecycle:
  assumes "handles_of u s = Inr hs" and "apply_turn_transition u num s c = Inr s'"
  shows "\<exists>hs'. handles_of u s' = Inr hs' \<and> (\<forall>k. turn_edge (lookup hs k) (lookup hs' k))"
  using turn_simulation [OF assms] by (simp add: turn_moves_def)

lemma turn_follows_lifecycle_witness:
  "\<exists>s'. apply_turn_transition (\<lambda>_. True) (\<lambda>_. []) (session_with [Running ada (StartOp call_one) home])
      AbandonTurns = Inr s' \<and>
    (\<exists>hs'. handles_of (\<lambda>_. True) s' = Inr hs' \<and>
      turn_edge (Some (Running ada (StartOp call_one) home)) (lookup hs' ''ag_ada:1''))"
proof -
  let ?hs = "[Running ada (StartOp call_one) home]"
  have v: "valid_store (\<lambda>_. True) ?hs" by (simp add: valid_store_def)
  obtain s' where s': "apply_turn_transition (\<lambda>_. True) (\<lambda>_. []) (session_with ?hs) AbandonTurns = Inr s'"
    by (auto simp: abandon_running_agent_turns_def v write_handles_eq)
      (auto simp: valid_store_def cancelled_status_def max_status_length_def)
  from turn_follows_lifecycle [OF handles_of_session_with [OF v] this] obtain hs' where
    "handles_of (\<lambda>_. True) s' = Inr hs'" "turn_edge (lookup ?hs ''ag_ada:1'') (lookup hs' ''ag_ada:1'')"
    by blast
  with s' show ?thesis by auto
qed

text \<open>
  The two ownership policies do not interfere: no transition of a parent turn touches a handle
  that a workflow owner has reserved, claimed or made available.
\<close>
theorem turn_keeps_task_handles:
  assumes "handles_of u s = Inr hs" and "apply_turn_transition u num s c = Inr s'"
    and "lookup hs k = Some h" and "h = Reserved i p call w \<or> h = Claimed i p call a w \<or> h = Available i a"
  shows "\<exists>hs'. handles_of u s' = Inr hs' \<and> lookup hs' k = Some h"
  using assms by (rule leases_kept_by_turn)

lemma turn_keeps_task_handles_witness:
  "\<exists>hs'. handles_of (\<lambda>_. True) (session_with [Available ada home]) = Inr hs' \<and>
     lookup hs' ''ag_ada:1'' = Some (Available ada home)"
  by (rule turn_keeps_task_handles [of "\<lambda>_. True" "session_with [Available ada home]" "[Available ada home]"
        "\<lambda>_. []" "RejectEffect ''op9'' Dead" _ "''ag_ada:1''" _ ada "[]" None "[]" home])
    (simp_all add: valid_store_def reject_agent_effect_def find_active_handle_def)

text \<open>
  C10: settling a child turn never fails on a readable store. It changes exactly the handle that is
  running the operation: parked with a bounded status, or deleted when the outcome is terminal. An
  operation no running handle records is ignored, so a stale settlement moves nothing.
\<close>
theorem settlement_exact:
  assumes "handles_of u s = Inr hs"
  shows "(settle_agent_turn u num s oid r = Inr IgnoredUnknownOperation \<and>
      \<not> list_ex (runs_operation oid) hs) \<or>
    (\<exists>s' hs' i p a. settle_agent_turn u num s oid r = Inr (Settled s') \<and> handles_of u s' = Inr hs' \<and>
      lookup hs (agent_id i) = Some (Running i p a) \<and> op_id (operation_data p) = oid \<and>
      (\<forall>k. lookup hs' k = (if k = agent_id i then
          (case r of OutcomeTerminal x \<Rightarrow> None | OutcomeParked x \<Rightarrow> Some (Parked i a (settled_status num x)))
        else lookup hs k)))"
proof (cases "find (runs_operation oid) hs")
  case None
  moreover have "\<not> list_ex (runs_operation oid) hs" using None by (auto simp: find_None_iff list_ex_iff)
  ultimately show ?thesis using assms by (simp add: settle_agent_turn_def)
next
  case (Some h)
  then obtain i p a where h: "h = Running i p a" by (rule running_found)
  obtain x where x: "settle_agent_turn u num s oid r = Inr x"
    using settle_never_refused [OF assms] by blast
  then have "x \<noteq> IgnoredUnknownOperation"
    using Some h assms by (cases r) (auto simp: settle_agent_turn_def)
  with x obtain s' where "settle_agent_turn u num s oid r = Inr (Settled s')" by (cases x) auto
  from this settle_exact [OF assms this] show ?thesis by metis
qed

lemma settlement_exact_witness:
  "\<exists>s' hs'. settle_agent_turn (\<lambda>_. True) (\<lambda>_. []) (session_with [Running ada (StartOp call_one) home]) ''op1''
      (OutcomeParked TurnCancelled) = Inr (Settled s') \<and> handles_of (\<lambda>_. True) s' = Inr hs' \<and>
      lookup hs' ''ag_ada:1'' = Some (Parked ada home ''(cancelled)'')"
proof -
  have "valid_store (\<lambda>_. True) [Running ada (StartOp call_one) home]" by (simp add: valid_store_def)
  then show ?thesis
    using settlement_exact [of "\<lambda>_. True" "session_with [Running ada (StartOp call_one) home]"
        "[Running ada (StartOp call_one) home]" "\<lambda>_. []" "''op1''" "OutcomeParked TurnCancelled"]
    by (auto simp: runs_operation_def cancelled_status_def split: if_splits)
qed



text \<open>
  The merge throws exactly when a turn changed a handle whose lease the driver also changed and
  the two disagree; with no such conflict it returns.
\<close>
theorem merge_conflict_iff:
  assumes "distinct (ids b)" "distinct (ids d)" "distinct (ids t)"
    and "state_get base handles_key = store_json b" "state_get driver handles_key = store_json d"
    and "state_get turn handles_key = store_json t"
  shows "(\<exists>e. merge_task_owned_agent_handles base driver turn = Inl e) \<longleftrightarrow>
    (\<exists>k h. lookup t k = Some h \<and> lookup d k \<noteq> lookup b k \<and> lookup b k \<noteq> Some h \<and> lookup d k \<noteq> Some h)"
proof -
  have "(\<exists>e. merge_task_owned_agent_handles base driver turn = Inl e) \<longleftrightarrow> (\<exists>e. merge_handles b d t = Inl e)"
    using merge_refines [OF assms(4-6)] by (auto simp: bindR_eq_Inl merge_handles_def)
  then show ?thesis using merge_throws [OF assms(1-3)] by simp
qed

lemma merge_conflict_iff_witness:
  "\<exists>e. merge_task_owned_agent_handles (state (session_with [Available ada home]))
      (state (session_with [Claimed ada ''op2'' None home ''w1'']))
      (state (session_with [Parked ada home ''done''])) = Inl e"
proof -
  have "\<exists>k h. lookup [Parked ada home ''done''] k = Some h \<and>
      lookup [Claimed ada ''op2'' None home ''w1''] k \<noteq> lookup [Available ada home] k \<and>
      lookup [Available ada home] k \<noteq> Some h \<and> lookup [Claimed ada ''op2'' None home ''w1''] k \<noteq> Some h"
    by (intro exI [of _ "''ag_ada:1''"] exI [of _ "Parked ada home ''done''"]) simp
  then show ?thesis
    by (rule merge_conflict_iff [THEN iffD2, rotated -1]) simp_all
qed

section \<open>JSON boundary\<close>

text \<open>
  C13: structural equality of JSON values is equality of what they denote: member order does not
  matter, and nothing else is ignored.
\<close>
theorem json_equality_is_meaning:
  assumes "wf_json a" and "wf_json b"
  shows "json_values_equal a b \<longleftrightarrow> meaning_of a = meaning_of b"
  using assms by (rule json_values_equal_meaning)

lemma json_equality_is_meaning_witness:
  "meaning_of (JObj [(''x'', JNum 1), (''y'', JNull)]) = meaning_of (JObj [(''y'', JNull), (''x'', JNum 1)])"
  using json_equality_is_meaning [of "JObj [(''x'', JNum 1), (''y'', JNull)]"
      "JObj [(''y'', JNull), (''x'', JNum 1)]"] by simp

text \<open>
  C14: what \<open>parseJsonObject\<close> returns is a JSON object: finite numbers only, no \<open>undefined\<close>, distinct
  keys, and no \<open>__proto__\<close> key at any depth.
\<close>
theorem parsed_object_clean:
  assumes "parse_json_object f h r = Some (Inr j)"
  shows "clean_json j \<and> is_json_object_value j"
  using assms
  by (auto simp: parse_json_object_def parse_json_value_def dest!: normalize_clean(1)
      split: option.splits if_splits)

lemma parsed_object_clean_witness:
  "clean_json (JObj [(''b'', JArr [JNum 1])])"
  using parsed_object_clean [of 5 "\<lambda>a. if a = 0 then NObj ProtoRoot [(''a'', RUndef), (''__proto__'', RNull), (''b'', RArr 1)]
      else NArr [RNum 1]" "RObj 0" "JObj [(''b'', JArr [JNum 1])]"]
  by (simp add: parse_json_object_def parse_json_value_def is_plain_object_def set_own_def
      is_json_object_value_def numeral_nat)




section \<open>Background tasks\<close>

definition review :: task_metadata where
  "review = \<lparr>meta_kind = ''agent'', meta_name = ''review'', meta_rest = []\<rparr>"

definition task_in :: "task_state \<Rightarrow> task_view" where
  "task_in s = \<lparr>task_id = ''task_1'', metadata = review, executor = None, usage = None, status = s\<rparr>"

definition asks :: "string \<Rightarrow> json" where
  "asks i = JObj [(''requestId'', JStr i)]"

definition entry_one :: index_entry where
  "entry_one = \<lparr>entry_task = ''task_1'', entry_run = ''run1'', terminal_cache = None, inbox_token = ''tok'',
     created_step = None, created_turn = ''turn1'', entry_executor = None, entry_metadata = review\<rparr>"

definition spent :: task_usage where
  "spent = \<lparr>cache_read_tokens = 0, cache_write_tokens = 0, cost_usd = Some 1, input_tokens = 5,
     output_tokens = 2\<rparr>"

lemma read_asks [simp]: "read_task_input_request_id (asks i) = Some i"
  by (simp add: read_task_input_request_id_def jstr_def asks_def)

lemma task_in_simps [simp]: "status (task_in s) = s" "task_id (task_in s) = ''task_1''"
  "metadata (task_in s) = review" "usage (task_in s) = None" "executor (task_in s) = None"
  by (simp_all add: task_in_def)

lemma review_simps [simp]: "valid_metadata review" "same_task_metadata review review"
  by (simp_all add: review_def valid_metadata_def same_task_metadata_def metadata_json_def)

lemma index_one [simp]:
  "get_session_task_index (Some (state_put tasks_key (task_index_json [entry_one]) None)) = Inr [entry_one]"
  by (rule get_task_index_put) (simp add: valid_index_def valid_entry_def entry_one_def cache_matches_def)

text \<open>
  C17: a command moves a task only along the edges of its lifecycle: it settles once, blocks on a
  well-formed batch of requests, loses requests only as they are answered, and resumes working. Its id
  and its metadata never change.
\<close>
theorem task_lifecycle:
  "task_edge (status v) (status (task_step v cmd)) \<and>
   task_id (task_step v cmd) = task_id v \<and> metadata (task_step v cmd) = metadata v"
  using task_follows_edges [of v cmd]
  by (cases cmd) (auto simp: open_simps Let_def split: option.split task_state.split)

text \<open>
  C18: a settled task is final. Whatever commands arrive afterwards, in any order, it keeps its status,
  its output and its usage; a binding it had is kept too.
\<close>
theorem settled_task_final:
  assumes "is_terminal_task_status (status v)"
  shows "settled_as v (foldl task_step v cmds)"
  by (rule settled_tasks.run_inv) (use assms in \<open>simp add: settled_as_def\<close>)

lemma settled_task_final_witness:
  "status (foldl task_step (task_in (Completed (JStr ''ok''))) [Fail JNull None, Cancel None, RequireInput [asks ''q'']])
     = Completed (JStr ''ok'')"
  using settled_task_final [of "task_in (Completed (JStr ''ok''))"
      "[Fail JNull None, Cancel None, RequireInput [asks ''q'']]"]
  by (simp add: settled_as_def)



text \<open>
  Answers may arrive in pieces and more than once. Two deliveries act like one with all their
  request ids, and once every request is answered the task works again.
\<close>
theorem answers_compose:
  assumes "valid_task_view v" and "status v = InputRequired rs"
  shows "task_step (task_step v (Answered xs)) (Answered ys) = task_step v (Answered (xs @ ys)) \<and>
    (status (task_step v (Answered xs)) = Working \<longleftrightarrow>
       (\<forall>r \<in> set rs. \<forall>i. read_task_input_request_id r = Some i \<longrightarrow> i \<in> set xs))"
  using answers_split [of v xs ys] answered_working_iff [OF assms, of xs] by blast

lemma answers_compose_witness:
  "status (task_step (task_step (task_in (InputRequired [asks ''p'', asks ''q''])) (Answered [''q''])) (Answered [''p'']))
     = Working"
  using answers_compose [of "task_in (InputRequired [asks ''p'', asks ''q''])" "[asks ''p'', asks ''q'']" "[''q'', ''p'']" "[]"]
    answers_compose [of "task_in (InputRequired [asks ''p'', asks ''q''])" "[asks ''p'', asks ''q'']" "[''q'']" "[''p'']"]
  by (simp add: valid_task_view_def valid_batch_iff)

text \<open>
  A terminal view without a cost is cached beside its entry and reads back there; every other
  entry is found as before.
\<close>
theorem terminal_view_cached:
  assumes "get_session_task_index s = Inr es" and "cacheable_view v"
    and "find (\<lambda>e. entry_task e = task_id v) es = Some e"
    and "same_task_metadata (metadata v) (entry_metadata e)" "same_task_metadata (entry_metadata e) (metadata v)"
  shows "\<exists>s'. cache_terminal_task_view s v = Inr s' \<and>
    find_session_task_entry s' (task_id v) = Inr (Some (e\<lparr>terminal_cache := Some v\<rparr>)) \<and>
    (\<forall>t. t = task_id v \<or> find_session_task_entry s' t = find_session_task_entry s t)"
  using assms by (rule cache_reads_back)

lemma terminal_view_cached_witness:
  "\<exists>s'. cache_terminal_task_view (Some (state_put tasks_key (task_index_json [entry_one]) None)) (task_in TaskCancelled)
      = Inr s' \<and> find_session_task_entry s' ''task_1'' =
        Inr (Some (entry_one\<lparr>terminal_cache := Some (task_in TaskCancelled)\<rparr>))"
  using terminal_view_cached [OF index_one, of "task_in TaskCancelled" entry_one]
  by (auto simp: cacheable_view_def valid_executor_def entry_one_def)

text \<open>
  A terminal view that carries a cost is cached without complaint, but the schema of the index
  has no cost, so every later read of the index throws.
\<close>
theorem cached_cost_corrupts_index:
  assumes "get_session_task_index s = Inr es" and "is_terminal_task_status (status v)"
    and "usage v = Some u" and "cost_usd u = Some c" and "valid_usage u"
    and "find (\<lambda>e. entry_task e = task_id v) es = Some e"
    and "same_task_metadata (entry_metadata e) (metadata v)"
  shows "\<exists>s'. cache_terminal_task_view s v = Inr s' \<and> get_session_task_index s' = Inl CorruptIndex"
  using assms by (rule cost_corrupts_index)

lemma cached_cost_corrupts_index_witness:
  "\<exists>s'. cache_terminal_task_view (Some (state_put tasks_key (task_index_json [entry_one]) None))
      (task_step (task_in Working) (Complete JNull (Some spent))) = Inr s' \<and>
    get_session_task_index s' = Inl CorruptIndex"
  by (rule cached_cost_corrupts_index [OF index_one, of _ spent 1 entry_one])
    (simp_all add: open_simps spent_def valid_usage_def entry_one_def)

text \<open>
  C23: while a task of the cohort is still pending, the model context of a delivery reveals nothing of
  the outputs that are already there: it is a function of names, statuses and ids only.
\<close>
theorem pending_cohort_reveals_no_output:
  assumes "map shown es = map shown es'" and "e \<in> set es" and "terminal_cache e = None"
  shows "project_task_cohort num es = project_task_cohort num es'"
  using assms by (rule pending_cohort_blind)

lemma pending_cohort_reveals_no_output_witness:
  "project_task_cohort (\<lambda>_. []) [entry_one, entry_one\<lparr>terminal_cache := Some (task_in (Completed (JStr ''a'')))\<rparr>] =
   project_task_cohort (\<lambda>_. []) [entry_one, entry_one\<lparr>terminal_cache := Some (task_in (Completed (JStr ''b'')))\<rparr>]"
  by (rule pending_cohort_reveals_no_output [where e = entry_one]) (simp_all add: shown_def entry_one_def)

text \<open>
  The task id is readable from the inbox token derived for it.
\<close>
theorem inbox_token_names_task:
  assumes "hex_digest sha"
  shows "read_task_id_from_inbox_token
      (derive_task_inbox_token sha continuation (derive_task_id sha session turn call)) =
    Some (derive_task_id sha session turn call)"
  using assms by (intro inbox_token_roundtrip) simp_all

lemma inbox_token_names_task_witness:
  "read_task_id_from_inbox_token (derive_task_inbox_token (\<lambda>_. replicate 64 CHR ''a'') ''c''
      (derive_task_id (\<lambda>_. replicate 64 CHR ''a'') ''s'' ''t'' ''k'')) =
    Some (derive_task_id (\<lambda>_. replicate 64 CHR ''a'') ''s'' ''t'' ''k'')"
  by (rule inbox_token_names_task) (simp add: hex_digest_def is_hex_def list_all_iff)

section \<open>Usage and limits\<close>

definition capped :: harness_session where
  "capped = \<lparr>state = None, session_id = ''s'', continuation_token = ''c'', history = [],
     limits = Some \<lparr>max_input_tokens = Some 100, max_output_tokens = None, max_token_cost_usd = Some 3\<rparr>,
     session_rest = JNull\<rparr>"

lemma capped_usage [simp]: "get_session_token_usage capped = zero_usage"
  by (simp add: capped_def get_session_token_usage_def get_turn_usage_state_def state_get_def)

text \<open>
  C25: an approved continuation buys exactly one configured window on every capped axis, whatever the
  overshoot was: afterwards the gate stops the session precisely when some axis has grown by its
  window since the grant.
\<close>
theorem grant_buys_one_window:
  "get_session_usage_limit_violation (set_turn_usage_state (bump_session_runtime_usage_limits s) t) = None \<longleftrightarrow>
    in_window (limit_input (configured_session_usage_limits s)) (total_input (get_session_token_usage s))
      (total_input (session_totals t)) \<and>
    in_window (limit_output (configured_session_usage_limits s)) (total_output (get_session_token_usage s))
      (total_output (session_totals t)) \<and>
    in_window (limit_cost (configured_session_usage_limits s)) (total_cost (get_session_token_usage s))
      (total_cost (session_totals t))"
  by (rule violation_after_grant)

text \<open>
  The shares of a batch of delegated calls are never negative and together never exceed what the
  parent has left on the axis; a token share wastes less than one token per child.
\<close>
theorem fanout_within_remainder:
  assumes "child_input (resolve_remaining_session_token_limits s n) = Some x" and "1 \<le> n" and "n = of_int k"
  shows "\<exists>r. limit_input (get_session_remaining_usage_quota s) = Some r \<and> 0 \<le> x \<and> x * n \<le> r \<and>
    r < (x + 1) * n \<and>
    (\<forall>c. child_cost (resolve_remaining_session_token_limits s n) = Some c \<longrightarrow>
       0 \<le> c \<and> limit_cost (get_session_remaining_usage_quota s) = Some (c * n))"
proof -
  have n: "max 1 (of_int \<lfloor>n\<rfloor>) = n" using assms(2,3) by simp
  obtain r where r: "limit_input (get_session_remaining_usage_quota s) = Some r" and x: "x = of_int \<lfloor>r / n\<rfloor>"
    using assms(1) n by (auto simp: resolve_remaining_session_token_limits_def Let_def)
  have "0 \<le> c \<and> limit_cost (get_session_remaining_usage_quota s) = Some (c * n)"
    if "child_cost (resolve_remaining_session_token_limits s n) = Some c" for c
    using that n assms(2) remaining_nonneg(3) [of s]
    by (auto simp: resolve_remaining_session_token_limits_def Let_def)
  with r x fanout_share [OF assms(2) remaining_nonneg(1) [OF r]] show ?thesis by metis
qed

lemma fanout_within_remainder_witness:
  "\<exists>x. child_input (resolve_remaining_session_token_limits capped 3) = Some x \<and> x * 3 \<le> 100"
proof -
  have r: "limit_input (get_session_remaining_usage_quota capped) = Some 100"
    by (simp add: get_session_remaining_usage_quota_def remaining_runtime_usage_quota_def
        get_session_runtime_usage_limits_def resolve_runtime_usage_limits_def nullish_def
        stored_runtime_limits_def configured_session_usage_limits_def amounts_def zero_usage_def)
      (simp add: capped_def state_get_def)
  obtain x where x: "child_input (resolve_remaining_session_token_limits capped 3) = Some x"
    by (simp add: resolve_remaining_session_token_limits_def Let_def r)
  have "1 \<le> (3 :: rat)" "(3 :: rat) = of_int 3" by simp_all
  from fanout_within_remainder [OF x this] r have "x * 3 \<le> 100" by simp
  with x show ?thesis by blast
qed



definition approval_batch :: "string \<Rightarrow> string \<Rightarrow> batch" where
  "approval_batch i t = \<lparr>batch_event = JUndef, batch_requests = [JObj [(''kind'', JStr ''tool-approval''),
     (''requestId'', JStr i), (''action'', JObj [(''toolName'', JStr t), (''callId'', JStr i)])]],
     batch_auth_required = JUndef, batch_messages = []\<rparr>"

definition limit_batch :: batch where
  "limit_batch = \<lparr>batch_event = JUndef, batch_requests = [JObj [(''kind'', JStr ''session-limit''),
     (''requestId'', JStr ''s1:limit:input:10'')]], batch_auth_required = JUndef, batch_messages = []\<rparr>"

definition pick :: "string \<Rightarrow> string \<Rightarrow> json" where
  "pick i opt = JObj [(''requestId'', JStr i), (''optionId'', JStr opt)]"

definition two_answers :: step_input where
  "two_answers = empty_input\<lparr>input_responses := Some [pick ''a1'' ''approve'', pick ''b1'' ''deny'']\<rparr>"

definition waiting :: "batch list \<Rightarrow> stateful" where
  "waiting bs = \<lparr>state = Some [(pending_batches_key, JArr (map batch_json bs))]\<rparr>"

lemma waiting_pending: "unique_requests bs \<Longrightarrow> get_pending_input_batches (state (waiting bs)) = Inr bs"
  by (simp add: waiting_def get_pending_input_batches_def state_get_def)

definition two_approvals :: "batch list" where
  "two_approvals = [approval_batch ''a1'' ''bash'', approval_batch ''b1'' ''bash'']"

lemma two_approvals_pending: "get_pending_input_batches (state (waiting two_approvals)) = Inr two_approvals"
  by (rule waiting_pending)
    (simp add: two_approvals_def unique_requests_def approval_batch_def batch_ids_def request_id_def jstr_def)

lemma two_approvals_route:
  "route_pending_input (pending_of two_approvals) =
     Inr (ApprovalRoute (pending_of two_approvals) [])"
  by (simp add: route_pending_input_def pending_of_def two_approvals_def approval_batch_def
      classify_pending_input_batch_def is_question_request_def is_session_limit_request_def
      is_approval_request_def is_session_limit_input_batch_def Let_def has_approval_def)

lemma two_approvals_run:
  "\<exists>r. resolve_pending_input False (\<lambda>_. None) [] (waiting two_approvals) (Some two_answers) = Inr r"
  using resolve_errors [of False "\<lambda>_. None" "[]" "waiting two_approvals" "Some two_answers"]
    two_approvals_pending two_approvals_route
  by (cases "resolve_pending_input False (\<lambda>_. None) [] (waiting two_approvals) (Some two_answers)") auto

lemma two_answers_ok: "input_ok (Some two_answers)"
  by (simp add: input_ok_def storable_def two_answers_def empty_input_def)

definition limit_reached :: "batch list" where
  "limit_reached = [approval_batch ''a1'' ''bash'', limit_batch]"

lemma limit_reached_pending: "get_pending_input_batches (state (waiting limit_reached)) = Inr limit_reached"
  by (rule waiting_pending)
    (simp add: limit_reached_def limit_batch_def unique_requests_def approval_batch_def batch_ids_def request_id_def jstr_def)

lemma limit_reached_route:
  "route_pending_input (pending_of limit_reached) = Inr (LimitRoute (1, limit_batch))"
  by (simp add: route_pending_input_def pending_of_def limit_reached_def approval_batch_def limit_batch_def
      classify_pending_input_batch_def is_question_request_def is_session_limit_request_def
      is_approval_request_def is_session_limit_input_batch_def Let_def has_approval_def)

text \<open>
  C28: no answer of the user is lost. After a step has resolved pending input, the pending batches are
  some of the stored ones, and every response of the input (the last one given for its request) that
  addresses a batch still pending is among the responses deferred to the next step.
\<close>
theorem responses_not_lost:
  assumes "get_pending_input_batches (state session) = Inr stored"
    and "input_ok i" and "resolve_pending_input defer key base session i = Inr r"
  shows "\<exists>kept. get_pending_input_batches (state (result_session r)) = Inr (map snd kept) \<and>
    set kept \<subseteq> set (pending_of stored) \<and>
    (\<forall>x \<in> set (canonicalize_input_responses (responses_of i)). \<forall>b \<in> set kept.
       request_id x \<in> set (batch_ids (snd b)) \<longrightarrow>
       x \<in> set (responses_of (get_deferred_step_input (result_session r))))"
  using resolve_accounted [OF assms] unfolding accounted_def .

lemma responses_not_lost_witness:
  "\<exists>r (kept :: pending list). resolve_pending_input False (\<lambda>_. None) [] (waiting two_approvals) (Some two_answers) = Inr r \<and>
     get_pending_input_batches (state (result_session r)) = Inr (map snd kept) \<and>
     ((1, approval_batch ''b1'' ''bash'') \<in> set kept \<longrightarrow>
        pick ''b1'' ''deny'' \<in> set (responses_of (get_deferred_step_input (result_session r))))"
proof -
  obtain r where r: "resolve_pending_input False (\<lambda>_. None) [] (waiting two_approvals) (Some two_answers) = Inr r"
    using two_approvals_run by blast
  have x: "pick ''b1'' ''deny'' \<in> set (canonicalize_input_responses (responses_of (Some two_answers)))"
    by (simp add: two_answers_def empty_input_def responses_of_def or_empty_def canonicalize_input_responses_def
        response_map_def pick_def request_id_def jstr_def)
  have id: "request_id (pick ''b1'' ''deny'') \<in> set (batch_ids (approval_batch ''b1'' ''bash''))"
    by (simp add: pick_def batch_ids_def approval_batch_def request_id_def jstr_def)
  from responses_not_lost [OF two_approvals_pending two_answers_ok r] obtain kept :: "pending list" where
    pend: "get_pending_input_batches (state (result_session r)) = Inr (map snd kept)"
    and keep: "\<forall>x \<in> set (canonicalize_input_responses (responses_of (Some two_answers))). \<forall>b \<in> set kept.
       request_id x \<in> set (batch_ids (snd b)) \<longrightarrow>
       x \<in> set (responses_of (get_deferred_step_input (result_session r)))" by blast
  from keep x have "\<forall>b \<in> set kept. request_id (pick ''b1'' ''deny'') \<in> set (batch_ids (snd b)) \<longrightarrow>
       pick ''b1'' ''deny'' \<in> set (responses_of (get_deferred_step_input (result_session r)))" by blast
  with id have "(1, approval_batch ''b1'' ''bash'') \<in> set kept \<longrightarrow>
        pick ''b1'' ''deny'' \<in> set (responses_of (get_deferred_step_input (result_session r)))"
    by (metis snd_conv)
  with r pend show ?thesis by blast
qed



text \<open>
  C30: a tool becomes approved only by an explicit approval. Every tool recorded as approved after the
  step was recorded before, or a stored batch whose approvals are all answered asks for it and a
  response to that very request chose \<open>approve\<close>.
\<close>
theorem tools_approved_explicitly:
  assumes "get_pending_input_batches (state session) = Inr stored" and "input_ok i"
    and "route_pending_input (pending_of stored) = Inr route"
    and "resolve_pending_input defer key base session i = Inr r"
    and "t \<in> set (read_recorded_approved_tools (result_session r))"
  shows "t \<in> set (read_recorded_approved_tools session) \<or>
    (\<exists>b \<in> set stored. approvals_answered (effective_responses route stored i) b \<and>
       (\<exists>q \<in> set (batch_requests b). is_approval_request q \<and> t = approval_key key q \<and>
          (\<exists>x \<in> set (effective_responses route stored i).
             request_id x = request_id q \<and> jget x ''optionId'' = JStr ''approve'')))"
  using resolve_recorded [OF assms] unfolding approved_by_def .

lemma tools_approved_explicitly_witness:
  "\<exists>r. resolve_pending_input False (\<lambda>_. None) [] (waiting two_approvals) (Some two_answers) = Inr r \<and>
     ''rm'' \<notin> set (read_recorded_approved_tools (result_session r))"
proof -
  obtain r where r: "resolve_pending_input False (\<lambda>_. None) [] (waiting two_approvals) (Some two_answers) = Inr r"
    using two_approvals_run by blast
  have none: "read_recorded_approved_tools (waiting two_approvals) = []"
    by (simp add: read_recorded_approved_tools_def waiting_def state_get_def strings_of_def
        approved_tools_key_def pending_batches_key_def)
  have "''rm'' \<notin> set (read_recorded_approved_tools (result_session r))"
  proof
    assume "''rm'' \<in> set (read_recorded_approved_tools (result_session r))"
    from tools_approved_explicitly [OF two_approvals_pending two_answers_ok two_approvals_route r this] none
    show False
      by (auto simp: two_approvals_def approval_batch_def approval_key_def tool_name_of_def)
  qed
  with r show ?thesis by blast
qed

text \<open>
  C31: an open session-limit prompt owns the step. Either its batch is answered completely, it alone
  leaves the pending list and the continuation is the answer given, or nothing is resolved: the pending
  batches are as before and no continuation is granted.
\<close>
theorem limit_prompt_owns_resolution:
  assumes "get_pending_input_batches (state session) = Inr stored" and "input_ok i"
    and "route_pending_input (pending_of stored) = Inr (LimitRoute b)"
    and "resolve_pending_input defer key base session i = Inr r"
  shows "if outcome r = Resolved
    then list_all (answers (effective_responses (LimitRoute b) stored i)) (batch_requests (snd b)) \<and>
      get_pending_input_batches (state (result_session r)) = Inr (map snd (filter (\<lambda>c. c \<noteq> b) (pending_of stored))) \<and>
      limit_continuation r = resolve_session_limit_continuation (batch_requests (snd b))
        (effective_responses (LimitRoute b) stored i)
    else outcome r = Unresolved \<and> limit_continuation r = None \<and>
      get_pending_input_batches (state (result_session r)) = Inr stored"
  by (rule limit_resolution [OF assms])

lemma limit_prompt_owns_resolution_witness:
  "\<exists>r. resolve_pending_input False (\<lambda>_. None) [] (waiting limit_reached) (Some two_answers) = Inr r \<and>
     outcome r = Unresolved \<and> limit_continuation r = None \<and>
     get_pending_input_batches (state (result_session r)) = Inr limit_reached"
proof -
  obtain r where r: "resolve_pending_input False (\<lambda>_. None) [] (waiting limit_reached) (Some two_answers) = Inr r"
    using resolve_errors [of False "\<lambda>_. None" "[]" "waiting limit_reached" "Some two_answers"]
      limit_reached_pending limit_reached_route
    by (cases "resolve_pending_input False (\<lambda>_. None) [] (waiting limit_reached) (Some two_answers)") auto
  have "\<not> list_all (answers (effective_responses (LimitRoute (1, limit_batch)) limit_reached (Some two_answers)))
      (batch_requests (snd (1 :: nat, limit_batch)))"
    by (simp add: effective_responses_def resolved_step_input_def text_resolution_batch_def
        resolve_text_message_input_def two_answers_def empty_input_def responses_of_def or_empty_def
        canonicalize_input_responses_def response_map_def pick_def limit_batch_def answers_def request_id_def jstr_def)
  with limit_prompt_owns_resolution [OF limit_reached_pending two_answers_ok limit_reached_route r] r
  show ?thesis by (auto split: if_splits)
qed

text \<open>
  Resolving pending input fails only on malformed stored batches: when a request id occurs twice
  in them, when a request has an unknown kind, or when a session-limit request shares its batch. No
  input of the user makes it throw.
\<close>
theorem resolution_errors_exactly:
  "resolve_pending_input defer key base session i = Inl e \<longleftrightarrow>
     get_pending_input_batches (state session) = Inl e \<or>
     (\<exists>stored. get_pending_input_batches (state session) = Inr stored \<and>
        route_pending_input (pending_of stored) = Inl e)"
  by (rule resolve_errors)

end
